(* ===== verification/Prelude.thy ===== *)
theory Prelude
  imports Main "HOL-Library.Word"
begin

text \<open>
  Shared vocabulary of the development: bytes and byte strings, the \<open>Result\<close> type of the
  Rust sources with its \<open>?\<close> operator, state-passing computations that may fail, fixed-width
  big-endian integers, and the two interfaces several components instantiate: a codec that
  reads back what it wrote (\<open>prefix_codec\<close>) and a transition system with an invariant
  (\<open>invariant_system\<close>).
\<close>

named_theorems res_simps \<open>rewriting of results and of their sequencing\<close>
named_theorems be_simps \<open>big-endian integers\<close>

type_synonym byte = "8 word"
type_synonym bytes = "byte list"

type_synonym u32 = "32 word"
type_synonym u64 = "64 word"
type_synonym i16 = "16 word"
type_synonym i32 = "32 word"
type_synonym i64 = "64 word"

text \<open>Bytes from numbers, and a Rust byte-string or string literal from its ASCII characters.\<close>

definition byte_of :: "nat \<Rightarrow> byte" where
  "byte_of n = of_nat n"

lemma unat_byte_of [simp]: "n < 256 \<Longrightarrow> unat (byte_of n) = n"
  by (simp add: byte_of_def unat_of_nat)

lemma byte_of_unat [simp]: "byte_of (unat b) = b"
  by (simp add: byte_of_def)

lemma unat_byte_less: "unat (x :: byte) < 256"
  using unsigned_less [of x, where ?'a = nat] by simp

definition bs :: "string \<Rightarrow> bytes" where
  "bs s = map of_char s"


section \<open>Results\<close>

text \<open>\<open>Result<T, E>\<close> is the sum type with the error on the left.\<close>

abbreviation Ok :: "'a \<Rightarrow> 'e + 'a" where
  "Ok \<equiv> Inr"

abbreviation Err :: "'e \<Rightarrow> 'e + 'a" where
  "Err \<equiv> Inl"

text \<open>The \<open>?\<close> operator: stop at the first error.\<close>

definition res_bind :: "'e + 'a \<Rightarrow> ('a \<Rightarrow> 'e + 'b) \<Rightarrow> 'e + 'b" where
  "res_bind m f = (case m of Err e \<Rightarrow> Err e | Ok a \<Rightarrow> f a)"

definition map_err :: "('e \<Rightarrow> 'f) \<Rightarrow> 'e + 'a \<Rightarrow> 'f + 'a" where
  "map_err f m = (case m of Err e \<Rightarrow> Err (f e) | Ok a \<Rightarrow> Ok a)"

definition map_ok :: "('a \<Rightarrow> 'b) \<Rightarrow> 'e + 'a \<Rightarrow> 'e + 'b" where
  "map_ok f m = (case m of Err e \<Rightarrow> Err e | Ok a \<Rightarrow> Ok (f a))"

text \<open>\<open>Option::ok_or\<close>.\<close>

definition ok_or :: "'a option \<Rightarrow> 'e \<Rightarrow> 'e + 'a" where
  "ok_or v e = (case v of None \<Rightarrow> Err e | Some a \<Rightarrow> Ok a)"

definition is_ok :: "'e + 'a \<Rightarrow> bool" where
  "is_ok m = (case m of Err _ \<Rightarrow> False | Ok _ \<Rightarrow> True)"

lemma res_bind_simps [simp, res_simps]:
  "res_bind (Ok a) f = f a"
  "res_bind (Err e) f = Err e"
  by (simp_all add: res_bind_def)

lemma res_bind_eq_Ok [res_simps]:
  "res_bind m f = Ok b \<longleftrightarrow> (\<exists>a. m = Ok a \<and> f a = Ok b)"
  by (cases m) simp_all

lemma res_bind_eq_Err [res_simps]:
  "res_bind m f = Err e \<longleftrightarrow> m = Err e \<or> (\<exists>a. m = Ok a \<and> f a = Err e)"
  by (cases m) simp_all

lemma res_bind_assoc:
  "res_bind (res_bind m f) g = res_bind m (\<lambda>a. res_bind (f a) g)"
  by (cases m) simp_all

lemma map_err_simps [simp, res_simps]:
  "map_err f (Ok a) = Ok a"
  "map_err f (Err e) = Err (f e)"
  by (simp_all add: map_err_def)

lemma map_err_eq_Ok [simp, res_simps]: "map_err f m = Ok a \<longleftrightarrow> m = Ok a"
  by (cases m) simp_all

lemma map_ok_simps [simp, res_simps]:
  "map_ok f (Ok a) = Ok (f a)"
  "map_ok f (Err e) = Err e"
  by (simp_all add: map_ok_def)

lemma map_ok_eq_Ok [res_simps]: "map_ok f m = Ok b \<longleftrightarrow> (\<exists>a. m = Ok a \<and> b = f a)"
  by (cases m) auto

lemma map_ok_eq_Err [simp, res_simps]: "map_ok f m = Err e \<longleftrightarrow> m = Err e"
  by (cases m) auto

lemma ok_or_simps [simp, res_simps]:
  "ok_or None e = Err e"
  "ok_or (Some a) e = Ok a"
  by (simp_all add: ok_or_def)

lemma ok_or_eq_Ok [res_simps]: "ok_or v e = Ok a \<longleftrightarrow> v = Some a"
  by (cases v) simp_all

lemma is_ok_simps [simp]:
  "is_ok (Ok a)"
  "\<not> is_ok (Err e)"
  by (simp_all add: is_ok_def)

lemma is_ok_iff: "is_ok m \<longleftrightarrow> (\<exists>a. m = Ok a)"
  by (cases m) simp_all

lemma res_bind_cong [fundef_cong]:
  "m = m' \<Longrightarrow> (\<And>a. m' = Ok a \<Longrightarrow> f a = g a) \<Longrightarrow> res_bind m f = res_bind m' g"
  by (cases m') simp_all


section \<open>Computations over a state that may fail\<close>

text \<open>
  Methods that change state behind a shared reference (a lock, an atomic counter, a
  \<open>OnceLock\<close>) take the state and return it, also when they fail: what was changed before the
  failure stays changed.
\<close>

type_synonym ('s, 'e, 'a) comp = "'s \<Rightarrow> ('e + 'a) \<times> 's"

definition comp_bind :: "('s, 'e, 'a) comp \<Rightarrow> ('a \<Rightarrow> ('s, 'e, 'b) comp) \<Rightarrow> ('s, 'e, 'b) comp" where
  "comp_bind m f s = (case m s of (Err e, s') \<Rightarrow> (Err e, s') | (Ok a, s') \<Rightarrow> f a s')"

definition comp_ret :: "'a \<Rightarrow> ('s, 'e, 'a) comp" where
  "comp_ret a s = (Ok a, s)"

definition comp_of :: "'e + 'a \<Rightarrow> ('s, 'e, 'a) comp" where
  "comp_of r s = (r, s)"

lemma comp_ret_apply [simp]: "comp_ret a s = (Ok a, s)"
  by (simp add: comp_ret_def)

lemma comp_of_apply [simp]: "comp_of r s = (r, s)"
  by (simp add: comp_of_def)

lemma comp_bind_Ok [simp]: "m s = (Ok a, s') \<Longrightarrow> comp_bind m f s = f a s'"
  by (simp add: comp_bind_def)

lemma comp_bind_Err [simp]: "m s = (Err e, s') \<Longrightarrow> comp_bind m f s = (Err e, s')"
  by (simp add: comp_bind_def)

lemma comp_bind_eq_Ok:
  "comp_bind m f s = (Ok b, t) \<longleftrightarrow> (\<exists>a s'. m s = (Ok a, s') \<and> f a s' = (Ok b, t))"
  by (auto simp: comp_bind_def split: prod.splits sum.splits)

lemma comp_bindE:
  assumes "comp_bind m f s = (r, t)"
  obtains (err) e where "m s = (Err e, t)" "r = Err e"
    | (ok) a s' where "m s = (Ok a, s')" "f a s' = (r, t)"
  using assms by (auto simp: comp_bind_def split: prod.splits sum.splits)


section \<open>Big-endian integers\<close>

text \<open>\<open>to_be_bytes\<close> and \<open>from_be_bytes\<close>, for any number of bytes.\<close>

fun be_bytes :: "nat \<Rightarrow> nat \<Rightarrow> bytes" where
  "be_bytes 0 v = []"
| "be_bytes (Suc n) v = be_bytes n (v div 256) @ [of_nat (v mod 256)]"

definition be_nat :: "bytes \<Rightarrow> nat" where
  "be_nat b = foldl (\<lambda>acc x. acc * 256 + unat x) 0 b"

definition word_be :: "nat \<Rightarrow> 'a::len word \<Rightarrow> bytes" where
  "word_be n w = be_bytes n (unat w)"

definition be_word :: "bytes \<Rightarrow> 'a::len word" where
  "be_word b = of_nat (be_nat b)"

lemma length_be_bytes [simp, be_simps]: "length (be_bytes n v) = n"
  by (induction n arbitrary: v) simp_all

lemma length_word_be [simp, be_simps]: "length (word_be n w) = n"
  by (simp add: word_be_def)

lemma be_nat_Nil [simp]: "be_nat [] = 0"
  by (simp add: be_nat_def)

lemma be_nat_snoc [be_simps]: "be_nat (b @ [x]) = be_nat b * 256 + unat x"
  by (simp add: be_nat_def)

lemma be_nat_be_bytes [simp, be_simps]: "be_nat (be_bytes n v) = v mod 256 ^ n"
proof (induction n arbitrary: v)
  case 0
  then show ?case by simp
next
  case (Suc n)
  have "be_nat (be_bytes (Suc n) v) = (v div 256) mod 256 ^ n * 256 + v mod 256"
    by (simp add: be_nat_snoc Suc unat_of_nat)
  also have "\<dots> = v mod 256 ^ Suc n"
    by (simp add: mod_mult2_eq)
  finally show ?case .
qed

lemma be_nat_less: "be_nat b < 256 ^ length b"
proof (induction b rule: rev_induct)
  case Nil
  then show ?case by simp
next
  case (snoc x b)
  then have "be_nat b * 256 + unat x < (256 ^ length b - 1) * 256 + 256"
    using unat_byte_less [of x] by (intro add_le_less_mono mult_le_mono1) auto
  also have "\<dots> = 256 ^ length b * 256"
    by (simp add: diff_mult_distrib)
  finally show ?case by (simp add: be_nat_snoc)
qed

lemma be_bytes_be_nat [simp, be_simps]: "length b = n \<Longrightarrow> be_bytes n (be_nat b) = b"
proof (induction b arbitrary: n rule: rev_induct)
  case Nil
  then show ?case by simp
next
  case (snoc x b)
  then obtain m where m: "n = Suc m" "length b = m"
    by simp
  have "(be_nat b * 256 + unat x) div 256 = be_nat b"
    and "(be_nat b * 256 + unat x) mod 256 = unat x"
    using unat_byte_less [of x] by simp_all
  then show ?case using m snoc.IH by (simp add: be_nat_snoc)
qed

lemma word_be_inverse [simp, be_simps]:
  "LENGTH('a) = 8 * n \<Longrightarrow> be_word (word_be n (w :: 'a::len word)) = w"
proof -
  assume len: "LENGTH('a) = 8 * n"
  have "(256 :: nat) ^ n = 2 ^ LENGTH('a)"
    by (simp add: len power_mult)
  then have "unat w < 256 ^ n"
    using unsigned_less [of w, where ?'a = nat] by simp
  then show ?thesis
    by (simp add: be_word_def word_be_def)
qed

lemma be_word_inverse [simp, be_simps]:
  "LENGTH('a) = 8 * n \<Longrightarrow> length b = n \<Longrightarrow> word_be n (be_word b :: 'a::len word) = b"
proof -
  assume len: "LENGTH('a) = 8 * n" and b: "length b = n"
  have "(256 :: nat) ^ n = 2 ^ LENGTH('a)"
    by (simp add: len power_mult)
  then have "be_nat b < 2 ^ LENGTH('a)"
    using be_nat_less [of b] b by simp
  then show ?thesis
    using b by (simp add: be_word_def word_be_def unat_of_nat)
qed

lemma word_be_inject:
  "LENGTH('a) = 8 * n \<Longrightarrow> word_be n v = word_be n w \<longleftrightarrow> v = (w :: 'a::len word)"
  by (metis word_be_inverse)


section \<open>Reading a buffer from the front\<close>

text \<open>\<open>split_at_checked\<close>.\<close>

definition split_at_checked :: "nat \<Rightarrow> 'a list \<Rightarrow> ('a list \<times> 'a list) option" where
  "split_at_checked n xs = (if n \<le> length xs then Some (take n xs, drop n xs) else None)"

lemma split_at_checked_append [simp]:
  "length xs = n \<Longrightarrow> split_at_checked n (xs @ ys) = Some (xs, ys)"
  by (simp add: split_at_checked_def)

lemma split_at_checked_eq_Some:
  "split_at_checked n xs = Some (a, b) \<longleftrightarrow> xs = a @ b \<and> length a = n"
  by (auto simp: split_at_checked_def)

text \<open>\<open>starts_with\<close> and \<open>strip_prefix\<close>.\<close>

definition starts_with :: "'a list \<Rightarrow> 'a list \<Rightarrow> bool" where
  "starts_with xs p = (take (length p) xs = p)"

definition strip_prefix :: "'a list \<Rightarrow> 'a list \<Rightarrow> 'a list option" where
  "strip_prefix p xs = (if starts_with xs p then Some (drop (length p) xs) else None)"

definition strip_suffix :: "'a list \<Rightarrow> 'a list \<Rightarrow> 'a list option" where
  "strip_suffix p xs =
     (if length p \<le> length xs \<and> drop (length xs - length p) xs = p
      then Some (take (length xs - length p) xs) else None)"

lemma starts_with_append [simp]: "starts_with (p @ xs) p"
  by (simp add: starts_with_def)

lemma starts_with_iff: "starts_with xs p \<longleftrightarrow> (\<exists>r. xs = p @ r)"
  by (auto simp: starts_with_def) (metis append_take_drop_id)

lemma strip_prefix_append [simp]: "strip_prefix p (p @ xs) = Some xs"
  by (simp add: strip_prefix_def)

lemma strip_prefix_eq_Some: "strip_prefix p xs = Some r \<longleftrightarrow> xs = p @ r"
  by (auto simp: strip_prefix_def starts_with_def) (metis append_take_drop_id)

lemma strip_suffix_append [simp]: "strip_suffix p (xs @ p) = Some xs"
  by (simp add: strip_suffix_def)

lemma append_eq_same_length:
  "length a = length c \<Longrightarrow> a @ b = c @ d \<longleftrightarrow> a = c \<and> b = d"
  by simp


section \<open>Codecs\<close>

text \<open>Encode a sequence element by element; decode a known number of elements.\<close>

fun push_all :: "('a \<Rightarrow> 'e + bytes) \<Rightarrow> 'a list \<Rightarrow> 'e + bytes" where
  "push_all push [] = Ok []"
| "push_all push (x # xs) =
     res_bind (push x) (\<lambda>b. res_bind (push_all push xs) (\<lambda>rest. Ok (b @ rest)))"

fun take_n :: "(bytes \<Rightarrow> 'e + 'a \<times> bytes) \<Rightarrow> nat \<Rightarrow> bytes \<Rightarrow> 'e + 'a list \<times> bytes" where
  "take_n tk 0 b = Ok ([], b)"
| "take_n tk (Suc n) b =
     res_bind (tk b) (\<lambda>(x, b'). res_bind (take_n tk n b') (\<lambda>(xs, b''). Ok (x # xs, b'')))"

text \<open>
  The contract of one wire field: what \<open>push\<close> appends, \<open>tk\<close> takes off again whatever follows
  it, and \<open>tk\<close> accepts nothing that \<open>push\<close> would not have written.
\<close>

locale prefix_codec =
  fixes push :: "'a \<Rightarrow> 'e + bytes"
    and tk :: "bytes \<Rightarrow> 'e + 'a \<times> bytes"
  assumes take_push: "push x = Ok b \<Longrightarrow> tk (b @ rest) = Ok (x, rest)"
    and push_take: "tk b = Ok (x, rest) \<Longrightarrow> \<exists>p. push x = Ok p \<and> b = p @ rest"
begin

lemma take_n_push_all:
  "push_all push xs = Ok b \<Longrightarrow> take_n tk (length xs) (b @ rest) = Ok (xs, rest)"
  by (induction xs arbitrary: b) (auto simp: res_simps take_push)

lemma push_all_take_n:
  "take_n tk n b = Ok (xs, rest) \<Longrightarrow>
     length xs = n \<and> (\<exists>p. push_all push xs = Ok p \<and> b = p @ rest)"
proof (induction n arbitrary: b xs)
  case 0
  then show ?case by simp
next
  case (Suc n)
  then obtain x b' xs' where x: "tk b = Ok (x, b')"
    and xs': "take_n tk n b' = Ok (xs', rest)" and xs: "xs = x # xs'"
    by (auto simp: res_simps split: prod.splits)
  from push_take [OF x] Suc.IH [OF xs'] xs show ?case
    by (auto simp: res_simps)
qed

lemma push_all_inject:
  "push_all push xs = Ok b \<Longrightarrow> push_all push ys = Ok b \<Longrightarrow> length xs = length ys \<Longrightarrow> xs = ys"
  using take_n_push_all [of xs b "[]"] take_n_push_all [of ys b "[]"] by simp

end


section \<open>Transition systems with an invariant\<close>

text \<open>States reachable from an initial state by the steps of a system.\<close>

inductive reach :: "('s \<Rightarrow> bool) \<Rightarrow> ('s \<Rightarrow> 's \<Rightarrow> bool) \<Rightarrow> 's \<Rightarrow> bool"
  for ini :: "'s \<Rightarrow> bool" and step :: "'s \<Rightarrow> 's \<Rightarrow> bool"
  where
    reach_ini: "ini s \<Longrightarrow> reach ini step s"
  | reach_step: "reach ini step s \<Longrightarrow> step s t \<Longrightarrow> reach ini step t"

locale invariant_system =
  fixes ini :: "'s \<Rightarrow> bool"
    and step :: "'s \<Rightarrow> 's \<Rightarrow> bool"
    and inv :: "'s \<Rightarrow> bool"
  assumes inv_ini: "ini s \<Longrightarrow> inv s"
    and inv_step: "inv s \<Longrightarrow> step s t \<Longrightarrow> inv t"
begin

lemma reach_inv: "reach ini step s \<Longrightarrow> inv s"
  by (induction rule: reach.induct) (auto intro: inv_ini inv_step)

end

end
