(* ===== verification/RustText.thy ===== *)
theory RustText
  imports Prelude
begin

text \<open>
  What the sources use of Rust's \<open>str\<close> and integer formatting. A \<open>String\<close> is the list of its
  UTF-8 bytes, as in Rust, so lengths and indices count bytes; \<open>chars()\<close> is \<open>utf8_decode\<close>, the
  list of Unicode scalar values. Decimal rendering and parsing follow \<open>Display\<close> and
  \<open>FromStr\<close> of the integer types.
\<close>

named_theorems ascii_simps \<open>classification of ASCII bytes\<close>

type_synonym rstr = bytes
type_synonym rchar = nat


section \<open>ASCII\<close>

definition is_ascii_digit :: "byte \<Rightarrow> bool" where
  "is_ascii_digit b = (48 \<le> unat b \<and> unat b \<le> 57)"

definition is_ascii_uppercase :: "byte \<Rightarrow> bool" where
  "is_ascii_uppercase b = (65 \<le> unat b \<and> unat b \<le> 90)"

definition is_ascii_lowercase :: "byte \<Rightarrow> bool" where
  "is_ascii_lowercase b = (97 \<le> unat b \<and> unat b \<le> 122)"

definition is_ascii_alphanumeric :: "byte \<Rightarrow> bool" where
  "is_ascii_alphanumeric b = (is_ascii_digit b \<or> is_ascii_uppercase b \<or> is_ascii_lowercase b)"

definition to_ascii_lowercase :: "byte \<Rightarrow> byte" where
  "to_ascii_lowercase b = (if is_ascii_uppercase b then b + 32 else b)"

text \<open>\<open>u8::is_ascii_whitespace\<close>: space, tab, line feed, form feed, carriage return.\<close>

definition is_ascii_whitespace :: "byte \<Rightarrow> bool" where
  "is_ascii_whitespace b = (unat b \<in> {9, 10, 12, 13, 32})"

text \<open>\<open>char::is_ascii_hexdigit\<close> and \<open>char::to_ascii_lowercase\<close>, on scalar values.\<close>

definition is_hexdigit_char :: "rchar \<Rightarrow> bool" where
  "is_hexdigit_char c = (48 \<le> c \<and> c \<le> 57 \<or> 65 \<le> c \<and> c \<le> 70 \<or> 97 \<le> c \<and> c \<le> 102)"

definition lower_char :: "rchar \<Rightarrow> rchar" where
  "lower_char c = (if 65 \<le> c \<and> c \<le> 90 then c + 32 else c)"

text \<open>\<open>char::is_whitespace\<close>: the Unicode White\_Space property.\<close>

definition is_whitespace_char :: "rchar \<Rightarrow> bool" where
  "is_whitespace_char c =
     (9 \<le> c \<and> c \<le> 13 \<or> c = 32 \<or> c = 133 \<or> c = 160 \<or> c = 5760 \<or> 8192 \<le> c \<and> c \<le> 8202
      \<or> c = 8232 \<or> c = 8233 \<or> c = 8239 \<or> c = 8287 \<or> c = 12288)"

text \<open>\<open>str::trim\<close>.\<close>

definition trim_start :: "rchar list \<Rightarrow> rchar list" where
  "trim_start cs = dropWhile is_whitespace_char cs"

definition trim_end :: "rchar list \<Rightarrow> rchar list" where
  "trim_end cs = rev (dropWhile is_whitespace_char (rev cs))"

definition trim :: "rchar list \<Rightarrow> rchar list" where
  "trim cs = trim_end (trim_start cs)"

lemma unat_add_32: "is_ascii_uppercase b \<Longrightarrow> unat (b + 32) = unat b + 32"
proof -
  assume "is_ascii_uppercase b"
  then have "unat b + unat (32 :: byte) < 2 ^ LENGTH(8)"
    by (simp add: is_ascii_uppercase_def)
  then show ?thesis
    by (simp only: unat_add_lem) simp
qed

lemma to_ascii_lowercase_not_upper [simp]: "\<not> is_ascii_uppercase (to_ascii_lowercase b)"
  by (auto simp: to_ascii_lowercase_def unat_add_32) (auto simp: is_ascii_uppercase_def unat_add_32)

lemma to_ascii_lowercase_idem [simp]:
  "to_ascii_lowercase (to_ascii_lowercase b) = to_ascii_lowercase b"
  by (subst to_ascii_lowercase_def) simp

lemma to_ascii_lowercase_id: "\<not> is_ascii_uppercase b \<Longrightarrow> to_ascii_lowercase b = b"
  by (simp add: to_ascii_lowercase_def)

lemma map_lower_id:
  "\<forall>b \<in> set s. \<not> is_ascii_uppercase b \<Longrightarrow> map to_ascii_lowercase s = s"
  by (simp add: map_idI to_ascii_lowercase_id)


section \<open>UTF-8\<close>

text \<open>\<open>from_utf8\<close>: the scalar values of a well-formed byte string, \<open>None\<close> otherwise.\<close>

definition cont :: "byte \<Rightarrow> bool" where
  "cont b = (128 \<le> unat b \<and> unat b < 192)"

definition two_ok :: "byte \<Rightarrow> byte \<Rightarrow> bool" where
  "two_ok a b = (194 \<le> unat a \<and> unat a < 224 \<and> cont b)"

definition three_ok :: "byte \<Rightarrow> byte \<Rightarrow> byte \<Rightarrow> bool" where
  "three_ok a b c =
     (224 \<le> unat a \<and> unat a < 240 \<and> cont b \<and> cont c
      \<and> (unat a = 224 \<longrightarrow> 160 \<le> unat b) \<and> (unat a = 237 \<longrightarrow> unat b < 160))"

definition four_ok :: "byte \<Rightarrow> byte \<Rightarrow> byte \<Rightarrow> byte \<Rightarrow> bool" where
  "four_ok a b c d =
     (240 \<le> unat a \<and> unat a < 245 \<and> cont b \<and> cont c \<and> cont d
      \<and> (unat a = 240 \<longrightarrow> 144 \<le> unat b) \<and> (unat a = 244 \<longrightarrow> unat b < 144))"

definition two_val :: "byte \<Rightarrow> byte \<Rightarrow> rchar" where
  "two_val a b = (unat a - 192) * 64 + (unat b - 128)"

definition three_val :: "byte \<Rightarrow> byte \<Rightarrow> byte \<Rightarrow> rchar" where
  "three_val a b c = ((unat a - 224) * 64 + (unat b - 128)) * 64 + (unat c - 128)"

definition four_val :: "byte \<Rightarrow> byte \<Rightarrow> byte \<Rightarrow> byte \<Rightarrow> rchar" where
  "four_val a b c d =
     (((unat a - 240) * 64 + (unat b - 128)) * 64 + (unat c - 128)) * 64 + (unat d - 128)"

text \<open>One character off the front.\<close>

definition next_char :: "bytes \<Rightarrow> (rchar \<times> bytes) option" where
  "next_char bytes =
     (case bytes of
        [] \<Rightarrow> None
      | a # r \<Rightarrow>
          if unat a < 128 then Some (unat a, r)
          else (case r of
              [] \<Rightarrow> None
            | b # r2 \<Rightarrow>
                if two_ok a b then Some (two_val a b, r2)
                else (case r2 of
                    [] \<Rightarrow> None
                  | c # r3 \<Rightarrow>
                      if three_ok a b c then Some (three_val a b c, r3)
                      else (case r3 of
                          [] \<Rightarrow> None
                        | d # r4 \<Rightarrow>
                            if four_ok a b c d then Some (four_val a b c d, r4) else None))))"

lemma next_char_shorter: "next_char b = Some (c, r) \<Longrightarrow> length r < length b"
  by (auto simp: next_char_def split: list.splits if_splits)

function utf8_decode :: "bytes \<Rightarrow> rchar list option" where
  "utf8_decode b =
     (if b = [] then Some []
      else case next_char b of
             None \<Rightarrow> None
           | Some (c, r) \<Rightarrow> map_option ((#) c) (utf8_decode r))"
  by pat_completeness auto
termination
  by (relation "measure length") (auto dest: next_char_shorter)

declare utf8_decode.simps [simp del]

text \<open>\<open>char::encode_utf8\<close>.\<close>

definition encode_char :: "rchar \<Rightarrow> bytes" where
  "encode_char c =
     (if c < 128 then [byte_of c]
      else if c < 2048 then [byte_of (192 + c div 64), byte_of (128 + c mod 64)]
      else if c < 65536 then
        [byte_of (224 + c div 4096), byte_of (128 + c div 64 mod 64), byte_of (128 + c mod 64)]
      else
        [byte_of (240 + c div 262144), byte_of (128 + c div 4096 mod 64),
         byte_of (128 + c div 64 mod 64), byte_of (128 + c mod 64)])"

definition utf8_encode :: "rchar list \<Rightarrow> bytes" where
  "utf8_encode cs = concat (map encode_char cs)"

text \<open>A Unicode scalar value: any code point but a surrogate.\<close>

definition scalar_value :: "rchar \<Rightarrow> bool" where
  "scalar_value c = (c < 55296 \<or> 57344 \<le> c \<and> c < 1114112)"

lemma next_char_encode_char:
  assumes "scalar_value c"
  shows "next_char (encode_char c @ r) = Some (c, r)"
proof -
  consider "c < 128" | "128 \<le> c" "c < 2048" | "2048 \<le> c" "c < 65536" | "65536 \<le> c" "c < 1114112"
    using assms unfolding scalar_value_def by linarith
  then show ?thesis
  proof cases
    case 1
    then show ?thesis by (simp add: encode_char_def next_char_def)
  next
    case 2
    then have "192 + c div 64 < 256" "128 + c mod 64 < 256" "2 \<le> c div 64" "c div 64 < 32"
      by auto
    then show ?thesis using 2
      by (simp add: encode_char_def next_char_def two_ok_def two_val_def cont_def)
  next
    case 3
    define q where "q = c div 64"
    have q: "c div 4096 = q div 64"
      using div_mult2_eq [of c 64 64] by (simp add: q_def)
    have c: "c = q * 64 + c mod 64" and qq: "q = q div 64 * 64 + q mod 64"
      by (simp_all add: q_def)
    have b: "q div 64 < 16" "q mod 64 < 64" "c mod 64 < 64"
      using 3 by (auto simp: q_def)
    have lo: "q div 64 = 0 \<longrightarrow> 32 \<le> q mod 64"
      using 3 c qq b by linarith
    have hi: "q div 64 = 13 \<longrightarrow> q mod 64 < 32"
      using 3 c qq b assms unfolding scalar_value_def by linarith
    have enc: "encode_char c = [byte_of (224 + q div 64), byte_of (128 + q mod 64), byte_of (128 + c mod 64)]"
      using 3 by (simp add: encode_char_def q q_def [symmetric])
    have u: "unat (byte_of (224 + q div 64)) = 224 + q div 64"
      "unat (byte_of (128 + q mod 64)) = 128 + q mod 64"
      "unat (byte_of (128 + c mod 64)) = 128 + c mod 64"
      using b by simp_all
    have "three_ok (byte_of (224 + q div 64)) (byte_of (128 + q mod 64)) (byte_of (128 + c mod 64))"
      unfolding three_ok_def cont_def u using b lo hi by auto
    moreover have "\<not> two_ok (byte_of (224 + q div 64)) (byte_of (128 + q mod 64))"
      unfolding two_ok_def u by simp
    moreover have
      "three_val (byte_of (224 + q div 64)) (byte_of (128 + q mod 64)) (byte_of (128 + c mod 64)) = c"
      unfolding three_val_def u using c qq by simp
    ultimately show ?thesis
      by (simp add: enc next_char_def u(1))
  next
    case 4
    define q where "q = c div 64"
    define p where "p = q div 64"
    have q: "c div 4096 = p" "c div 262144 = p div 64"
      using div_mult2_eq [of c 64 64] div_mult2_eq [of c 64 4096] div_mult2_eq [of q 64 64]
      by (simp_all add: q_def p_def)
    have c: "c = q * 64 + c mod 64" and qq: "q = p * 64 + q mod 64" and pp: "p = p div 64 * 64 + p mod 64"
      by (simp_all add: q_def p_def)
    have b: "p mod 64 < 64" "q mod 64 < 64" "c mod 64 < 64"
      by simp_all
    have top: "p div 64 < 5" and lo: "p div 64 = 0 \<longrightarrow> 16 \<le> p mod 64" and hi: "p div 64 = 4 \<longrightarrow> p mod 64 < 16"
      using 4 c qq pp b by linarith+
    have enc: "encode_char c = [byte_of (240 + p div 64), byte_of (128 + p mod 64),
        byte_of (128 + q mod 64), byte_of (128 + c mod 64)]"
      using 4 by (simp add: encode_char_def q q_def [symmetric])
    have u: "unat (byte_of (240 + p div 64)) = 240 + p div 64"
      "unat (byte_of (128 + p mod 64)) = 128 + p mod 64"
      "unat (byte_of (128 + q mod 64)) = 128 + q mod 64"
      "unat (byte_of (128 + c mod 64)) = 128 + c mod 64"
      using b top by simp_all
    have "four_ok (byte_of (240 + p div 64)) (byte_of (128 + p mod 64))
        (byte_of (128 + q mod 64)) (byte_of (128 + c mod 64))"
      unfolding four_ok_def cont_def u using b lo hi top by auto
    moreover have "\<not> two_ok (byte_of (240 + p div 64)) (byte_of (128 + p mod 64))"
      unfolding two_ok_def u by simp
    moreover have "\<not> three_ok (byte_of (240 + p div 64)) (byte_of (128 + p mod 64)) (byte_of (128 + q mod 64))"
      unfolding three_ok_def u by simp
    moreover have "four_val (byte_of (240 + p div 64)) (byte_of (128 + p mod 64))
        (byte_of (128 + q mod 64)) (byte_of (128 + c mod 64)) = c"
      unfolding four_val_def u using c qq pp by simp
    ultimately show ?thesis
      by (simp add: enc next_char_def u(1))
  qed
qed

lemma base64_digits:
  "y < 64 \<Longrightarrow> (x * 64 + y) div 64 = (x :: nat)"
  "y < 64 \<Longrightarrow> (x * 64 + y) mod 64 = (y :: nat)"
  by simp_all

lemma decode_two:
  assumes "two_ok a b"
  shows "scalar_value (two_val a b) \<and> encode_char (two_val a b) = [a, b]"
proof -
  define x y where "x = unat a - 192" and "y = unat b - 128"
  have ub: "unat a = 192 + x" "unat b = 128 + y" and bound: "2 \<le> x" "x < 32" "y < 64"
    using assms by (auto simp: two_ok_def cont_def x_def y_def)
  have v: "two_val a b = x * 64 + y"
    by (simp add: two_val_def x_def y_def)
  have d: "(x * 64 + y) div 64 = x" "(x * 64 + y) mod 64 = y"
    using bound by simp_all
  have r: "128 \<le> x * 64 + y" "x * 64 + y < 2048"
    using bound by linarith+
  have "byte_of (192 + x) = a" "byte_of (128 + y) = b"
    using ub byte_of_unat by metis+
  then show ?thesis
    using r bound by (simp add: v encode_char_def d scalar_value_def)
qed

lemma decode_three:
  assumes "three_ok a b c"
  shows "scalar_value (three_val a b c) \<and> encode_char (three_val a b c) = [a, b, c]"
proof -
  define x y z where "x = unat a - 224" and "y = unat b - 128" and "z = unat c - 128"
  have ub: "unat a = 224 + x" "unat b = 128 + y" "unat c = 128 + z"
    and bound: "x < 16" "y < 64" "z < 64" "x = 0 \<longrightarrow> 32 \<le> y" "x = 13 \<longrightarrow> y < 32"
    using assms by (auto simp: three_ok_def cont_def x_def y_def z_def)
  define v where "v = (x * 64 + y) * 64 + z"
  have v: "three_val a b c = v"
    by (simp add: three_val_def x_def y_def z_def v_def)
  have d1: "v div 64 = x * 64 + y" "v mod 64 = z"
    unfolding v_def using bound by (simp_all only: base64_digits)
  have d2: "v div 64 mod 64 = y" "v div 4096 = x"
    using bound div_mult2_eq [of v 64 64] by (simp_all only: d1(1) base64_digits) simp
  have "2048 \<le> v"
    using bound unfolding v_def by (cases "x = 0") auto
  moreover have "v < 65536"
    using bound(1-3) unfolding v_def by simp
  ultimately have r: "2048 \<le> v" "v < 65536"
    by simp_all
  have "v < 55296 \<or> 57344 \<le> v"
  proof (cases x "13 :: nat" rule: linorder_cases)
    case less
    then have "v < 55296" using bound(2,3) unfolding v_def by simp
    then show ?thesis ..
  next
    case equal
    then show ?thesis using bound unfolding v_def by auto
  next
    case greater
    then have "57344 \<le> v" unfolding v_def by simp
    then show ?thesis ..
  qed
  then have sv: "scalar_value v"
    using r by (auto simp: scalar_value_def)
  have "byte_of (224 + x) = a" "byte_of (128 + y) = b" "byte_of (128 + z) = c"
    using ub byte_of_unat by metis+
  then show ?thesis
    using r sv by (simp add: v encode_char_def d1(2) d2)
qed

lemma decode_four:
  assumes "four_ok a b c d"
  shows "scalar_value (four_val a b c d) \<and> encode_char (four_val a b c d) = [a, b, c, d]"
proof -
  define x y z w where "x = unat a - 240" and "y = unat b - 128" and "z = unat c - 128"
    and "w = unat d - 128"
  have ub: "unat a = 240 + x" "unat b = 128 + y" "unat c = 128 + z" "unat d = 128 + w"
    and bound: "x < 5" "y < 64" "z < 64" "w < 64" "x = 0 \<longrightarrow> 16 \<le> y" "x = 4 \<longrightarrow> y < 16"
    using assms by (auto simp: four_ok_def cont_def x_def y_def z_def w_def)
  define v where "v = ((x * 64 + y) * 64 + z) * 64 + w"
  have v: "four_val a b c d = v"
    by (simp add: four_val_def x_def y_def z_def w_def v_def)
  have d1: "v div 64 = (x * 64 + y) * 64 + z" "v mod 64 = w"
    unfolding v_def using bound by (simp_all only: base64_digits)
  have d2: "v div 64 mod 64 = z" "v div (64 * 64) = x * 64 + y"
    using bound div_mult2_eq [of v 64 64] by (simp_all only: d1(1) base64_digits)
  have d3: "v div 4096 mod 64 = y" "v div 262144 = x"
    using bound d2(2) div_mult2_eq [of v 4096 64] by simp_all
  have "65536 \<le> v"
    using bound unfolding v_def by (cases "x = 0") auto
  moreover have "v < 1114112"
    using bound unfolding v_def by (cases "x = 4") auto
  ultimately have r: "65536 \<le> v" "v < 1114112"
    by simp_all
  have "byte_of (240 + x) = a" "byte_of (128 + y) = b" "byte_of (128 + z) = c" "byte_of (128 + w) = d"
    using ub byte_of_unat by metis+
  then show ?thesis
    using r by (simp add: v encode_char_def d1(2) d2(1) d3 scalar_value_def)
qed

lemma next_char_sound:
  "next_char b = Some (c, r) \<Longrightarrow> scalar_value c \<and> b = encode_char c @ r"
  by (auto simp: next_char_def decode_two decode_three decode_four split: list.splits if_splits)
    (auto simp: scalar_value_def encode_char_def)

lemma encode_char_not_Nil [simp]: "encode_char c \<noteq> []"
  by (simp add: encode_char_def)

lemma utf8_encode_simps [simp]:
  "utf8_encode [] = []"
  "utf8_encode (c # cs) = encode_char c @ utf8_encode cs"
  by (simp_all add: utf8_encode_def)

lemma utf8_decode_Nil [simp]: "utf8_decode [] = Some []"
  by (simp add: utf8_decode.simps)

lemma utf8_decode_encode_char:
  "scalar_value c \<Longrightarrow> utf8_decode (encode_char c @ r) = map_option ((#) c) (utf8_decode r)"
  by (subst utf8_decode.simps) (simp add: next_char_encode_char)

lemma utf8_decode_encode: "\<forall>c \<in> set cs. scalar_value c \<Longrightarrow> utf8_decode (utf8_encode cs) = Some cs"
  by (induction cs) (simp_all add: utf8_decode_encode_char)

lemma utf8_decode_sound:
  "utf8_decode b = Some cs \<Longrightarrow> (\<forall>c \<in> set cs. scalar_value c) \<and> utf8_encode cs = b"
proof (induction b arbitrary: cs rule: utf8_decode.induct)
  case (1 b)
  show ?case
  proof (cases "b = []")
    case True
    with "1.prems" show ?thesis by simp
  next
    case False
    with "1.prems" obtain c r cs' where n: "next_char b = Some (c, r)"
      and d: "utf8_decode r = Some cs'" and cs: "cs = c # cs'"
      by (subst (asm) utf8_decode.simps) (auto split: option.splits)
    from "1.IH" [OF False n refl d] next_char_sound [OF n] cs show ?thesis
      by simp
  qed
qed

lemma utf8_decode_ascii: "\<forall>x \<in> set b. unat x < 128 \<Longrightarrow> utf8_decode b = Some (map unat b)"
proof (induction b)
  case Nil
  then show ?case by simp
next
  case (Cons x b)
  then have "next_char (x # b) = Some (unat x, b)"
    by (simp add: next_char_def)
  then show ?case
    using Cons by (subst utf8_decode.simps) simp
qed

lemma utf8_encode_ascii: "\<forall>c \<in> set cs. c < 128 \<Longrightarrow> utf8_encode cs = map byte_of cs"
  by (induction cs) (simp_all add: encode_char_def)

lemma length_utf8_encode_le: "length cs \<le> length (utf8_encode cs)"
  by (induction cs) (simp_all add: encode_char_def)


section \<open>Decimal integers\<close>

text \<open>\<open>Display\<close> of an integer.\<close>

fun dec_digits :: "nat \<Rightarrow> bytes" where
  "dec_digits n =
     (if n < 10 then [byte_of (48 + n)] else dec_digits (n div 10) @ [byte_of (48 + n mod 10)])"

declare dec_digits.simps [simp del]

definition dec_of :: "int \<Rightarrow> bytes" where
  "dec_of i = (if i < 0 then 45 # dec_digits (nat (- i)) else dec_digits (nat i))"

text \<open>\<open>FromStr\<close> of a signed integer type with the given range.\<close>

definition digits_val :: "rchar list \<Rightarrow> nat" where
  "digits_val ds = foldl (\<lambda>acc d. acc * 10 + (d - 48)) 0 ds"

definition all_digits :: "rchar list \<Rightarrow> bool" where
  "all_digits ds = (\<forall>d \<in> set ds. 48 \<le> d \<and> d \<le> 57)"

definition sign_split :: "rchar list \<Rightarrow> bool \<times> rchar list" where
  "sign_split cs =
     (case cs of
        [] \<Rightarrow> (False, [])
      | c # r \<Rightarrow> if c = 45 then (True, r) else if c = 43 then (False, r) else (False, cs))"

definition parse_int :: "int \<Rightarrow> int \<Rightarrow> rchar list \<Rightarrow> int option" where
  "parse_int lo hi cs =
     (let (neg, ds) = sign_split cs in
      if ds = [] \<or> \<not> all_digits ds then None
      else let v = int (digits_val ds); i = (if neg then - v else v) in
        if lo \<le> i \<and> i \<le> hi then Some i else None)"

lemma dec_digits_range: "\<forall>x \<in> set (dec_digits n). 48 \<le> unat x \<and> unat x \<le> 57"
proof (induction n rule: dec_digits.induct)
  case (1 n)
  then show ?case
    by (subst dec_digits.simps) (auto simp: less_le_trans)
qed

lemma dec_digits_not_Nil [simp]: "dec_digits n \<noteq> []"
  by (subst dec_digits.simps) simp

lemma digits_val_dec: "digits_val (map unat (dec_digits n)) = n"
proof (induction n rule: dec_digits.induct)
  case (1 n)
  show ?case
  proof (cases "n < 10")
    case True
    then show ?thesis by (subst dec_digits.simps) (simp add: digits_val_def)
  next
    case False
    with 1 have "digits_val (map unat (dec_digits (n div 10))) = n div 10"
      by simp
    moreover have "digits_val (ds @ [d]) = digits_val ds * 10 + (d - 48)" for ds d
      by (simp add: digits_val_def)
    moreover have "48 + n mod 10 < 256"
      using mod_less_divisor [of 10 n] by linarith
    ultimately show ?thesis
      using False by (subst dec_digits.simps) simp
  qed
qed

lemma all_digits_dec [simp]: "all_digits (map unat (dec_digits n))"
  using dec_digits_range [of n] by (auto simp: all_digits_def)

lemma dec_of_ascii: "\<forall>x \<in> set (dec_of i). unat x < 128 \<and> \<not> is_whitespace_char (unat x)"
proof -
  have "unat x < 128 \<and> \<not> is_whitespace_char (unat x)" if "x \<in> set (dec_digits n)" for x n
  proof -
    have "48 \<le> unat x" "unat x \<le> 57"
      using that dec_digits_range [of n] by auto
    then show ?thesis by (simp add: is_whitespace_char_def)
  qed
  moreover have "unat (45 :: byte) < 128 \<and> \<not> is_whitespace_char (unat (45 :: byte))"
    by (simp add: is_whitespace_char_def)
  ultimately show ?thesis
    by (simp add: dec_of_def)
qed

lemma trim_no_ws: "\<forall>c \<in> set cs. \<not> is_whitespace_char c \<Longrightarrow> trim cs = cs"
proof -
  assume "\<forall>c \<in> set cs. \<not> is_whitespace_char c"
  moreover have "dropWhile P xs = xs" if "\<forall>x \<in> set xs. \<not> P x" for P :: "rchar \<Rightarrow> bool" and xs
    using that by (cases xs) simp_all
  ultimately show ?thesis
    unfolding trim_def trim_start_def trim_end_def by (metis rev_rev_ident set_rev)
qed

lemma sign_split_dec:
  "sign_split (map unat (dec_of i)) = (i < 0, map unat (dec_digits (nat \<bar>i\<bar>)))"
proof (cases "i < 0")
  case True
  then show ?thesis by (simp add: sign_split_def dec_of_def)
next
  case False
  obtain d ds where d: "dec_digits (nat i) = d # ds"
    by (cases "dec_digits (nat i)") auto
  then have "48 \<le> unat d"
    using dec_digits_range [of "nat i"] by simp
  then show ?thesis
    using False d by (auto simp: sign_split_def dec_of_def)
qed

lemma parse_int_dec_of:
  "lo \<le> i \<Longrightarrow> i \<le> hi \<Longrightarrow> parse_int lo hi (map unat (dec_of i)) = Some i"
  by (simp add: parse_int_def sign_split_dec digits_val_dec Let_def)

lemma parse_int_range: "parse_int lo hi cs = Some i \<Longrightarrow> lo \<le> i \<and> i \<le> hi"
  by (auto simp: parse_int_def Let_def split: prod.splits if_splits)

lemma dec_of_inject: "dec_of i = dec_of j \<longleftrightarrow> i = j"
  by (metis max.cobounded1 max.cobounded2 min.cobounded1 min.cobounded2 option.inject
      parse_int_dec_of)

end
