(* ===== verification/CoreTypes.thy ===== *)
theory CoreTypes
  imports RustText
begin

text \<open>
  The error type of the library crate (\<open>crates/core/src/lib.rs\<close>) and the functions of
  third-party crates its code calls.

  Where the source builds a message text, the model carries a value with what the text
  interpolates: two messages are equal exactly when the texts would name the same reason and
  the same data.
\<close>

type_synonym key_id = bytes
type_synonym key = bytes

text \<open>Why a row key cannot be canonicalised.\<close>

datatype row_key_why =
    KeyIsNull
  | KeyNotUtf8
  | KeyNotInteger bytes
  | KeyNotUuid bytes
  | KeyWidth nat nat
  | KeyTypeOid u32
  | KeyFormatCode i16
  | KeyPosition nat nat
  | KeyTypeChanged rstr rstr u32 u32

text \<open>Why \<open>Policy::validate\<close> refuses a policy.\<close>

datatype policy_why =
    DuplicateColumn rstr
  | SearchableNotEncrypt rstr
  | DetokenizeNotFpe rstr
  | NoneWithoutMask rstr
  | IdentTooLong rstr rstr nat
  | DuplicateTable rstr
  | RowKeyNoColumns rstr rstr
  | RowKeyNoEncrypt rstr rstr
  | RowKeyTransformed rstr rstr

datatype key_source_why =
    NotHex rstr
  | WrongLength rstr nat
  | ActiveMissing rstr
  | BackendSays rstr

datatype (plugins only: code size) core_error =
    Malformed
  | Decrypt
  | RowKeyMissing
  | RowBindingDowngraded
  | RowBindingFieldTooLong rstr nat
  | Encrypt
  | RowKeyType row_key_why
  | KeyExhausted rstr
  | UnknownKey rstr
  | SecretFileMode rstr u32 rstr
  | PolicyRefused policy_why
  | UnknownColumn rstr
  | RowKeyRequired rstr
  | RowKeyNotDeclared rstr
  | NotReadable rstr
  | UnprotectedValue rstr
  | FpeDomain
  | Fpe
  | KeyFileRead rstr
  | KeyFileWrite rstr
  | KeyFileParse rstr
  | KeySourceFailed key_source_why
  | KeyBackend rstr
  | Entropy


section \<open>Third-party functions\<close>

text \<open>
  The crates \<open>aes-gcm\<close>, \<open>hmac\<close>/\<open>sha2\<close>, \<open>fpe\<close>, \<open>hex\<close> and \<open>rand\<close> are outside the repository:
  their functions are the fields of this record, an argument of every definition that calls
  them. \<open>x_nonce n\<close> is the \<open>n\<close>-th 12-byte draw from the random generator.
\<close>

record externs =
  x_gcm_encrypt :: "key \<Rightarrow> bytes \<Rightarrow> bytes \<Rightarrow> bytes \<Rightarrow> bytes option"
  x_gcm_decrypt :: "key \<Rightarrow> bytes \<Rightarrow> bytes \<Rightarrow> bytes \<Rightarrow> bytes option"
  x_hmac :: "key \<Rightarrow> bytes \<Rightarrow> bytes"
  x_ff1_encrypt :: "key \<Rightarrow> nat list \<Rightarrow> nat list option"
  x_ff1_decrypt :: "key \<Rightarrow> nat list \<Rightarrow> nat list option"
  x_hex_encode :: "bytes \<Rightarrow> bytes"
  x_hex_decode :: "bytes \<Rightarrow> bytes option"
  x_nonce :: "nat \<Rightarrow> bytes"

text \<open>
  What the code relies on. Decryption inverts encryption under the same key, nonce and
  associated data; the output carries the 16-byte tag; and (the authentication AEAD is used
  for) a ciphertext verifies under no other associated data than the one it was made with.
\<close>

definition gcm_correct :: "externs \<Rightarrow> bool" where
  "gcm_correct x \<longleftrightarrow>
     (\<forall>k n a m c. x_gcm_encrypt x k n a m = Some c \<longrightarrow> x_gcm_decrypt x k n a c = Some m)"

definition gcm_tagged :: "externs \<Rightarrow> bool" where
  "gcm_tagged x \<longleftrightarrow>
     (\<forall>k n a m c. x_gcm_encrypt x k n a m = Some c \<longrightarrow> length m + 16 \<le> length c)"

definition gcm_authentic :: "externs \<Rightarrow> bool" where
  "gcm_authentic x \<longleftrightarrow>
     (\<forall>k n a m c a'. x_gcm_encrypt x k n a m = Some c \<longrightarrow> a' \<noteq> a \<longrightarrow>
        x_gcm_decrypt x k n a' c = None)"

text \<open>AES-GCM refuses only messages past its size limit, 64 GiB less 32 bytes.\<close>

definition gcm_total :: "externs \<Rightarrow> bool" where
  "gcm_total x \<longleftrightarrow>
     (\<forall>k n a m. length m < 2 ^ 36 - 31 \<longrightarrow> x_gcm_encrypt x k n a m \<noteq> None)"

definition nonce_sized :: "externs \<Rightarrow> bool" where
  "nonce_sized x \<longleftrightarrow> (\<forall>n. length (x_nonce x n) = 12)"

definition hmac_sized :: "externs \<Rightarrow> bool" where
  "hmac_sized x \<longleftrightarrow> (\<forall>k m. length (x_hmac x k m) = 32)"

text \<open>FF1 over radix 10: a permutation of the digit strings of each length.\<close>

definition decimal :: "nat list \<Rightarrow> bool" where
  "decimal ds = (\<forall>d \<in> set ds. d < 10)"

definition ff1_correct :: "externs \<Rightarrow> bool" where
  "ff1_correct x \<longleftrightarrow>
     (\<forall>k ds es. decimal ds \<longrightarrow> x_ff1_encrypt x k ds = Some es \<longrightarrow>
        decimal es \<and> length es = length ds \<and> x_ff1_decrypt x k es = Some ds)"

lemma gcm_correctD:
  "gcm_correct x \<Longrightarrow> x_gcm_encrypt x k n a m = Some c \<Longrightarrow> x_gcm_decrypt x k n a c = Some m"
  by (simp add: gcm_correct_def)

lemma gcm_taggedD:
  "gcm_tagged x \<Longrightarrow> x_gcm_encrypt x k n a m = Some c \<Longrightarrow> length m + 16 \<le> length c"
  by (simp add: gcm_tagged_def)

lemma gcm_authenticD:
  "gcm_authentic x \<Longrightarrow> x_gcm_encrypt x k n a m = Some c \<Longrightarrow> a' \<noteq> a \<Longrightarrow>
     x_gcm_decrypt x k n a' c = None"
  by (simp add: gcm_authentic_def)

lemma nonce_sizedD [simp]: "nonce_sized x \<Longrightarrow> length (x_nonce x n) = 12"
  by (simp add: nonce_sized_def)

lemma hmac_sizedD [simp]: "hmac_sized x \<Longrightarrow> length (x_hmac x k m) = 32"
  by (simp add: hmac_sized_def)

lemma ff1_correctD:
  "ff1_correct x \<Longrightarrow> decimal ds \<Longrightarrow> x_ff1_encrypt x k ds = Some es \<Longrightarrow>
     decimal es \<and> length es = length ds \<and> x_ff1_decrypt x k es = Some ds"
  by (simp add: ff1_correct_def)

end
