(* ===== verification/Keys.thy ===== *)
theory Keys
  imports CoreTypes
begin

text \<open>
  Key material access (\<open>crates/core/src/keys.rs\<close>): the \<open>KeySource\<close> trait as a record of
  state-passing operations, its contract as the locale \<open>key_source_laws\<close>, and the keyfile
  implementation with its loader, which is the interpretation of that contract.
\<close>

section \<open>The \<open>KeySource\<close> trait\<close>

record 'k key_source =
  ks_active_key :: "('k, core_error, key_id \<times> key) comp"
  ks_key :: "key_id \<Rightarrow> ('k, core_error, key) comp"
  ks_index_key :: "rstr \<Rightarrow> ('k, core_error, key) comp"

text \<open>
  The contract the ciphers and transforms rely on, relative to the states \<open>ok\<close> a source can be
  in: an id names one data key for good (\<open>dek\<close>), a name one deterministic key (\<open>ikey\<close>), the
  active key is one of the data keys, and a key id has its fixed width. Lookups may fail.
\<close>

locale key_source_laws =
  fixes ks :: "'k key_source"
    and ok :: "'k \<Rightarrow> bool"
    and dek :: "key_id \<Rightarrow> key option"
    and ikey :: "rstr \<Rightarrow> key option"
  assumes active_dek: "ok k \<Longrightarrow> ks_active_key ks k = (Ok (i, d), k') \<Longrightarrow> dek i = Some d"
    and active_width: "ok k \<Longrightarrow> ks_active_key ks k = (Ok (i, d), k') \<Longrightarrow> length i = 16"
    and key_dek: "ok k \<Longrightarrow> ks_key ks i k = (Ok d, k') \<Longrightarrow> dek i = Some d"
    and index_ikey: "ok k \<Longrightarrow> ks_index_key ks nm k = (Ok d, k') \<Longrightarrow> ikey nm = Some d"
    and ok_active: "ok k \<Longrightarrow> ks_active_key ks k = (ra, k') \<Longrightarrow> ok k'"
    and ok_key: "ok k \<Longrightarrow> ks_key ks i k = (rk, k') \<Longrightarrow> ok k'"
    and ok_index: "ok k \<Longrightarrow> ks_index_key ks nm k = (rk, k') \<Longrightarrow> ok k'"

text \<open>A source that also never fails to serve a key it knows.\<close>

locale available_source = key_source_laws +
  assumes key_available: "ok k \<Longrightarrow> dek i = Some d \<Longrightarrow> \<exists>k'. ks_key ks i k = (Ok d, k')"
    and index_available: "ok k \<Longrightarrow> ikey nm = Some d \<Longrightarrow> \<exists>k'. ks_index_key ks nm k = (Ok d, k')"

text \<open>
  A source that rotates forward: the active keys it offers are ordered (\<open>rank\<close>), it never goes
  back to an earlier one (\<open>epoch\<close> is the rank it has reached), and different keys have
  different ranks.
\<close>

locale rotating_source = key_source_laws +
  fixes rank :: "key_id \<Rightarrow> nat"
    and epoch :: "'a \<Rightarrow> nat"
    and offered :: "key_id \<Rightarrow> bool"
  assumes active_offered: "ok k \<Longrightarrow> ks_active_key ks k = (Ok (i, d), k') \<Longrightarrow>
      offered i \<and> epoch k \<le> rank i \<and> rank i \<le> epoch k'"
    and active_epoch: "ok k \<Longrightarrow> ks_active_key ks k = (ra, k') \<Longrightarrow> epoch k \<le> epoch k'"
    and key_epoch: "ok k \<Longrightarrow> ks_key ks i k = (rk, k') \<Longrightarrow> epoch k \<le> epoch k'"
    and index_epoch: "ok k \<Longrightarrow> ks_index_key ks nm k = (rk, k') \<Longrightarrow> epoch k \<le> epoch k'"
    and rank_inject: "offered i \<Longrightarrow> offered j \<Longrightarrow> rank i = rank j \<Longrightarrow> i = j"


section \<open>Secret files\<close>

text \<open>
  \<open>check_secret_file_mode\<close> on unix: \<open>None\<close> is a file that cannot be stat'ed, which is left
  to the read that follows. 63 is \<open>0o077\<close>, 4095 is \<open>0o7777\<close>.
\<close>

definition check_secret_file_mode :: "rstr \<Rightarrow> rstr \<Rightarrow> u32 option \<Rightarrow> core_error + unit" where
  "check_secret_file_mode path holds metadata =
     (case metadata of
        None \<Rightarrow> Ok ()
      | Some mode \<Rightarrow>
          if and mode 63 \<noteq> 0 then Err (SecretFileMode path (and mode 4095) holds) else Ok ())"


section \<open>The keyfile\<close>

record file_key_source =
  active :: key_id
  fkeys :: "key_id \<rightharpoonup> key"
  index_keys :: "rstr \<rightharpoonup> key"

text \<open>The parsed TOML. The two tables are in the map's iteration order.\<close>

record key_file =
  kf_active :: rstr
  kf_keys :: "(rstr \<times> rstr) list"
  kf_index_keys :: "(rstr \<times> rstr) list"

definition decode :: "externs \<Rightarrow> nat \<Rightarrow> rstr \<Rightarrow> rstr \<Rightarrow> core_error + bytes" where
  "decode x n hex_str what =
     res_bind (ok_or (x_hex_decode x hex_str) (KeySourceFailed (NotHex what)))
       (\<lambda>raw. if length raw = n then Ok raw else Err (KeySourceFailed (WrongLength what n)))"

definition decode_key :: "externs \<Rightarrow> rstr \<Rightarrow> core_error + key" where
  "decode_key x hex_str = decode x 32 hex_str (bs ''key'')"

fun load_keys :: "externs \<Rightarrow> (rstr \<times> rstr) list \<Rightarrow> (key_id \<rightharpoonup> key) \<Rightarrow> core_error + (key_id \<rightharpoonup> key)" where
  "load_keys x [] m = Ok m"
| "load_keys x ((id_hex, key_hex) # r) m =
     res_bind (decode x 16 id_hex (bs ''key id'')) (\<lambda>i.
     res_bind (decode_key x key_hex) (\<lambda>d. load_keys x r (m(i \<mapsto> d))))"

fun load_index_keys :: "externs \<Rightarrow> (rstr \<times> rstr) list \<Rightarrow> (rstr \<rightharpoonup> key) \<Rightarrow> core_error + (rstr \<rightharpoonup> key)" where
  "load_index_keys x [] m = Ok m"
| "load_index_keys x ((name, key_hex) # r) m =
     res_bind (decode_key x key_hex) (\<lambda>d. load_index_keys x r (m(name \<mapsto> d)))"

text \<open>
  \<open>FileKeySource::load\<close>, given what reading the file returned (\<open>None\<close> for an I/O error) and
  the TOML parser.
\<close>

definition load :: "externs \<Rightarrow> (bytes \<Rightarrow> key_file option) \<Rightarrow> rstr \<Rightarrow> bytes option \<Rightarrow> core_error + file_key_source" where
  "load x toml path contents =
     res_bind (ok_or contents (KeyFileRead path)) (\<lambda>raw.
     res_bind (ok_or (toml raw) (KeyFileParse path)) (\<lambda>parsed.
     res_bind (load_keys x (kf_keys parsed) Map.empty) (\<lambda>ks.
     res_bind (load_index_keys x (kf_index_keys parsed) Map.empty) (\<lambda>iks.
     res_bind (decode x 16 (kf_active parsed) (bs ''active key id'')) (\<lambda>act.
       if ks act = None then Err (KeySourceFailed (ActiveMissing (kf_active parsed)))
       else Ok \<lparr>active = act, fkeys = ks, index_keys = iks\<rparr>)))))"

text \<open>
  The trait implementation. \<open>active_key\<close> indexes the map, which panics on a missing key; the
  loader never builds such a source (\<open>load_wf\<close>), so the \<open>None\<close> branch stands for the panic.
\<close>

definition fks_active_key :: "externs \<Rightarrow> (file_key_source, core_error, key_id \<times> key) comp" where
  "fks_active_key x s =
     (case fkeys s (active s) of
        Some d \<Rightarrow> (Ok (active s, d), s)
      | None \<Rightarrow> (Err (UnknownKey (x_hex_encode x (active s))), s))"

definition fks_key :: "externs \<Rightarrow> key_id \<Rightarrow> (file_key_source, core_error, key) comp" where
  "fks_key x i s = (ok_or (fkeys s i) (UnknownKey (x_hex_encode x i)), s)"

definition fks_index_key :: "rstr \<Rightarrow> (file_key_source, core_error, key) comp" where
  "fks_index_key name s = (ok_or (index_keys s name) (UnknownKey name), s)"

definition file_source :: "externs \<Rightarrow> file_key_source key_source" where
  "file_source x =
     \<lparr>ks_active_key = fks_active_key x, ks_key = fks_key x, ks_index_key = fks_index_key\<rparr>"

definition fks_wf :: "file_key_source \<Rightarrow> bool" where
  "fks_wf s \<longleftrightarrow>
     fkeys s (active s) \<noteq> None
     \<and> (\<forall>i d. fkeys s i = Some d \<longrightarrow> length i = 16 \<and> length d = 32)
     \<and> (\<forall>n d. index_keys s n = Some d \<longrightarrow> length d = 32)"

text \<open>\<open>push_hex\<close>: lowercase base 16.\<close>

definition hex_digit :: "nat \<Rightarrow> byte" where
  "hex_digit n = bs ''0123456789abcdef'' ! n"

definition push_hex :: "bytes \<Rightarrow> bytes" where
  "push_hex b = concat (map (\<lambda>x. [hex_digit (unat x div 16), hex_digit (unat x mod 16)]) b)"

text \<open>The text \<open>FileKeySource::generate\<close> writes for a fresh id and key.\<close>

definition keyfile_contents :: "key_id \<Rightarrow> key \<Rightarrow> bytes" where
  "keyfile_contents i d =
     bs ''active = \"'' @ push_hex i @ bs ''\"'' @ [10, 10] @ bs ''[keys]'' @ [10]
     @ push_hex i @ bs '' = \"'' @ push_hex d @ bs ''\"'' @ [10]"

text \<open>
  \<open>FileKeySource::generate\<close> on a file system (contents and mode by path). The entropy draws,
  whether \<open>open\<close> fails for a reason of its own, the process umask and how many bytes the
  write gets out are what the operating system decides; 384 is \<open>0o600\<close>. \<open>create_new\<close> refuses
  an existing path.
\<close>

type_synonym files = "rstr \<rightharpoonup> bytes \<times> u32"

definition generate :: "rstr \<Rightarrow> bytes option \<Rightarrow> bytes option \<Rightarrow> bool \<Rightarrow> u32 \<Rightarrow> nat
    \<Rightarrow> (files, core_error, unit) comp" where
  "generate path id_draw key_draw open_ok umask written fs =
     (case id_draw of None \<Rightarrow> (Err Entropy, fs) | Some i \<Rightarrow>
     (case key_draw of None \<Rightarrow> (Err Entropy, fs) | Some d \<Rightarrow>
        if fs path \<noteq> None \<or> \<not> open_ok then (Err (KeyFileWrite path), fs)
        else
          (let contents = keyfile_contents i d;
               fs' = fs(path \<mapsto> (take written contents, and 384 (not umask)))
           in (if written < length contents then Err (KeyFileWrite path) else Ok (), fs'))))"

text \<open>
  What the code relies on of the \<open>hex\<close> crate: its encoder writes lowercase base 16, as
  \<open>push_hex\<close> does, and its decoder reads that back.
\<close>

definition hex_encode_ok :: "externs \<Rightarrow> bool" where
  "hex_encode_ok x \<longleftrightarrow> (\<forall>b. x_hex_encode x b = push_hex b)"

definition hex_decode_ok :: "externs \<Rightarrow> bool" where
  "hex_decode_ok x \<longleftrightarrow> (\<forall>b. x_hex_decode x (push_hex b) = Some b)"


section \<open>Lemmas\<close>

lemma decode_Ok: "decode x n h w = Ok raw \<longleftrightarrow> x_hex_decode x h = Some raw \<and> length raw = n"
  by (auto simp: decode_def res_simps split: if_splits)

lemma decode_key_Ok: "decode_key x h = Ok d \<Longrightarrow> length d = 32"
  by (simp add: decode_key_def decode_Ok)

lemma load_keys_widths:
  assumes "load_keys x ps m = Ok ks"
    and "\<forall>i d. m i = Some d \<longrightarrow> length i = 16 \<and> length d = 32"
  shows "\<forall>i d. ks i = Some d \<longrightarrow> length i = 16 \<and> length d = 32"
  using assms
proof (induction x ps m rule: load_keys.induct)
  case (1 x m)
  then show ?case by simp
next
  case (2 x id_hex key_hex r m)
  from "2.prems"(1) obtain i d where i: "decode x 16 id_hex (bs ''key id'') = Ok i"
    and d: "decode_key x key_hex = Ok d" and r: "load_keys x r (m(i \<mapsto> d)) = Ok ks"
    by (auto simp: res_simps)
  have "\<forall>j e. (m(i \<mapsto> d)) j = Some e \<longrightarrow> length j = 16 \<and> length e = 32"
    using "2.prems"(2) i d by (auto simp: decode_Ok dest: decode_key_Ok)
  with "2.IH" [OF i d r] show ?case by blast
qed

lemma load_index_keys_widths:
  assumes "load_index_keys x ps m = Ok ks" and "\<forall>n d. m n = Some d \<longrightarrow> length d = 32"
  shows "\<forall>n d. ks n = Some d \<longrightarrow> length d = 32"
  using assms
proof (induction x ps m rule: load_index_keys.induct)
  case (1 x m)
  then show ?case by simp
next
  case (2 x name key_hex r m)
  from "2.prems"(1) obtain d where d: "decode_key x key_hex = Ok d"
    and r: "load_index_keys x r (m(name \<mapsto> d)) = Ok ks"
    by (auto simp: res_simps)
  have "\<forall>j e. (m(name \<mapsto> d)) j = Some e \<longrightarrow> length e = 32"
    using "2.prems"(2) decode_key_Ok [OF d] by simp
  with "2.IH" [OF d r] show ?case by blast
qed

lemma load_wf: "load x toml path contents = Ok s \<Longrightarrow> fks_wf s"
  unfolding load_def fks_wf_def
  by (auto simp: res_simps split: if_splits dest!: load_keys_widths load_index_keys_widths)

interpretation fks: available_source "file_source x" "\<lambda>k. k = s \<and> fks_wf s" "fkeys s" "index_keys s" for x s
  by unfold_locales
    (auto simp: file_source_def fks_active_key_def fks_key_def fks_index_key_def fks_wf_def res_simps
      split: option.splits)

text \<open>The keyfile fixes its active key when it is loaded.\<close>

interpretation fks_fixed: rotating_source "file_source x" "\<lambda>k. k = s \<and> fks_wf s" "fkeys s" "index_keys s"
    "\<lambda>_. 0" "\<lambda>_. 0" "\<lambda>i. i = active s" for x s
  by unfold_locales
    (auto simp: file_source_def fks_active_key_def fks_key_def fks_index_key_def split: option.splits)

lemma length_bs [simp]: "length (bs s) = length s"
  by (simp add: bs_def)

lemma length_push_hex [simp]: "length (push_hex b) = 2 * length b"
  by (induction b) (simp_all add: push_hex_def)

lemma push_hex_simps [simp]:
  "push_hex [] = []"
  "push_hex (a # b) = hex_digit (unat a div 16) # hex_digit (unat a mod 16) # push_hex b"
  by (simp_all add: push_hex_def)

lemma push_hex_append [simp]: "push_hex (a @ b) = push_hex a @ push_hex b"
  by (simp add: push_hex_def)


text \<open>The mode \<open>generate\<close> gives its file always passes the check the proxy makes.\<close>

lemma owner_only_mode: "and (and (384 :: u32) m) 63 = 0"
proof -
  have "and (and (384 :: u32) m) 63 = and (and (384 :: u32) 63) m"
    by (simp only: ac_simps)
  then show ?thesis by simp
qed

text \<open>
  The capacity \<open>generate\<close> reserves is the exact length of what it writes: 26 bytes of template,
  the id twice and the key, in hex.
\<close>

lemma length_keyfile_contents:
  "length i = 16 \<Longrightarrow> length d = 32 \<Longrightarrow> length (keyfile_contents i d) = 26 + 16 * 4 + 64"
  by (simp add: keyfile_contents_def)

end
