(* ===== verification/Sample.thy ===== *)
theory Sample
  imports Keys
begin

text \<open>
  A concrete instance of the third-party functions, used by the witnesses: it shows that the
  hypotheses the theorems make about those functions can hold together.
\<close>

definition sample_mark :: "bytes \<Rightarrow> bytes" where
  "sample_mark a = replicate (length a + 16) 1 @ 0 # a"

fun sample_nibble :: "byte \<Rightarrow> nat option" where
  "sample_nibble b =
     (let n = unat b in
      if 48 \<le> n \<and> n \<le> 57 then Some (n - 48)
      else if 97 \<le> n \<and> n \<le> 102 then Some (n - 87)
      else if 65 \<le> n \<and> n \<le> 70 then Some (n - 55)
      else None)"

fun sample_unhex :: "bytes \<Rightarrow> bytes option" where
  "sample_unhex [] = Some []"
| "sample_unhex [_] = None"
| "sample_unhex (a # b # r) =
     (case (sample_nibble a, sample_nibble b, sample_unhex r) of
        (Some p, Some q, Some bytes) \<Rightarrow> Some (byte_of (16 * p + q) # bytes)
      | _ \<Rightarrow> None)"

definition sample :: externs where
  "sample =
     \<lparr>x_gcm_encrypt = (\<lambda>k n a m. Some (sample_mark a @ m)),
      x_gcm_decrypt = (\<lambda>k n a c. strip_prefix (sample_mark a) c),
      x_hmac = (\<lambda>k m. take 32 (m @ replicate 32 0)),
      x_ff1_encrypt = (\<lambda>k ds. Some (rev ds)),
      x_ff1_decrypt = (\<lambda>k ds. Some (rev ds)),
      x_hex_encode = push_hex,
      x_hex_decode = sample_unhex,
      x_nonce = be_bytes 12\<rparr>"

lemma x_gcm_encrypt_sample [simp]: "x_gcm_encrypt sample k n a m = Some (sample_mark a @ m)"
  by (simp add: sample_def)

lemma sample_mark_inject:
  assumes "sample_mark a @ m = sample_mark b @ n"
  shows "a = b"
proof -
  have tw: "takeWhile (\<lambda>x. x = 1) (sample_mark a @ m) = replicate (length a + 16) 1" for a m
    unfolding sample_mark_def by (subst append_assoc, subst takeWhile_append2) auto
  have "length a = length b"
    using tw [of a m] tw [of b n] assms by simp
  then show ?thesis using assms by (simp add: sample_mark_def)
qed

lemma sample_gcm_correct: "gcm_correct sample"
  by (auto simp: gcm_correct_def sample_def)

lemma sample_gcm_tagged: "gcm_tagged sample"
  by (auto simp: gcm_tagged_def sample_def sample_mark_def)

lemma sample_gcm_authentic: "gcm_authentic sample"
proof -
  have "strip_prefix (sample_mark a') (sample_mark a @ m) = None" if "a' \<noteq> a" for a a' m
  proof (cases "strip_prefix (sample_mark a') (sample_mark a @ m)")
    case (Some r)
    then show ?thesis using that sample_mark_inject by (metis strip_prefix_eq_Some)
  qed simp
  then show ?thesis by (auto simp: gcm_authentic_def sample_def)
qed

lemma sample_gcm_total: "gcm_total sample"
  by (simp add: gcm_total_def sample_def)

lemma sample_nonce_sized: "nonce_sized sample"
  by (simp add: nonce_sized_def sample_def)

lemma sample_hmac_sized: "hmac_sized sample"
  by (auto simp: hmac_sized_def sample_def min_def)

lemma sample_ff1_correct: "ff1_correct sample"
  by (auto simp: ff1_correct_def sample_def decimal_def)

lemma sample_hex_encode_ok: "hex_encode_ok sample"
  by (simp add: hex_encode_ok_def sample_def)

lemma sample_nibble_hex_digit: "n < 16 \<Longrightarrow> sample_nibble (hex_digit n) = Some n"
proof -
  have "\<forall>n \<in> set [0..<16]. sample_nibble (hex_digit n) = Some n"
    by code_simp
  then show "n < 16 \<Longrightarrow> sample_nibble (hex_digit n) = Some n" by simp
qed

lemma sample_unhex_push_hex: "sample_unhex (push_hex b) = Some b"
proof (induction b)
  case Nil
  then show ?case by simp
next
  case (Cons a b)
  have "unat a div 16 < 16" using unat_byte_less [of a] by (simp add: less_mult_imp_div_less)
  then show ?case using Cons by (simp add: sample_nibble_hex_digit del: sample_nibble.simps)
qed

lemma sample_hex_decode_ok: "hex_decode_ok sample"
  by (simp add: hex_decode_ok_def sample_def sample_unhex_push_hex)

lemmas sample_laws =
  sample_gcm_correct sample_gcm_tagged sample_gcm_authentic sample_gcm_total sample_nonce_sized
  sample_hmac_sized sample_ff1_correct sample_hex_encode_ok sample_hex_decode_ok


text \<open>A column, a key id, a key and a nonce.\<close>

definition sample_column :: rstr where
  "sample_column = bs ''public.users.ssn''"

definition sample_id :: key_id where
  "sample_id = replicate 16 7"

definition sample_key :: key where
  "sample_key = replicate 32 1"

definition sample_nonce :: bytes where
  "sample_nonce = replicate 12 0"

lemma sample_lengths [simp]:
  "length sample_column = 16" "length sample_id = 16" "length sample_key = 32" "length sample_nonce = 12"
  by (simp_all add: sample_column_def sample_id_def sample_key_def sample_nonce_def)

end
