(* ===== verification/Envelope.thy ===== *)
theory Envelope
  imports Sample
begin

text \<open>
  The ciphertext envelope (\<open>crates/core/src/envelope.rs\<close>): its byte layout, the associated
  data each of its three versions authenticates, and \<open>Cipher\<close>, AES-256-GCM under one data key
  with its random-nonce invocation budget.
\<close>

section \<open>Layout\<close>

definition MAGIC :: bytes where
  "MAGIC = bs ''DBS2''"

definition MAGIC_V1 :: bytes where
  "MAGIC_V1 = bs ''DBS1''"

definition MAGIC_V3 :: bytes where
  "MAGIC_V3 = bs ''DBS3''"

definition KEY_ID_LEN :: nat where
  "KEY_ID_LEN = 16"

definition NONCE_LEN :: nat where
  "NONCE_LEN = 12"

definition HEADER_LEN :: nat where
  "HEADER_LEN = length MAGIC + KEY_ID_LEN + NONCE_LEN"

definition MAX_ENCRYPTIONS_PER_KEY :: u64 where
  "MAX_ENCRYPTIONS_PER_KEY = 4294967296"

definition is_enveloped :: "bytes \<Rightarrow> bool" where
  "is_enveloped data \<longleftrightarrow>
     HEADER_LEN < length data
     \<and> (starts_with data MAGIC \<or> starts_with data MAGIC_V1 \<or> starts_with data MAGIC_V3)"

definition header_key_id :: "bytes \<Rightarrow> bytes" where
  "header_key_id data = take KEY_ID_LEN (drop (length MAGIC) data)"

definition header_nonce :: "bytes \<Rightarrow> bytes" where
  "header_nonce data = take NONCE_LEN (drop (length MAGIC + KEY_ID_LEN) data)"

text \<open>The free function \<open>key_id\<close>.\<close>

definition key_id_of :: "bytes \<Rightarrow> core_error + key_id" where
  "key_id_of data = (if \<not> is_enveloped data then Err Malformed else Ok (header_key_id data))"


section \<open>Associated data\<close>

type_synonym cell_context = rstr
type_synonym row_key = bytes

definition aad :: "cell_context \<Rightarrow> bytes \<Rightarrow> bytes" where
  "aad ctx key_id = key_id @ ctx"

definition aad_prefix :: "rstr \<Rightarrow> bytes \<Rightarrow> core_error + bytes" where
  "aad_prefix field b =
     (if length b < 2 ^ 32 then Ok (word_be 4 (of_nat (length b) :: u32))
      else Err (RowBindingFieldTooLong field (length b)))"

definition aad_with_row :: "cell_context \<Rightarrow> bytes \<Rightarrow> row_key \<Rightarrow> core_error + bytes" where
  "aad_with_row ctx key_id row =
     res_bind (aad_prefix (bs ''column context'') ctx) (\<lambda>p.
     res_bind (aad_prefix (bs ''row key'') row) (\<lambda>q.
       Ok (key_id @ p @ ctx @ q @ row)))"

record binding =
  bcontext :: cell_context
  row :: "row_key option"
  strict :: bool

definition binding_cell :: "cell_context \<Rightarrow> binding" where
  "binding_cell ctx = \<lparr>bcontext = ctx, row = None, strict = False\<rparr>"

definition binding_row :: "cell_context \<Rightarrow> row_key \<Rightarrow> binding" where
  "binding_row ctx r = \<lparr>bcontext = ctx, row = Some r, strict = False\<rparr>"

definition binding_row_strict :: "cell_context \<Rightarrow> row_key \<Rightarrow> binding" where
  "binding_row_strict ctx r = \<lparr>bcontext = ctx, row = Some r, strict = True\<rparr>"


section \<open>\<open>Cipher\<close>\<close>

record cipher =
  gcm :: key
  used :: u64
  budget :: u64

definition cipher_with_budget :: "key \<Rightarrow> u64 \<Rightarrow> cipher" where
  "cipher_with_budget k b = \<lparr>gcm = k, used = 0, budget = b\<rparr>"

definition cipher_new :: "key \<Rightarrow> cipher" where
  "cipher_new k = cipher_with_budget k MAX_ENCRYPTIONS_PER_KEY"

text \<open>\<open>remaining\<close>, with its saturating subtraction.\<close>

definition remaining :: "cipher \<Rightarrow> u64" where
  "remaining c = (if used c \<le> budget c then budget c - used c else 0)"

text \<open>The part of \<open>Cipher::encrypt\<close> after the charge and the nonce draw.\<close>

definition seal_with :: "externs \<Rightarrow> key \<Rightarrow> bytes \<Rightarrow> key_id \<Rightarrow> binding \<Rightarrow> bytes \<Rightarrow> core_error + bytes" where
  "seal_with x k nonce key_id bnd plaintext =
     res_bind
       (case row bnd of
          Some r \<Rightarrow> map_ok (\<lambda>a. (MAGIC_V3, a)) (aad_with_row (bcontext bnd) key_id r)
        | None \<Rightarrow> Ok (MAGIC, aad (bcontext bnd) key_id))
       (\<lambda>(magic, a).
     res_bind (ok_or (x_gcm_encrypt x k nonce a plaintext) Encrypt) (\<lambda>ciphertext.
       Ok (magic @ key_id @ nonce @ ciphertext)))"

text \<open>
  \<open>Cipher::encrypt\<close> over the cipher and the number of nonces drawn so far. \<open>fetch_add\<close> charges
  the budget before the comparison, wraps, and is not undone by a failure.
\<close>

definition cipher_encrypt :: "externs \<Rightarrow> key_id \<Rightarrow> binding \<Rightarrow> bytes \<Rightarrow> (cipher \<times> nat, core_error, bytes) comp" where
  "cipher_encrypt x key_id bnd plaintext s =
     (let (c, n) = s; c' = c\<lparr>used := used c + 1\<rparr> in
      if budget c \<le> used c then (Err (KeyExhausted (x_hex_encode x key_id)), (c', n))
      else (seal_with x (gcm c) (x_nonce x n) key_id bnd plaintext, (c', Suc n)))"

text \<open>The associated data \<open>Cipher::decrypt\<close> verifies a stored value against.\<close>

definition open_aad :: "binding \<Rightarrow> bytes \<Rightarrow> core_error + bytes" where
  "open_aad bnd data =
     (let id = header_key_id data; downgraded = (row bnd \<noteq> None \<and> strict bnd) in
      if starts_with data MAGIC_V1 then
        if downgraded then Err RowBindingDowngraded else Ok id
      else if starts_with data MAGIC_V3 then
        res_bind (ok_or (row bnd) RowKeyMissing) (\<lambda>r. aad_with_row (bcontext bnd) id r)
      else if downgraded then Err RowBindingDowngraded
      else Ok (aad (bcontext bnd) id))"

definition decrypt_with :: "externs \<Rightarrow> key \<Rightarrow> binding \<Rightarrow> bytes \<Rightarrow> core_error + bytes" where
  "decrypt_with x k bnd data =
     (if \<not> is_enveloped data then Err Malformed
      else res_bind (open_aad bnd data) (\<lambda>a.
        ok_or (x_gcm_decrypt x k (header_nonce data) a (drop HEADER_LEN data)) Decrypt))"

definition cipher_decrypt :: "externs \<Rightarrow> cipher \<Rightarrow> binding \<Rightarrow> bytes \<Rightarrow> core_error + bytes" where
  "cipher_decrypt x c bnd data = decrypt_with x (gcm c) bnd data"

text \<open>The free functions \<open>encrypt\<close> and \<open>decrypt\<close>: a fresh cipher for one call.\<close>

definition encrypt :: "externs \<Rightarrow> key \<Rightarrow> key_id \<Rightarrow> binding \<Rightarrow> bytes \<Rightarrow> (nat, core_error, bytes) comp" where
  "encrypt x k key_id bnd plaintext n =
     (case cipher_encrypt x key_id bnd plaintext (cipher_new k, n) of (r, (_, n')) \<Rightarrow> (r, n'))"

definition decrypt :: "externs \<Rightarrow> key \<Rightarrow> binding \<Rightarrow> bytes \<Rightarrow> core_error + bytes" where
  "decrypt x k bnd data = cipher_decrypt x (cipher_new k) bnd data"



section \<open>Reading a header back\<close>

lemmas magic_defs = MAGIC_def MAGIC_V1_def MAGIC_V3_def

lemma magic_lengths [simp]: "length MAGIC = 4" "length MAGIC_V1 = 4" "length MAGIC_V3 = 4"
  by (simp_all add: magic_defs)

lemma magic_distinct [simp]:
  "MAGIC \<noteq> MAGIC_V1" "MAGIC \<noteq> MAGIC_V3" "MAGIC_V1 \<noteq> MAGIC_V3"
  "MAGIC_V1 \<noteq> MAGIC" "MAGIC_V3 \<noteq> MAGIC" "MAGIC_V3 \<noteq> MAGIC_V1"
  by (simp_all add: magic_defs bs_def)

lemma header_len [simp]: "HEADER_LEN = 32"
  by (simp add: HEADER_LEN_def KEY_ID_LEN_def NONCE_LEN_def)

lemma starts_with_magic [simp]:
  "length m = 4 \<Longrightarrow> starts_with (m @ r) MAGIC \<longleftrightarrow> m = MAGIC"
  "length m = 4 \<Longrightarrow> starts_with (m @ r) MAGIC_V1 \<longleftrightarrow> m = MAGIC_V1"
  "length m = 4 \<Longrightarrow> starts_with (m @ r) MAGIC_V3 \<longleftrightarrow> m = MAGIC_V3"
  by (simp_all add: starts_with_def)

definition magics :: "bytes list" where
  "magics = [MAGIC, MAGIC_V1, MAGIC_V3]"

lemma magics_length: "m \<in> set magics \<Longrightarrow> length m = 4"
  by (auto simp: magics_def)

lemma header_fields:
  assumes "m \<in> set magics" and "length i = 16" and "length n = 12"
  shows "header_key_id (m @ i @ n @ c) = i" and "header_nonce (m @ i @ n @ c) = n"
    and "drop HEADER_LEN (m @ i @ n @ c) = c"
    and "is_enveloped (m @ i @ n @ c) \<longleftrightarrow> c \<noteq> []"
  using assms magics_length [OF assms(1)]
  by (auto simp: header_key_id_def header_nonce_def KEY_ID_LEN_def NONCE_LEN_def is_enveloped_def
      magics_def)

lemma take_drop_split: "take m (drop n xs) @ drop (n + m) xs = drop n xs"
  by (metis add.commute append_take_drop_id drop_drop)

lemma is_enveloped_split:
  assumes "is_enveloped data"
  obtains m c where "m \<in> set magics" "c \<noteq> []" "length (header_key_id data) = 16"
    "length (header_nonce data) = 12" "data = m @ header_key_id data @ header_nonce data @ c"
proof -
  have len: "32 < length data"
    and "take 4 data \<in> set magics"
    using assms by (auto simp: is_enveloped_def starts_with_def magics_def)
  moreover have "data = take 4 data @ header_key_id data @ header_nonce data @ drop 32 data"
  proof -
    have "take 16 (drop 4 data) @ drop 20 data = drop 4 data"
      and "take 12 (drop 20 data) @ drop 32 data = drop 20 data"
      using take_drop_split [of 16 4 data] take_drop_split [of 12 20 data] by simp_all
    then show ?thesis
      by (simp add: header_key_id_def header_nonce_def KEY_ID_LEN_def NONCE_LEN_def)
  qed
  ultimately show thesis
    using that [of "take 4 data" "drop 32 data"]
    by (simp add: header_key_id_def header_nonce_def KEY_ID_LEN_def NONCE_LEN_def)
qed


section \<open>Associated data is injective\<close>

lemma aad_prefix_Ok:
  "aad_prefix f b = Ok p \<longleftrightarrow> length b < 2 ^ 32 \<and> p = word_be 4 (of_nat (length b) :: u32)"
  by (auto simp: aad_prefix_def)

lemma aad_with_row_Ok:
  "aad_with_row ctx i r = Ok a \<longleftrightarrow> length ctx < 2 ^ 32 \<and> length r < 2 ^ 32
     \<and> a = i @ word_be 4 (of_nat (length ctx) :: u32) @ ctx @ word_be 4 (of_nat (length r) :: u32) @ r"
  by (auto simp: aad_with_row_def res_simps aad_prefix_Ok)

lemma length_prefix_inject:
  assumes "length b < 2 ^ 32" and "length c < 2 ^ 32"
    and "word_be 4 (of_nat (length b) :: u32) @ b @ r = word_be 4 (of_nat (length c) :: u32) @ c @ s"
  shows "b = c \<and> r = s"
proof -
  have "word_be 4 (of_nat (length b) :: u32) = word_be 4 (of_nat (length c) :: u32)"
    and rest: "b @ r = c @ s"
    using assms(3) by (simp_all add: append_eq_same_length)
  then have "(of_nat (length b) :: u32) = of_nat (length c)"
    using word_be_inject [where ?'a = 32 and n = 4] by simp
  then have "unat (of_nat (length b) :: u32) = unat (of_nat (length c) :: u32)"
    by simp
  then have "length b = length c"
    using assms(1,2) by (simp add: unat_of_nat)
  then show ?thesis using rest by simp
qed

lemma aad_with_row_inject:
  assumes "aad_with_row ctx i r = Ok a" and "aad_with_row ctx' i' r' = Ok a" and "length i = length i'"
  shows "i = i' \<and> ctx = ctx' \<and> r = r'"
proof -
  let ?p = "\<lambda>b :: bytes. word_be 4 (of_nat (length b) :: u32)"
  have i: "i = i'" and eq: "?p ctx @ ctx @ ?p r @ r = ?p ctx' @ ctx' @ ?p r' @ r'"
    using assms by (auto simp: aad_with_row_Ok append_eq_same_length)
  have ctx: "ctx = ctx'" and "?p r @ r = ?p r' @ r'"
    using length_prefix_inject [OF _ _ eq] assms(1,2) by (auto simp: aad_with_row_Ok)
  moreover have "r = r'"
    using length_prefix_inject [of r r' "[]" "[]"] calculation(2) assms(1,2)
    by (simp add: aad_with_row_Ok)
  ultimately show ?thesis using i by simp
qed

lemma aad_inject:
  "length i = length i' \<Longrightarrow> aad ctx i = aad ctx' i' \<longleftrightarrow> i = i' \<and> ctx = ctx'"
  by (simp add: aad_def append_eq_same_length)



text \<open>
  The contexts \<open>Policy::build\<close> makes are column names: not empty, without a leading zero byte,
  and far below 16 MiB. For those the versions cannot be confused either.
\<close>

definition plain_context :: "cell_context \<Rightarrow> bool" where
  "plain_context ctx \<longleftrightarrow> ctx \<noteq> [] \<and> hd ctx \<noteq> 0 \<and> length ctx < 2 ^ 24"

lemma be_bytes_4:
  "be_bytes 4 v = [of_nat (v div 256 div 256 div 256 mod 256), of_nat (v div 256 div 256 mod 256),
     of_nat (v div 256 mod 256), of_nat (v mod 256)]"
proof -
  have "(4 :: nat) = Suc (Suc (Suc (Suc 0)))" by simp
  then show ?thesis by (simp only: be_bytes.simps append.simps)
qed

lemma hd_short_prefix:
  assumes "n < 2 ^ 24"
  shows "hd (word_be 4 (of_nat n :: u32)) = 0"
proof -
  have "n div 256 div 256 div 256 = 0"
    using assms by (simp add: div_mult2_eq [symmetric])
  moreover have "unat (of_nat n :: u32) = n"
    using assms by (simp add: unat_of_nat)
  ultimately show ?thesis
    by (simp add: word_be_def be_bytes_4)
qed

text \<open>The bytes each version appends to the key id, and what they say about it.\<close>

lemma open_aad_layout:
  assumes "m \<in> set magics" and "length i = 16" and "length n = 12"
    and "open_aad b (m @ i @ n @ c) = Ok a"
  obtains (v1) "m = MAGIC_V1" "a = i"
    | (v2) "m = MAGIC" "a = aad (bcontext b) i"
    | (v3) r where "m = MAGIC_V3" "row b = Some r" "aad_with_row (bcontext b) i r = Ok a"
  using assms(4) magics_length [OF assms(1)] assms(1) header_fields(1) [OF assms(1-3), of c]
  by (auto simp: open_aad_def Let_def magics_def res_simps split: if_splits)

lemma open_aad_tail:
  assumes "m \<in> set magics" and "length i = 16" and "length n = 12" and "plain_context (bcontext b)"
    and "open_aad b (m @ i @ n @ c) = Ok a"
  shows "\<exists>t. a = i @ t \<and> (m = MAGIC_V1 \<longleftrightarrow> t = []) \<and> (m = MAGIC \<longleftrightarrow> t \<noteq> [] \<and> hd t \<noteq> 0)"
  using assms(1-3,5)
proof (cases rule: open_aad_layout)
  case v1
  then show ?thesis by auto
next
  case v2
  then show ?thesis using assms(4) by (auto simp: aad_def plain_context_def)
next
  case (v3 r)
  let ?t = "word_be 4 (of_nat (length (bcontext b)) :: u32) @ bcontext b
              @ word_be 4 (of_nat (length r) :: u32) @ r"
  have "a = i @ ?t" using v3 by (simp add: aad_with_row_Ok)
  moreover have "hd ?t = 0" "?t \<noteq> []"
    using hd_short_prefix [of "length (bcontext b)"] assms(4)
    by (auto simp: plain_context_def hd_append simp flip: length_greater_0_conv)
  ultimately show ?thesis using v3(1) by (metis magic_distinct(5,6))
qed

lemma open_aad_inject:
  assumes "m \<in> set magics" and "length i = 16" and "length n = 12"
    and "m' \<in> set magics" and "length i' = 16" and "length n' = 12"
    and "plain_context (bcontext b)" and "plain_context (bcontext b')"
    and "open_aad b (m @ i @ n @ c) = Ok a" and "open_aad b' (m' @ i' @ n' @ c') = Ok a"
  shows "m' = m \<and> i' = i \<and> (m \<noteq> MAGIC_V1 \<longrightarrow> bcontext b' = bcontext b)
    \<and> (m = MAGIC_V3 \<longrightarrow> row b' = row b)"
proof -
  note len = assms(2,3,5,6)
  obtain t t' where t: "a = i @ t" "m = MAGIC_V1 \<longleftrightarrow> t = []" "m = MAGIC \<longleftrightarrow> t \<noteq> [] \<and> hd t \<noteq> 0"
    and t': "a = i' @ t'" "m' = MAGIC_V1 \<longleftrightarrow> t' = []" "m' = MAGIC \<longleftrightarrow> t' \<noteq> [] \<and> hd t' \<noteq> 0"
    using open_aad_tail [OF assms(1) len(1,2) assms(7,9)]
      open_aad_tail [OF assms(4) len(3,4) assms(8,10)] by blast
  have i: "i' = i" "t' = t" using t(1) t'(1) len by (simp_all add: append_eq_same_length)
  then have m: "m' = m" using t t' assms(1,4) by (auto simp: magics_def)
  show ?thesis
    using assms(1) len(1,2) assms(9)
  proof (cases rule: open_aad_layout)
    case v1
    then show ?thesis using i m by simp
  next
    case v2
    from assms(4) len(3,4) assms(10) have "a = aad (bcontext b') i'"
      by (cases rule: open_aad_layout) (use m v2 in simp_all)
    then show ?thesis using v2 i m by (simp add: aad_def)
  next
    case (v3 r)
    from assms(4) len(3,4) assms(10)
    obtain r' where "row b' = Some r'" "aad_with_row (bcontext b') i' r' = Ok a"
      by (cases rule: open_aad_layout) (use m v3 in simp_all)
    then show ?thesis using v3 i m aad_with_row_inject by fastforce
  qed
qed

text \<open>
  C6. The associated data determines everything it is made of. Two stored headers, read under
  two bindings, verify against the same bytes only if they have the same version and key id,
  the same column unless both predate column binding, and, when row-bound, the same row.
\<close>

theorem open_aad_injective:
  assumes "m \<in> set magics" and "length i = KEY_ID_LEN" and "length n = NONCE_LEN"
    and "m' \<in> set magics" and "length i' = KEY_ID_LEN" and "length n' = NONCE_LEN"
    and "plain_context (bcontext b)" and "plain_context (bcontext b')"
    and "open_aad b (m @ i @ n @ c) = Ok a" and "open_aad b' (m' @ i' @ n' @ c') = Ok a"
  shows "m' = m \<and> i' = i \<and> (m \<noteq> MAGIC_V1 \<longrightarrow> bcontext b' = bcontext b)
    \<and> (m = MAGIC_V3 \<longrightarrow> row b' = row b)"
  using open_aad_inject [OF assms(1) _ _ assms(4) _ _ assms(7-10)] assms(2,3,5,6)
  by (simp add: KEY_ID_LEN_def NONCE_LEN_def)

lemma sample_plain: "plain_context sample_column"
  unfolding plain_context_def sample_column_def by (simp add: bs_def)

theorem open_aad_injective_witness:
  "open_aad (binding_cell sample_column) (MAGIC @ sample_id @ sample_nonce @ [1])
     \<noteq> open_aad (binding_row sample_column [52, 50]) (MAGIC_V3 @ sample_id @ sample_nonce @ [1])"
proof
  let ?b = "binding_cell sample_column" and ?b' = "binding_row sample_column [52, 50]"
  assume eq: "open_aad ?b (MAGIC @ sample_id @ sample_nonce @ [1])
    = open_aad ?b' (MAGIC_V3 @ sample_id @ sample_nonce @ [1])"
  have plain: "plain_context (bcontext ?b)" "plain_context (bcontext ?b')"
    by (simp_all add: sample_plain binding_cell_def binding_row_def)
  have m: "MAGIC \<in> set magics" "MAGIC_V3 \<in> set magics" by (simp_all add: magics_def)
  have len: "length sample_id = KEY_ID_LEN" "length sample_nonce = NONCE_LEN"
    by (simp_all add: KEY_ID_LEN_def NONCE_LEN_def)
  have a: "open_aad ?b (MAGIC @ sample_id @ sample_nonce @ [1])
      = Ok (aad sample_column (header_key_id (MAGIC @ sample_id @ sample_nonce @ [1])))"
    by (simp add: open_aad_def binding_cell_def)
  from open_aad_injective [OF m(1) len m(2) len plain a a [unfolded eq]] show False by simp
qed


section \<open>What a sealed value opens to\<close>

lemma seal_with_Ok:
  "seal_with x k n i b pt = Ok e \<longleftrightarrow>
     (\<exists>a c. (case row b of None \<Rightarrow> a = aad (bcontext b) i
             | Some r \<Rightarrow> aad_with_row (bcontext b) i r = Ok a)
        \<and> x_gcm_encrypt x k n a pt = Some c
        \<and> e = (case row b of None \<Rightarrow> MAGIC | Some _ \<Rightarrow> MAGIC_V3) @ i @ n @ c)"
  by (auto simp: seal_with_def res_simps split: option.splits)

lemma seal_with_is_enveloped:
  assumes "gcm_tagged x" and "length i = 16" and "length n = 12" and "seal_with x k n i b pt = Ok e"
  shows "is_enveloped e" and "header_key_id e = i" and "header_nonce e = n"
proof -
  obtain a c where c: "x_gcm_encrypt x k n a pt = Some c"
    and e: "e = (case row b of None \<Rightarrow> MAGIC | Some _ \<Rightarrow> MAGIC_V3) @ i @ n @ c"
    using assms(4) by (auto simp: seal_with_Ok)
  have "c \<noteq> []" using gcm_taggedD [OF assms(1) c] by auto
  moreover have "(case row b of None \<Rightarrow> MAGIC | Some _ \<Rightarrow> MAGIC_V3) \<in> set magics"
    by (simp add: magics_def split: option.split)
  ultimately show "is_enveloped e" and "header_key_id e = i" and "header_nonce e = n"
    unfolding e using header_fields assms(2,3) by metis+
qed

text \<open>How many bytes sealing adds: the header and (at least) the tag.\<close>

lemma seal_with_longer:
  assumes "gcm_tagged x" and "length i = 16" and "length n = 12" and "seal_with x k n i b pt = Ok e"
  shows "length pt + 48 \<le> length e"
  using assms gcm_taggedD [OF assms(1)]
  by (fastforce simp: seal_with_Ok split: option.splits)

lemma ok_or_gcm_decrypt:
  assumes "gcm_correct x" and "gcm_authentic x" and "x_gcm_encrypt x k n a pt = Some c"
  shows "ok_or (x_gcm_decrypt x k n a' c) Decrypt = (if a' = a then Ok pt else Err Decrypt)"
  using gcm_correctD [OF assms(1,3)] gcm_authenticD [OF assms(2,3)] by auto

text \<open>What a stored value opens to, in every case.\<close>

lemma decrypt_sealed:
  assumes "gcm_correct x" and "gcm_authentic x" and "gcm_tagged x"
    and "length i = 16" and "length n = 12" and "seal_with x k n i b pt = Ok e"
  shows "decrypt x k b' e =
    (case row b of
       None \<Rightarrow>
         if row b' \<noteq> None \<and> strict b' then Err RowBindingDowngraded
         else if bcontext b' = bcontext b then Ok pt else Err Decrypt
     | Some r \<Rightarrow>
         (case row b' of
            None \<Rightarrow> Err RowKeyMissing
          | Some r' \<Rightarrow>
              res_bind (aad_with_row (bcontext b') i r') (\<lambda>_.
                if bcontext b' = bcontext b \<and> r' = r then Ok pt else Err Decrypt)))"
proof -
  note len = assms(4,5)
  obtain a c where a: "case row b of None \<Rightarrow> a = aad (bcontext b) i
             | Some r \<Rightarrow> aad_with_row (bcontext b) i r = Ok a"
    and c: "x_gcm_encrypt x k n a pt = Some c"
    and e: "e = (case row b of None \<Rightarrow> MAGIC | Some _ \<Rightarrow> MAGIC_V3) @ i @ n @ c"
    using assms(6) by (auto simp: seal_with_Ok)
  have cN: "c \<noteq> []" using gcm_taggedD [OF assms(3) c] by auto
  note dec = ok_or_gcm_decrypt [OF assms(1,2) c]
  show ?thesis
  proof (cases "row b")
    case None
    then have m: "MAGIC \<in> set magics" and e': "e = MAGIC @ i @ n @ c"
      using e by (simp_all add: magics_def)
    show ?thesis
      using None a len cN header_fields [OF m len, of c]
      by (simp add: decrypt_def cipher_decrypt_def decrypt_with_def cipher_new_def cipher_with_budget_def
          open_aad_def e' dec aad_inject)
  next
    case (Some r)
    then have m: "MAGIC_V3 \<in> set magics" and e': "e = MAGIC_V3 @ i @ n @ c"
      using e by (simp_all add: magics_def)
    have inj: "a' = a \<longleftrightarrow> bcontext b' = bcontext b \<and> r' = r"
      if "aad_with_row (bcontext b') i r' = Ok a'" for r' a'
      using aad_with_row_inject that a Some by auto
    show ?thesis
      using Some len cN header_fields [OF m len, of c] inj
      by (auto simp: decrypt_def cipher_decrypt_def decrypt_with_def cipher_new_def cipher_with_budget_def
          open_aad_def e' dec res_bind_def split: option.split sum.split)
  qed
qed


lemma seal_with_own_aad:
  assumes "length i = 16" and "length n = 12" and "seal_with x k n i b pt = Ok e"
  obtains a c m where "m \<in> set magics" "m \<noteq> MAGIC_V1" "m = MAGIC_V3 \<longleftrightarrow> row b \<noteq> None"
    "e = m @ i @ n @ c" "open_aad b e = Ok a" "x_gcm_encrypt x k n a pt = Some c"
proof -
  obtain a c where a: "case row b of None \<Rightarrow> a = aad (bcontext b) i
             | Some r \<Rightarrow> aad_with_row (bcontext b) i r = Ok a"
    and c: "x_gcm_encrypt x k n a pt = Some c"
    and e: "e = (case row b of None \<Rightarrow> MAGIC | Some _ \<Rightarrow> MAGIC_V3) @ i @ n @ c"
    using assms(3) by (auto simp: seal_with_Ok)
  let ?m = "case row b of None \<Rightarrow> MAGIC | Some _ \<Rightarrow> MAGIC_V3"
  have m: "?m \<in> set magics" by (simp add: magics_def split: option.split)
  have "open_aad b e = Ok a"
    using a header_fields(1) [OF m assms(1,2), of c] by (auto simp: open_aad_def e split: option.splits)
  moreover have "?m \<noteq> MAGIC_V1" "?m = MAGIC_V3 \<longleftrightarrow> row b \<noteq> None"
    by (simp_all split: option.split)
  ultimately show thesis using that [of ?m c a] m c e by blast
qed

text \<open>
  C5. The whole header is authenticated. Whatever version or key id the header of a stored value
  is rewritten to, and under whatever binding it is then read, it opens only if it is the
  header the value was sealed with and the binding names its column (and its row, if it has
  one); in particular relabelling a value to an older version gains nothing.
\<close>

theorem header_authenticated:
  assumes "gcm_correct x" and "gcm_authentic x"
    and "length i = KEY_ID_LEN" and "length i' = KEY_ID_LEN" and "length n = NONCE_LEN"
    and "plain_context (bcontext b)" and "plain_context (bcontext b')"
    and "seal_with x k n i b pt = Ok (m @ i @ n @ c)" and "length m = 4" and "m' \<in> set magics"
    and "decrypt x k b' (m' @ i' @ n @ c) = Ok q"
  shows "m' = m \<and> i' = i \<and> bcontext b' = bcontext b \<and> (row b \<noteq> None \<longrightarrow> row b' = row b) \<and> q = pt"
proof -
  have len: "length i = 16" "length i' = 16" "length n = 12"
    using assms(3-5) by (simp_all add: KEY_ID_LEN_def NONCE_LEN_def)
  from len(1,3) assms(8) obtain a c0 m0 where own: "m0 \<in> set magics" "m0 \<noteq> MAGIC_V1"
    "m0 = MAGIC_V3 \<longleftrightarrow> row b \<noteq> None" "m @ i @ n @ c = m0 @ i @ n @ c0"
    "open_aad b (m @ i @ n @ c) = Ok a" "x_gcm_encrypt x k n a pt = Some c0"
    by (rule seal_with_own_aad)
  have eq: "m0 = m" "c0 = c"
    using own(4) assms(9) magics_length [OF own(1)] by (simp_all add: append_eq_same_length)
  obtain a' where a': "open_aad b' (m' @ i' @ n @ c) = Ok a'" "x_gcm_decrypt x k n a' c = Some q"
    using assms(11) header_fields [OF assms(10) len(2,3), of c]
    by (auto simp: decrypt_def cipher_decrypt_def decrypt_with_def cipher_new_def cipher_with_budget_def
        res_simps split: if_splits)
  have enc: "x_gcm_encrypt x k n a pt = Some c" using own(6) eq(2) by simp
  have aa: "a' = a"
    using a'(2) gcm_authenticD [OF assms(2) enc, of a'] by fastforce
  moreover have "q = pt"
    using a'(2) aa gcm_correctD [OF assms(1) enc] by simp
  moreover have "open_aad b (m @ i @ n @ c) = Ok a" and mm: "m \<in> set magics" and
    v: "m \<noteq> MAGIC_V1" "m = MAGIC_V3 \<longleftrightarrow> row b \<noteq> None"
    using own(1-3,5) eq(1) by simp_all
  note inj = open_aad_inject [OF mm len(1,3) assms(10) len(2,3) assms(6,7) this(1) a'(1) [unfolded aa]]
  ultimately show ?thesis using inj v by blast
qed

theorem header_authenticated_witness:
  "\<exists>c. seal_with sample sample_key sample_nonce sample_id (binding_cell sample_column) [9]
         = Ok (MAGIC @ sample_id @ sample_nonce @ c)
     \<and> decrypt sample sample_key (binding_cell sample_column)
         (MAGIC_V1 @ sample_id @ sample_nonce @ c) \<noteq> Ok [9]"
proof -
  let ?b = "binding_cell sample_column"
  obtain c where e: "seal_with sample sample_key sample_nonce sample_id ?b [9]
      = Ok (MAGIC @ sample_id @ sample_nonce @ c)"
    by (simp add: seal_with_def binding_cell_def sample_def)
  have len: "length sample_id = KEY_ID_LEN" "length sample_nonce = NONCE_LEN"
    by (simp_all add: KEY_ID_LEN_def NONCE_LEN_def)
  have plain: "plain_context (bcontext ?b)"
    by (simp add: sample_plain binding_cell_def)
  have m: "length MAGIC = 4" "MAGIC_V1 \<in> set magics"
    by (simp_all add: magics_def)
  have "decrypt sample sample_key ?b (MAGIC_V1 @ sample_id @ sample_nonce @ c) \<noteq> Ok [9]"
  proof
    assume "decrypt sample sample_key ?b (MAGIC_V1 @ sample_id @ sample_nonce @ c) = Ok [9]"
    from header_authenticated
      [OF sample_gcm_correct sample_gcm_authentic len(1) len(1) len(2) plain plain e m this]
    show False by simp
  qed
  with e show ?thesis by blast
qed

end
