(* ===== verification/Ciphers.thy ===== *)
theory Ciphers
  imports Envelope
begin

text \<open>
  \<open>Ciphers\<close>, the process-wide cipher cache over a key source
  (\<open>crates/core/src/envelope.rs\<close>). The atomic sections of its methods (one lock acquisition,
  one call of the key source, one \<open>fetch_add\<close>) are definitions of their own: the methods are
  their compositions here, and their interleavings by several threads are the transition
  system of \<open>Budget.thy\<close>.

  Ciphers are shared by \<open>Arc\<close>, so they live in a heap and are held by address.
\<close>

record 'k ciphers =
  c_keys :: 'k
  c_budget :: u64
  c_heap :: "cipher list"
  c_active :: "(key_id \<times> nat) option"
  c_by_id :: "key_id \<rightharpoonup> nat"
  c_draws :: nat

definition ciphers_with_budget :: "'k \<Rightarrow> u64 \<Rightarrow> 'k ciphers" where
  "ciphers_with_budget k b =
     \<lparr>c_keys = k, c_budget = b, c_heap = [], c_active = None, c_by_id = Map.empty, c_draws = 0\<rparr>"

definition ciphers_new :: "'k \<Rightarrow> 'k ciphers" where
  "ciphers_new k = ciphers_with_budget k MAX_ENCRYPTIONS_PER_KEY"


section \<open>Atomic sections\<close>

text \<open>A call of the key source.\<close>

definition ask :: "('k, core_error, 'a) comp \<Rightarrow> ('k ciphers, core_error, 'a) comp" where
  "ask m s = (case m (c_keys s) of (r, k') \<Rightarrow> (r, s\<lparr>c_keys := k'\<rparr>))"

text \<open>\<open>Arc::new(Cipher::with_budget(..))\<close>.\<close>

definition alloc :: "key \<Rightarrow> 'k ciphers \<Rightarrow> nat \<times> 'k ciphers" where
  "alloc d s = (length (c_heap s), s\<lparr>c_heap := c_heap s @ [cipher_with_budget d (c_budget s)]\<rparr>)"

text \<open>The write-locked part of \<open>active\<close>: fill the slot unless another thread did.\<close>

definition install_active :: "key_id \<Rightarrow> key \<Rightarrow> 'k ciphers \<Rightarrow> (key_id \<times> nat) \<times> 'k ciphers" where
  "install_active i d s =
     (case c_active s of
        Some slot \<Rightarrow> (slot, s)
      | None \<Rightarrow> (let (a, s') = alloc d s in ((i, a), s'\<lparr>c_active := Some (i, a)\<rparr>)))"

text \<open>The write-locked part of \<open>roll_active\<close>.\<close>

definition install_rolled :: "key_id \<Rightarrow> key_id \<Rightarrow> key \<Rightarrow> 'k ciphers \<Rightarrow> (key_id \<times> nat) \<times> 'k ciphers" where
  "install_rolled spent i d s =
     (let fresh = (let (a, s') = alloc d s in ((i, a), s'\<lparr>c_active := Some (i, a)\<rparr>)) in
      case c_active s of
        Some (current, a) \<Rightarrow> if current \<noteq> spent then ((current, a), s) else fresh
      | None \<Rightarrow> fresh)"

text \<open>The write-locked part of \<open>for_id\<close>: \<open>entry(..).or_insert(..)\<close>.\<close>

definition install_by_id :: "key_id \<Rightarrow> key \<Rightarrow> 'k ciphers \<Rightarrow> nat \<times> 'k ciphers" where
  "install_by_id i d s =
     (let (a, s') = alloc d s in
      case c_by_id s' i of
        Some b \<Rightarrow> (b, s')
      | None \<Rightarrow> (a, s'\<lparr>c_by_id := (c_by_id s')(i \<mapsto> a)\<rparr>))"

text \<open>\<open>Cipher::encrypt\<close> on the cipher at an address.\<close>

definition encrypt_at :: "externs \<Rightarrow> nat \<Rightarrow> key_id \<Rightarrow> binding \<Rightarrow> bytes \<Rightarrow> ('k ciphers, core_error, bytes) comp" where
  "encrypt_at x a i bnd plaintext s =
     (case cipher_encrypt x i bnd plaintext (c_heap s ! a, c_draws s) of
        (r, (c, n)) \<Rightarrow> (r, s\<lparr>c_heap := (c_heap s)[a := c], c_draws := n\<rparr>))"


section \<open>The methods\<close>

definition ciphers_active :: "'k key_source \<Rightarrow> ('k ciphers, core_error, key_id \<times> nat) comp" where
  "ciphers_active ks s =
     (case c_active s of
        Some slot \<Rightarrow> (Ok slot, s)
      | None \<Rightarrow>
          comp_bind (ask (ks_active_key ks)) (\<lambda>(i, d) s. case install_active i d s of (slot, s') \<Rightarrow> (Ok slot, s')) s)"

definition roll_active :: "externs \<Rightarrow> 'k key_source \<Rightarrow> key_id \<Rightarrow> ('k ciphers, core_error, key_id \<times> nat) comp" where
  "roll_active x ks spent =
     comp_bind (ask (ks_active_key ks)) (\<lambda>(i, d) s.
       if i = spent then (Err (KeyExhausted (x_hex_encode x spent)), s)
       else (case install_rolled spent i d s of (slot, s') \<Rightarrow> (Ok slot, s')))"

definition for_id :: "'k key_source \<Rightarrow> key_id \<Rightarrow> ('k ciphers, core_error, nat) comp" where
  "for_id ks i s =
     (case c_by_id s i of
        Some a \<Rightarrow> (Ok a, s)
      | None \<Rightarrow>
          comp_bind (ask (ks_key ks i)) (\<lambda>d s. case install_by_id i d s of (a, s') \<Rightarrow> (Ok a, s')) s)"

definition ciphers_seal :: "externs \<Rightarrow> 'k key_source \<Rightarrow> binding \<Rightarrow> bytes \<Rightarrow> ('k ciphers, core_error, bytes) comp" where
  "ciphers_seal x ks bnd plaintext =
     comp_bind (ciphers_active ks) (\<lambda>(i, a) s.
       case encrypt_at x a i bnd plaintext s of
         (Err (KeyExhausted _), s') \<Rightarrow>
           comp_bind (roll_active x ks i) (\<lambda>(i', a'). encrypt_at x a' i' bnd plaintext) s'
       | result \<Rightarrow> result)"

definition ciphers_open :: "externs \<Rightarrow> 'k key_source \<Rightarrow> binding \<Rightarrow> bytes \<Rightarrow> ('k ciphers, core_error, bytes) comp" where
  "ciphers_open x ks bnd enveloped =
     comp_bind (comp_of (key_id_of enveloped)) (\<lambda>i.
     comp_bind (for_id ks i) (\<lambda>a s. (cipher_decrypt x (c_heap s ! a) bnd enveloped, s)))"


section \<open>The cache invariant\<close>

text \<open>
  Every cached cipher holds the key its id names, and its budget is the cache's; ids have
  their width.
\<close>

definition ciphers_inv :: "('k \<Rightarrow> bool) \<Rightarrow> (key_id \<Rightarrow> key option) \<Rightarrow> 'k ciphers \<Rightarrow> bool" where
  "ciphers_inv ok dek s \<longleftrightarrow>
     ok (c_keys s)
     \<and> (\<forall>i a. c_active s = Some (i, a) \<longrightarrow>
          a < length (c_heap s) \<and> dek i = Some (gcm (c_heap s ! a)) \<and> length i = 16)
     \<and> (\<forall>i a. c_by_id s i = Some a \<longrightarrow> a < length (c_heap s) \<and> dek i = Some (gcm (c_heap s ! a)))
     \<and> (\<forall>c \<in> set (c_heap s). budget c = c_budget s)"

text \<open>What the rest of the heap looks like after a step: keys stay, the heap only grows.\<close>

definition heap_ext :: "'k ciphers \<Rightarrow> 'k ciphers \<Rightarrow> bool" where
  "heap_ext s t \<longleftrightarrow>
     length (c_heap s) \<le> length (c_heap t) \<and> (\<forall>a < length (c_heap s). gcm (c_heap t ! a) = gcm (c_heap s ! a))"

lemma ciphers_inv_new: "ok k \<Longrightarrow> ciphers_inv ok dek (ciphers_with_budget k b)"
  by (simp add: ciphers_inv_def ciphers_with_budget_def)

lemma ask_Pair: "ask m s = (r, t) \<longleftrightarrow> (\<exists>k'. m (c_keys s) = (r, k') \<and> t = s\<lparr>c_keys := k'\<rparr>)"
  by (auto simp: ask_def split: prod.splits)

lemma ciphers_inv_keys:
  "ciphers_inv ok dek s \<Longrightarrow> ok k' \<Longrightarrow> ciphers_inv ok dek (s\<lparr>c_keys := k'\<rparr>)"
  by (simp add: ciphers_inv_def)

lemma ciphers_inv_alloc:
  assumes "ciphers_inv ok dek s" and "alloc d s = (a, t)"
  shows "ciphers_inv ok dek t \<and> a < length (c_heap t) \<and> gcm (c_heap t ! a) = d
    \<and> c_active t = c_active s \<and> c_by_id t = c_by_id s"
  using assms by (auto simp: ciphers_inv_def alloc_def nth_append cipher_with_budget_def less_SucI)

lemma ciphers_inv_set_active:
  assumes "ciphers_inv ok dek s" and "dek i = Some d" and "length i = 16" and "alloc d s = (a, t)"
  shows "ciphers_inv ok dek (t\<lparr>c_active := Some (i, a)\<rparr>)"
  using ciphers_inv_alloc [OF assms(1,4)] assms(2,3) by (simp add: ciphers_inv_def)

lemma install_active_inv:
  assumes "ciphers_inv ok dek s" and "dek i = Some d" and "length i = 16"
    and "install_active i d s = (slot, t)"
  shows "ciphers_inv ok dek t \<and> c_active t = Some slot"
proof (cases "c_active s")
  case None
  obtain a s' where a: "alloc d s = (a, s')" by force
  then have "slot = (i, a)" "t = s'\<lparr>c_active := Some (i, a)\<rparr>"
    using None assms(4) by (auto simp: install_active_def)
  then show ?thesis using ciphers_inv_set_active [OF assms(1-3) a] by simp
next
  case (Some sl)
  then show ?thesis using assms by (simp add: install_active_def)
qed

lemma install_rolled_inv:
  assumes "ciphers_inv ok dek s" and "dek i = Some d" and "length i = 16"
    and "install_rolled spent i d s = (slot, t)"
  shows "ciphers_inv ok dek t \<and> c_active t = Some slot"
proof (cases "\<exists>current b. c_active s = Some (current, b) \<and> current \<noteq> spent")
  case True
  then show ?thesis using assms by (auto simp: install_rolled_def Let_def)
next
  case False
  obtain a s' where a: "alloc d s = (a, s')" by force
  then have "slot = (i, a)" "t = s'\<lparr>c_active := Some (i, a)\<rparr>"
    using False assms(4) by (auto simp: install_rolled_def Let_def split: option.splits if_splits)
  then show ?thesis using ciphers_inv_set_active [OF assms(1-3) a] by simp
qed

lemma install_by_id_inv:
  assumes "ciphers_inv ok dek s" and "dek i = Some d" and "install_by_id i d s = (b, t)"
  shows "ciphers_inv ok dek t \<and> c_by_id t i = Some b"
proof -
  obtain a s' where a: "alloc d s = (a, s')" by force
  note inv = ciphers_inv_alloc [OF assms(1) a]
  show ?thesis
  proof (cases "c_by_id s' i")
    case None
    then have "b = a" "t = s'\<lparr>c_by_id := (c_by_id s')(i \<mapsto> a)\<rparr>"
      using a assms(3) by (auto simp: install_by_id_def)
    then show ?thesis using inv assms(2) by (simp add: ciphers_inv_def)
  next
    case (Some c)
    then have "b = c" "t = s'"
      using a assms(3) by (auto simp: install_by_id_def)
    then show ?thesis using inv Some by simp
  qed
qed

text \<open>The state after one invocation was charged to the cipher at \<open>a\<close>.\<close>

definition charged :: "nat \<Rightarrow> nat \<Rightarrow> 'k ciphers \<Rightarrow> 'k ciphers" where
  "charged a n s =
     s\<lparr>c_heap := (c_heap s)[a := (c_heap s ! a)\<lparr>used := used (c_heap s ! a) + 1\<rparr>], c_draws := n\<rparr>"

lemma charged_simps [simp]:
  "c_keys (charged a n s) = c_keys s" "c_budget (charged a n s) = c_budget s"
  "c_active (charged a n s) = c_active s" "c_by_id (charged a n s) = c_by_id s"
  "c_draws (charged a n s) = n" "length (c_heap (charged a n s)) = length (c_heap s)"
  by (simp_all add: charged_def)

lemma charged_nth:
  "b < length (c_heap s) \<Longrightarrow> c_heap (charged a n s) ! b =
     (if b = a then (c_heap s ! a)\<lparr>used := used (c_heap s ! a) + 1\<rparr> else c_heap s ! b)"
  by (auto simp: charged_def nth_list_update)

lemma ciphers_inv_charged:
  assumes "ciphers_inv ok dek s" and "a < length (c_heap s)"
  shows "ciphers_inv ok dek (charged a n s)"
proof -
  have "budget (c_heap s ! i) = c_budget s" if "i < length (c_heap s)" for i
    using assms(1) that by (simp add: ciphers_inv_def)
  then have "\<forall>c \<in> set (c_heap (charged a n s)). budget c = c_budget s"
    using assms(2) by (auto simp: in_set_conv_nth charged_nth)
  then show ?thesis
    using assms by (auto simp: ciphers_inv_def charged_nth)
qed

text \<open>What \<open>encrypt_at\<close> returns and changes.\<close>

lemma encrypt_at_cases:
  assumes "encrypt_at x a i b pt s = (r, t)"
  obtains (spent) "budget (c_heap s ! a) \<le> used (c_heap s ! a)"
      "r = Err (KeyExhausted (x_hex_encode x i))" "t = charged a (c_draws s) s"
    | (sealed) "used (c_heap s ! a) < budget (c_heap s ! a)"
      "r = seal_with x (gcm (c_heap s ! a)) (x_nonce x (c_draws s)) i b pt"
      "t = charged a (Suc (c_draws s)) s"
  using assms by (auto simp: encrypt_at_def cipher_encrypt_def Let_def not_le charged_def split: if_splits)

lemma encrypt_at_inv:
  assumes "ciphers_inv ok dek s" and "a < length (c_heap s)" and "encrypt_at x a i b pt s = (r, t)"
  shows "ciphers_inv ok dek t"
  using assms(3) by (cases rule: encrypt_at_cases) (simp_all add: ciphers_inv_charged assms)


section \<open>The methods over a lawful key source\<close>

context key_source_laws
begin

lemma ask_active_ok:
  assumes "ciphers_inv ok dek s" and "ask (ks_active_key ks) s = (r, t)"
  shows "ciphers_inv ok dek t \<and> c_active t = c_active s \<and> c_heap t = c_heap s
    \<and> (\<forall>i d. r = Ok (i, d) \<longrightarrow> dek i = Some d \<and> length i = 16)"
  using assms active_dek active_width ok_active
  by (auto simp: ask_Pair ciphers_inv_def)

lemma ciphers_active_inv:
  assumes "ciphers_inv ok dek s" and "ciphers_active ks s = (r, t)"
  shows "ciphers_inv ok dek t \<and> (\<forall>slot. r = Ok slot \<longrightarrow> c_active t = Some slot)"
proof (cases "c_active s")
  case None
  with assms(2) have "comp_bind (ask (ks_active_key ks))
      (\<lambda>(i, d) s. case install_active i d s of (slot, s') \<Rightarrow> (Ok slot, s')) s = (r, t)"
    by (simp add: ciphers_active_def)
  then show ?thesis
  proof (cases rule: comp_bindE)
    case (err e)
    then show ?thesis using ask_active_ok [OF assms(1) err(1)] by simp
  next
    case (ok p s')
    then show ?thesis
      using ask_active_ok [OF assms(1) ok(1)] install_active_inv [of ok dek s']
      by (auto split: prod.splits)
  qed
next
  case (Some slot)
  then show ?thesis using assms by (auto simp: ciphers_active_def)
qed

lemma roll_active_inv:
  assumes "ciphers_inv ok dek s" and "roll_active x ks spent s = (r, t)"
  shows "ciphers_inv ok dek t \<and> (\<forall>slot. r = Ok slot \<longrightarrow> c_active t = Some slot)"
  using assms(2) unfolding roll_active_def
proof (cases rule: comp_bindE)
  case (err e)
  then show ?thesis using ask_active_ok [OF assms(1) err(1)] by simp
next
  case (ok p s')
  then show ?thesis
    using ask_active_ok [OF assms(1) ok(1)] install_rolled_inv [of ok dek s']
    by (auto split: prod.splits if_splits)
qed

lemma for_id_inv:
  assumes "ciphers_inv ok dek s" and "for_id ks i s = (r, t)"
  shows "ciphers_inv ok dek t \<and> (\<forall>a. r = Ok a \<longrightarrow> c_by_id t i = Some a)"
proof (cases "c_by_id s i")
  case None
  with assms(2) have "comp_bind (ask (ks_key ks i))
      (\<lambda>d s. case install_by_id i d s of (a, s') \<Rightarrow> (Ok a, s')) s = (r, t)"
    by (simp add: for_id_def)
  then show ?thesis
  proof (cases rule: comp_bindE)
    case (err e)
    then show ?thesis using assms(1) ok_key by (auto simp: ask_Pair ciphers_inv_def)
  next
    case (ok d s')
    then have "ciphers_inv ok dek s'" "dek i = Some d"
      using assms(1) ok_key key_dek by (auto simp: ask_Pair ciphers_inv_def)
    then show ?thesis
      using ok(2) install_by_id_inv [of ok dek s' i d] by (auto split: prod.splits)
  qed
next
  case (Some a)
  then show ?thesis using assms by (auto simp: for_id_def)
qed


text \<open>
  A successful seal is an envelope under a data key of the source, made with one of the
  generator's nonces; a failing one still leaves the cache sound.
\<close>

lemma ciphers_seal_inv:
  assumes "ciphers_inv ok dek s" and "ciphers_seal x ks b pt s = (r, t)"
  shows "ciphers_inv ok dek t"
    and "r = Ok e \<Longrightarrow> \<exists>i k n. length i = 16 \<and> dek i = Some k \<and> seal_with x k (x_nonce x n) i b pt = Ok e"
proof -
  have slot: "a < length (c_heap u) \<and> dek i = Some (gcm (c_heap u ! a)) \<and> length i = 16"
    if "ciphers_inv ok dek u" "c_active u = Some (i, a)" for u i a
    using that by (simp add: ciphers_inv_def)
  have enc: "ciphers_inv ok dek v \<and> (q = Ok e \<longrightarrow>
      (\<exists>i k n. length i = 16 \<and> dek i = Some k \<and> seal_with x k (x_nonce x n) i b pt = Ok e))"
    if u: "ciphers_inv ok dek u" "c_active u = Some (i, a)" and q: "encrypt_at x a i b pt u = (q, v)" for u v i a q
    using q
  proof (cases rule: encrypt_at_cases)
    case spent
    then show ?thesis using encrypt_at_inv [OF u(1) _ q] slot [OF u] by simp
  next
    case sealed
    then show ?thesis using encrypt_at_inv [OF u(1) _ q] slot [OF u] by metis
  qed
  have "ciphers_inv ok dek t \<and> (r = Ok e \<longrightarrow>
      (\<exists>i k n. length i = 16 \<and> dek i = Some k \<and> seal_with x k (x_nonce x n) i b pt = Ok e))"
    using assms(2) unfolding ciphers_seal_def
  proof (cases rule: comp_bindE)
    case (err e')
    then show ?thesis using ciphers_active_inv [OF assms(1) err(1)] by simp
  next
    case (ok p s1)
    obtain i a where p: "p = (i, a)" by force
    have s1: "ciphers_inv ok dek s1" "c_active s1 = Some (i, a)"
      using ciphers_active_inv [OF assms(1) ok(1)] p by simp_all
    obtain q s2 where q: "encrypt_at x a i b pt s1 = (q, s2)" by force
    note q' = enc [OF s1 q]
    show ?thesis
    proof (cases "\<exists>h. q = Err (KeyExhausted h)")
      case True
      then have roll: "comp_bind (roll_active x ks i) (\<lambda>(i', a'). encrypt_at x a' i' b pt) s2 = (r, t)"
        using ok(2) p q by auto
      from roll show ?thesis
      proof (cases rule: comp_bindE)
        case (err e')
        then show ?thesis using roll_active_inv [OF conjunct1 [OF q'] err(1)] by simp
      next
        case (ok p' s3)
        then show ?thesis
          using roll_active_inv [OF conjunct1 [OF q'] ok(1)] enc [of s3 "fst p'" "snd p'" r t]
          by (auto split: prod.splits)
      qed
    next
      case False
      then have "(q, s2) = (r, t)"
        using ok(2) p q by (auto split: sum.splits core_error.splits)
      then show ?thesis using q' by simp
    qed
  qed
  then show "ciphers_inv ok dek t"
    and "r = Ok e \<Longrightarrow> \<exists>i k n. length i = 16 \<and> dek i = Some k \<and> seal_with x k (x_nonce x n) i b pt = Ok e"
    by blast+
qed

text \<open>Opening through the cache is decryption under the key the header's id names.\<close>

lemma ciphers_open_inv:
  assumes "ciphers_inv ok dek s" and "ciphers_open x ks b data s = (r, t)"
  shows "ciphers_inv ok dek t
    \<and> (\<forall>i k. key_id_of data = Ok i \<longrightarrow> dek i = Some k \<longrightarrow> r = decrypt x k b data \<or> (\<exists>e. r = Err e \<and> fst (for_id ks i s) = Err e))"
proof (cases "key_id_of data")
  case (Inl e)
  then show ?thesis using assms by (auto simp: ciphers_open_def comp_bind_def)
next
  case (Inr i)
  obtain q u where q: "for_id ks i s = (q, u)" by force
  have u: "ciphers_inv ok dek u" "\<And>a. q = Ok a \<Longrightarrow> c_by_id u i = Some a"
    using for_id_inv [OF assms(1) q] by auto
  have r: "(case q of Err e \<Rightarrow> (Err e, u) | Ok a \<Rightarrow> (cipher_decrypt x (c_heap u ! a) b data, u)) = (r, t)"
    using assms(2) Inr q by (simp add: ciphers_open_def comp_bind_def)
  show ?thesis
  proof (cases q)
    case (Inl e)
    then show ?thesis using r u(1) q Inr by simp
  next
    case (Inr a)
    then have "r = cipher_decrypt x (c_heap u ! a) b data" "t = u" using r by auto
    moreover have "dek i = Some (gcm (c_heap u ! a))"
      using u Inr by (simp add: ciphers_inv_def)
    ultimately show ?thesis
      using u(1) \<open>key_id_of data = Ok i\<close>
      by (simp add: cipher_decrypt_def decrypt_def cipher_new_def cipher_with_budget_def)
  qed
qed

end

context available_source
begin

lemma for_id_available:
  assumes "ciphers_inv ok dek s" and "dek i = Some k"
  shows "is_ok (fst (for_id ks i s))"
proof (cases "c_by_id s i")
  case None
  have "ok (c_keys s)" using assms(1) by (simp add: ciphers_inv_def)
  then obtain k' where "ks_key ks i (c_keys s) = (Ok k, k')"
    using key_available assms(2) by blast
  then have "ask (ks_key ks i) s = (Ok k, s\<lparr>c_keys := k'\<rparr>)" by (simp add: ask_Pair)
  then show ?thesis using None by (simp add: for_id_def comp_bind_def split: prod.splits)
qed (simp add: for_id_def)

lemma ciphers_open_is_decrypt:
  assumes "ciphers_inv ok dek s" and "key_id_of data = Ok i" and "dek i = Some k"
  shows "fst (ciphers_open x ks b data s) = decrypt x k b data"
proof -
  obtain r t where r: "ciphers_open x ks b data s = (r, t)" by force
  show ?thesis
    using ciphers_open_inv [OF assms(1) r] assms(2,3) for_id_available [OF assms(1,3)] r by auto
qed

end


section \<open>Sealing here, opening there\<close>

text \<open>A keyfile with one data key and one deterministic key, for the witnesses.\<close>

definition sample_file :: file_key_source where
  "sample_file = \<lparr>active = sample_id, fkeys = [sample_id \<mapsto> sample_key], index_keys = [sample_column \<mapsto> sample_key]\<rparr>"

lemma sample_file_wf: "fks_wf sample_file"
  by (simp add: fks_wf_def sample_file_def)

lemma sample_file_inv:
  "ciphers_inv (\<lambda>k. k = sample_file \<and> fks_wf sample_file) (fkeys sample_file) (ciphers_new sample_file)"
  unfolding ciphers_new_def by (rule ciphers_inv_new) (simp add: sample_file_wf)

text \<open>
  C1. What a stored value opens to, in every case, also across processes: sealed through one
  cipher cache and opened through another over the same data keys, in any state their
  histories may have left them. A row-bound value opens exactly under the column and the row
  it was sealed for, and is reported as lacking its row key when the reader has none; a
  cell-only value opens exactly under its column, and is refused as a downgrade by a strict
  reader of a row-bound column. Any other column or row fails to authenticate.
\<close>

theorem seal_open_outcome:
  assumes "gcm_correct x" and "gcm_authentic x" and "gcm_tagged x" and "nonce_sized x"
    and "key_source_laws ks ok dek ikey" and "available_source ks' ok' dek ikey'"
    and "ciphers_inv ok dek s" and "ciphers_inv ok' dek t"
    and "ciphers_seal x ks b pt s = (Ok e, s')"
  shows "fst (ciphers_open x ks' b' e t) =
    (case row b of
       None \<Rightarrow>
         if row b' \<noteq> None \<and> strict b' then Err RowBindingDowngraded
         else if bcontext b' = bcontext b then Ok pt else Err Decrypt
     | Some r \<Rightarrow>
         (case row b' of
            None \<Rightarrow> Err RowKeyMissing
          | Some r' \<Rightarrow>
              res_bind (aad_with_row (bcontext b') (header_key_id e) r') (\<lambda>_.
                if bcontext b' = bcontext b \<and> r' = r then Ok pt else Err Decrypt)))"
proof -
  obtain i k n where i: "length i = 16" "dek i = Some k" "seal_with x k (x_nonce x n) i b pt = Ok e"
    using key_source_laws.ciphers_seal_inv(2) [OF assms(5,7,9)] by blast
  have n: "length (x_nonce x n) = 12" using assms(4) by simp
  note e = seal_with_is_enveloped [OF assms(3) i(1) n i(3)]
  then have "key_id_of e = Ok i" by (simp add: key_id_of_def)
  then have "fst (ciphers_open x ks' b' e t) = decrypt x k b' e"
    using available_source.ciphers_open_is_decrypt [OF assms(6,8)] i(2) by blast
  then show ?thesis
    unfolding e(2) by (simp only: decrypt_sealed [OF assms(1-3) i(1) n i(3)])
qed

theorem seal_open_outcome_witness:
  "\<exists>e s'. ciphers_seal sample (file_source sample) (binding_row sample_column [52, 50]) [9]
            (ciphers_new sample_file) = (Ok e, s')
     \<and> fst (ciphers_open sample (file_source sample) (binding_row sample_column [52, 50]) e (ciphers_new sample_file)) = Ok [9]
     \<and> fst (ciphers_open sample (file_source sample) (binding_row sample_column [52, 51]) e (ciphers_new sample_file)) = Err Decrypt
     \<and> fst (ciphers_open sample (file_source sample) (binding_cell sample_column) e s') = Err RowKeyMissing"
proof -
  let ?b = "\<lambda>d. binding_row sample_column [52, d]" and ?f = "file_source sample"
  have row: "is_ok (aad_with_row sample_column i [52, d])" for i d
    by (simp add: aad_with_row_def aad_prefix_def)
  obtain a where a: "aad_with_row sample_column sample_id [52, 50] = Ok a"
    using row by (meson is_ok_iff)
  obtain e s' where e: "ciphers_seal sample ?f (?b 50) [9] (ciphers_new sample_file) = (Ok e, s')"
    by (simp add: ciphers_seal_def ciphers_active_def ciphers_new_def ciphers_with_budget_def comp_bind_def
        ask_def file_source_def fks_active_key_def sample_file_def install_active_def alloc_def
        encrypt_at_def cipher_encrypt_def cipher_with_budget_def seal_with_def binding_row_def a
        MAX_ENCRYPTIONS_PER_KEY_def x_gcm_encrypt_sample)
  let ?inv = "ciphers_inv (\<lambda>k. k = sample_file \<and> fks_wf sample_file) (fkeys sample_file)"
  have s': "?inv s'"
    using fks.ciphers_seal_inv(1) [OF sample_file_inv e] .
  obtain a1 a2 where a12: "aad_with_row sample_column (header_key_id e) [52, 50] = Ok a1"
    "aad_with_row sample_column (header_key_id e) [52, 51] = Ok a2"
    using row by (meson is_ok_iff)
  note out = seal_open_outcome [OF sample_gcm_correct sample_gcm_authentic sample_gcm_tagged
      sample_nonce_sized fks.key_source_laws_axioms fks.available_source_axioms [of sample] sample_file_inv _ e]
  show ?thesis
    using e a12 out [OF sample_file_inv, where b' = "?b 50"] out [OF sample_file_inv, where b' = "?b 51"]
      out [OF s', where b' = "binding_cell sample_column"]
    by (simp add: binding_row_def binding_cell_def)
qed

end
