(* ===== verification/Budget.thy ===== *)
theory Budget
  imports Ciphers
begin

text \<open>
  The random-nonce budget under concurrency. Threads run \<open>Ciphers::seal\<close> against one shared
  cache; a step is one atomic section of the code (a lock acquisition, a call of the key source,
  a \<open>fetch_add\<close> with the encryption it admits), and other threads may open values at any time.
  The system keeps two histories the code does not have: every invocation charged
  (\<open>sy_log\<close>: cipher address, key id, and whether the call encrypted, which is read off what it
  did: it drew a nonce or returned an envelope) and every cipher ever put in the
  active slot (\<open>sy_slots\<close>, latest first).
\<close>

datatype phase =
    Idle
  | Reading binding bytes
  | Asking binding bytes
  | Installing binding bytes key_id key
  | Encrypting binding bytes key_id nat
  | Rolling binding bytes key_id
  | RollInstalling binding bytes key_id key_id key
  | LastEncrypting binding bytes key_id nat
  | Returned "core_error + bytes"

record 'k sys =
  sy_ciphers :: "'k ciphers"
  sy_threads :: "nat \<Rightarrow> phase"
  sy_log :: "(nat \<times> key_id \<times> bool) list"
  sy_slots :: "(key_id \<times> nat) list"

text \<open>Thread \<open>t\<close> moves on, the cache becomes \<open>c\<close>.\<close>

definition moved :: "nat \<Rightarrow> phase \<Rightarrow> 'k ciphers \<Rightarrow> 'k sys \<Rightarrow> 'k sys" where
  "moved t p c s = s\<lparr>sy_ciphers := c, sy_threads := (sy_threads s)(t := p)\<rparr>"

text \<open>The histories: a slot is new when its address was just allocated.\<close>

definition note_slot :: "key_id \<times> nat \<Rightarrow> 'k sys \<Rightarrow> 'k sys" where
  "note_slot slot s =
     (if snd slot = length (c_heap (sy_ciphers s)) then s\<lparr>sy_slots := slot # sy_slots s\<rparr> else s)"

definition note_charge :: "nat \<Rightarrow> key_id \<Rightarrow> core_error + bytes \<Rightarrow> 'k ciphers \<Rightarrow> 'k sys \<Rightarrow> 'k sys" where
  "note_charge a i r c s =
     s\<lparr>sy_log := (a, i, c_draws c \<noteq> c_draws (sy_ciphers s) \<or> (case r of Ok _ \<Rightarrow> True | Err _ \<Rightarrow> False)) # sy_log s\<rparr>"

inductive seal_step :: "externs \<Rightarrow> 'k key_source \<Rightarrow> 'k sys \<Rightarrow> 'k sys \<Rightarrow> bool"
  for x :: externs and ks :: "'k key_source"
  where
    call: "sy_threads s t = Idle \<or> sy_threads s t = Returned r \<Longrightarrow>
      seal_step x ks s (moved t (Reading b pt) (sy_ciphers s) s)"
  | hit: "sy_threads s t = Reading b pt \<Longrightarrow> c_active (sy_ciphers s) = Some (i, a) \<Longrightarrow>
      seal_step x ks s (moved t (Encrypting b pt i a) (sy_ciphers s) s)"
  | miss: "sy_threads s t = Reading b pt \<Longrightarrow> c_active (sy_ciphers s) = None \<Longrightarrow>
      seal_step x ks s (moved t (Asking b pt) (sy_ciphers s) s)"
  | asked: "sy_threads s t = Asking b pt \<Longrightarrow> ask (ks_active_key ks) (sy_ciphers s) = (Ok (i, d), c) \<Longrightarrow>
      seal_step x ks s (moved t (Installing b pt i d) c s)"
  | ask_failed: "sy_threads s t = Asking b pt \<Longrightarrow> ask (ks_active_key ks) (sy_ciphers s) = (Err e, c) \<Longrightarrow>
      seal_step x ks s (moved t (Returned (Err e)) c s)"
  | install: "sy_threads s t = Installing b pt i d \<Longrightarrow>
      install_active i d (sy_ciphers s) = ((j, a), c) \<Longrightarrow>
      seal_step x ks s (moved t (Encrypting b pt j a) c (note_slot (j, a) s))"
  | encrypted: "sy_threads s t = Encrypting b pt i a \<Longrightarrow>
      encrypt_at x a i b pt (sy_ciphers s) = (r, c) \<Longrightarrow> \<forall>h. r \<noteq> Err (KeyExhausted h) \<Longrightarrow>
      seal_step x ks s (moved t (Returned r) c (note_charge a i r c s))"
  | spent: "sy_threads s t = Encrypting b pt i a \<Longrightarrow>
      encrypt_at x a i b pt (sy_ciphers s) = (Err (KeyExhausted h), c) \<Longrightarrow>
      seal_step x ks s (moved t (Rolling b pt i) c (note_charge a i (Err (KeyExhausted h)) c s))"
  | roll_asked: "sy_threads s t = Rolling b pt old \<Longrightarrow>
      ask (ks_active_key ks) (sy_ciphers s) = (Ok (i, d), c) \<Longrightarrow> i \<noteq> old \<Longrightarrow>
      seal_step x ks s (moved t (RollInstalling b pt old i d) c s)"
  | roll_same: "sy_threads s t = Rolling b pt old \<Longrightarrow>
      ask (ks_active_key ks) (sy_ciphers s) = (Ok (old, d), c) \<Longrightarrow>
      seal_step x ks s (moved t (Returned (Err (KeyExhausted (x_hex_encode x old)))) c s)"
  | roll_failed: "sy_threads s t = Rolling b pt old \<Longrightarrow>
      ask (ks_active_key ks) (sy_ciphers s) = (Err e, c) \<Longrightarrow>
      seal_step x ks s (moved t (Returned (Err e)) c s)"
  | roll_install: "sy_threads s t = RollInstalling b pt old i d \<Longrightarrow>
      install_rolled old i d (sy_ciphers s) = ((j, a), c) \<Longrightarrow>
      seal_step x ks s (moved t (LastEncrypting b pt j a) c (note_slot (j, a) s))"
  | last_encrypted: "sy_threads s t = LastEncrypting b pt i a \<Longrightarrow>
      encrypt_at x a i b pt (sy_ciphers s) = (r, c) \<Longrightarrow>
      seal_step x ks s (moved t (Returned r) c (note_charge a i r c s))"
  | look_up: "ask (ks_key ks i) (sy_ciphers s) = (r, c) \<Longrightarrow>
      seal_step x ks s (s\<lparr>sy_ciphers := c\<rparr>)"
  | look_up_index: "ask (ks_index_key ks nm) (sy_ciphers s) = (r, c) \<Longrightarrow>
      seal_step x ks s (s\<lparr>sy_ciphers := c\<rparr>)"
  | cache: "fst (ks_key ks i k) = Ok d \<Longrightarrow> install_by_id i d (sy_ciphers s) = (a, c) \<Longrightarrow>
      seal_step x ks s (s\<lparr>sy_ciphers := c\<rparr>)"

definition seal_ini :: "('k \<Rightarrow> bool) \<Rightarrow> u64 \<Rightarrow> 'k sys \<Rightarrow> bool" where
  "seal_ini ok b s \<longleftrightarrow>
     (\<exists>k. ok k \<and> sy_ciphers s = ciphers_with_budget k b) \<and> (\<forall>t. sy_threads s t = Idle)
     \<and> sy_log s = [] \<and> sy_slots s = []"


section \<open>The invariant\<close>

definition calls :: "nat \<Rightarrow> (nat \<times> key_id \<times> bool) list \<Rightarrow> nat" where
  "calls a log = length (filter (\<lambda>(b, _, _). b = a) log)"

definition admitted :: "nat \<Rightarrow> (nat \<times> key_id \<times> bool) list \<Rightarrow> nat" where
  "admitted a log = length (filter (\<lambda>(b, _, p). b = a \<and> p) log)"

text \<open>
  Each counter holds the number of charges to its cipher, modulo its width, and while it has
  not wrapped exactly the first \<open>budget\<close> of them were admitted.
\<close>

definition counters_inv :: "u64 \<Rightarrow> 'k sys \<Rightarrow> bool" where
  "counters_inv b s \<longleftrightarrow>
     (let heap = c_heap (sy_ciphers s); log = sy_log s in
        c_budget (sy_ciphers s) = b
        \<and> (\<forall>a < length heap. budget (heap ! a) = b \<and> used (heap ! a) = of_nat (calls a log))
        \<and> (\<forall>(a, i, p) \<in> set log. (i, a) \<in> set (sy_slots s))
        \<and> (\<forall>(i, a) \<in> set (sy_slots s). a < length heap)
        \<and> (length log \<le> 2 ^ 64 \<longrightarrow> (\<forall>a. admitted a log = min (calls a log) (unat b))))"

definition slots_inv :: "('k \<Rightarrow> bool) \<Rightarrow> (key_id \<Rightarrow> nat) \<Rightarrow> ('k \<Rightarrow> nat) \<Rightarrow> (key_id \<Rightarrow> bool) \<Rightarrow> 'k sys \<Rightarrow> bool" where
  "slots_inv ok rank epoch offered s \<longleftrightarrow>
     ok (c_keys (sy_ciphers s))
     \<and> c_active (sy_ciphers s) = (case sy_slots s of [] \<Rightarrow> None | p # _ \<Rightarrow> Some p)
     \<and> sorted_wrt (\<lambda>p q. rank (fst q) < rank (fst p)) (sy_slots s)
     \<and> (\<forall>p \<in> set (sy_slots s). offered (fst p) \<and> rank (fst p) \<le> epoch (c_keys (sy_ciphers s)))"

fun phase_ok :: "(key_id \<Rightarrow> nat) \<Rightarrow> nat \<Rightarrow> (key_id \<Rightarrow> bool) \<Rightarrow> (key_id \<times> nat) list \<Rightarrow> phase \<Rightarrow> bool" where
  "phase_ok rank now offered slots (Installing _ _ i _) = (offered i \<and> rank i \<le> now)"
| "phase_ok rank now offered slots (Encrypting _ _ i a) = ((i, a) \<in> set slots)"
| "phase_ok rank now offered slots (Rolling _ _ old) = (old \<in> fst ` set slots)"
| "phase_ok rank now offered slots (RollInstalling _ _ old i _) =
     (old \<in> fst ` set slots \<and> offered i \<and> rank old < rank i \<and> rank i \<le> now)"
| "phase_ok rank now offered slots (LastEncrypting _ _ i a) = ((i, a) \<in> set slots)"
| "phase_ok rank now offered slots _ = True"

definition seal_inv :: "('k \<Rightarrow> bool) \<Rightarrow> (key_id \<Rightarrow> nat) \<Rightarrow> ('k \<Rightarrow> nat) \<Rightarrow> (key_id \<Rightarrow> bool) \<Rightarrow> u64 \<Rightarrow> 'k sys \<Rightarrow> bool" where
  "seal_inv ok rank epoch offered b s \<longleftrightarrow>
     counters_inv b s \<and> slots_inv ok rank epoch offered s
     \<and> (\<forall>t. phase_ok rank (epoch (c_keys (sy_ciphers s))) offered (sy_slots s) (sy_threads s t))"

lemma phase_ok_mono:
  "phase_ok rank now offered slots p \<Longrightarrow> now \<le> now' \<Longrightarrow> set slots \<subseteq> set slots' \<Longrightarrow>
     phase_ok rank now' offered slots' p"
  by (cases p) auto

lemma seal_inv_ini: "seal_ini ok b s \<Longrightarrow> seal_inv ok rank epoch offered b s"
  by (auto simp: seal_ini_def seal_inv_def counters_inv_def slots_inv_def ciphers_with_budget_def
      calls_def admitted_def)

text \<open>One thread moves, and the key source may have advanced.\<close>

lemma seal_inv_moved:
  assumes "seal_inv ok rank epoch offered b s" and "ok k'" and "epoch (c_keys (sy_ciphers s)) \<le> epoch k'"
    and "phase_ok rank (epoch k') offered (sy_slots s) p"
  shows "seal_inv ok rank epoch offered b (moved t p (sy_ciphers s\<lparr>c_keys := k'\<rparr>) s)"
  using assms phase_ok_mono [OF _ assms(3) subset_refl]
  by (auto simp: seal_inv_def counters_inv_def slots_inv_def moved_def Let_def intro: order_trans)

lemma seal_inv_keys:
  assumes "seal_inv ok rank epoch offered b s" and "ok k'" and "epoch (c_keys (sy_ciphers s)) \<le> epoch k'"
  shows "seal_inv ok rank epoch offered b (s\<lparr>sy_ciphers := sy_ciphers s\<lparr>c_keys := k'\<rparr>\<rparr>)"
  using seal_inv_moved [OF assms, of "sy_threads s t" t for t] phase_ok_mono [OF _ assms(3) subset_refl] assms(1)
  by (auto simp: seal_inv_def moved_def)

text \<open>Another thread caches a cipher for opening.\<close>

lemma counters_inv_alloc:
  assumes "counters_inv b s" and "alloc d (sy_ciphers s) = (a, c)"
  shows "counters_inv b (s\<lparr>sy_ciphers := c\<rparr>)"
proof -
  have "calls (length (c_heap (sy_ciphers s))) (sy_log s) = 0"
    using assms(1) by (fastforce simp: counters_inv_def Let_def calls_def filter_empty_conv)
  then show ?thesis
    using assms by (auto simp: counters_inv_def Let_def alloc_def cipher_with_budget_def nth_append less_Suc_eq)
qed


lemma seal_inv_cached:
  assumes "seal_inv ok rank epoch offered b s" and "install_by_id i d (sy_ciphers s) = (a, c)"
  shows "seal_inv ok rank epoch offered b (s\<lparr>sy_ciphers := c\<rparr>)"
proof -
  obtain a' c' where al: "alloc d (sy_ciphers s) = (a', c')" by force
  have c: "c_keys c = c_keys (sy_ciphers s)" "c_active c = c_active (sy_ciphers s)"
    "c_heap c = c_heap c'" "c_budget c = c_budget c'"
    using assms(2) al by (auto simp: install_by_id_def alloc_def split: option.splits)
  have "counters_inv b (s\<lparr>sy_ciphers := c'\<rparr>)"
    using assms(1) al counters_inv_alloc by (auto simp: seal_inv_def)
  then have "counters_inv b (s\<lparr>sy_ciphers := c\<rparr>)"
    by (simp add: counters_inv_def Let_def c)
  then show ?thesis using assms(1) by (simp add: seal_inv_def slots_inv_def c)
qed

text \<open>A fresh cipher is put in the active slot.\<close>

lemma seal_inv_pushed:
  assumes "seal_inv ok rank epoch offered b s" and "alloc d (sy_ciphers s) = (a, c)"
    and "offered i" and "rank i \<le> epoch (c_keys (sy_ciphers s))"
    and "\<forall>p \<in> set (sy_slots s). rank (fst p) < rank i"
  shows "seal_inv ok rank epoch offered b
    (s\<lparr>sy_slots := (i, a) # sy_slots s, sy_ciphers := c\<lparr>c_active := Some (i, a)\<rparr>\<rparr>)"
proof -
  have c: "c_keys c = c_keys (sy_ciphers s)" "a < length (c_heap c)"
    using assms(2) by (auto simp: alloc_def)
  have "counters_inv b (s\<lparr>sy_ciphers := c\<rparr>)"
    using assms(1,2) counters_inv_alloc by (auto simp: seal_inv_def)
  then have "counters_inv b (s\<lparr>sy_slots := (i, a) # sy_slots s, sy_ciphers := c\<lparr>c_active := Some (i, a)\<rparr>\<rparr>)"
    using c(2) by (auto simp: counters_inv_def Let_def)
  moreover have "phase_ok rank now offered ((i, a) # sy_slots s) p"
    if "phase_ok rank now offered (sy_slots s) p" for p now
    using that by (rule phase_ok_mono) auto
  ultimately show ?thesis
    using assms(1,3-5) by (auto simp: seal_inv_def slots_inv_def c)
qed

lemma seal_inv_slot:
  assumes "seal_inv ok rank epoch offered b s" and "c_active (sy_ciphers s) = Some (i, a)"
  shows "(i, a) \<in> set (sy_slots s)" and "a < length (c_heap (sy_ciphers s))"
  using assms by (auto simp: seal_inv_def slots_inv_def counters_inv_def Let_def split: list.splits)

text \<open>The slot after the write-locked sections, and that the history records it.\<close>

lemma seal_inv_install:
  assumes "seal_inv ok rank epoch offered b s" and "offered i" and "rank i \<le> epoch (c_keys (sy_ciphers s))"
    and "install_active i d (sy_ciphers s) = ((j, a), c)"
  shows "seal_inv ok rank epoch offered b (note_slot (j, a) s\<lparr>sy_ciphers := c\<rparr>)"
    and "(j, a) \<in> set (sy_slots (note_slot (j, a) s))" and "c_keys c = c_keys (sy_ciphers s)"
proof -
  obtain a' c' where al: "alloc d (sy_ciphers s) = (a', c')" by force
  have "seal_inv ok rank epoch offered b (note_slot (j, a) s\<lparr>sy_ciphers := c\<rparr>)
    \<and> (j, a) \<in> set (sy_slots (note_slot (j, a) s)) \<and> c_keys c = c_keys (sy_ciphers s)"
  proof (cases "c_active (sy_ciphers s)")
    case None
    then have c: "(j, a) = (i, a')" "c = c'\<lparr>c_active := Some (i, a')\<rparr>" and empty: "sy_slots s = []"
      using assms(1,4) al by (auto simp: install_active_def seal_inv_def slots_inv_def split: list.splits)
    have "seal_inv ok rank epoch offered b
        (s\<lparr>sy_slots := (i, a') # sy_slots s, sy_ciphers := c'\<lparr>c_active := Some (i, a')\<rparr>\<rparr>)"
      using assms(1) al assms(2,3) by (rule seal_inv_pushed) (simp add: empty)
    then show ?thesis using c al by (auto simp: note_slot_def alloc_def)
  next
    case (Some p)
    then have "c = sy_ciphers s" "c_active (sy_ciphers s) = Some (j, a)"
      using assms(4) by (auto simp: install_active_def)
    then show ?thesis using assms(1) seal_inv_slot [OF assms(1)] by (auto simp: note_slot_def)
  qed
  then show "seal_inv ok rank epoch offered b (note_slot (j, a) s\<lparr>sy_ciphers := c\<rparr>)"
    and "(j, a) \<in> set (sy_slots (note_slot (j, a) s))" and "c_keys c = c_keys (sy_ciphers s)"
    by auto
qed

lemma seal_inv_roll_install:
  assumes "seal_inv ok rank epoch offered b s" and "old \<in> fst ` set (sy_slots s)" and "offered i"
    and "rank old < rank i" and "rank i \<le> epoch (c_keys (sy_ciphers s))"
    and "install_rolled old i d (sy_ciphers s) = ((j, a), c)"
  shows "seal_inv ok rank epoch offered b (note_slot (j, a) s\<lparr>sy_ciphers := c\<rparr>)"
    and "(j, a) \<in> set (sy_slots (note_slot (j, a) s))" and "c_keys c = c_keys (sy_ciphers s)"
proof -
  obtain a' c' where al: "alloc d (sy_ciphers s) = (a', c')" by force
  obtain p ps where slots: "sy_slots s = p # ps" using assms(2) by (cases "sy_slots s") auto
  have act: "c_active (sy_ciphers s) = Some p"
    and sorted: "\<forall>q \<in> set ps. rank (fst q) < rank (fst p)"
    using assms(1) slots by (auto simp: seal_inv_def slots_inv_def)
  have "seal_inv ok rank epoch offered b (note_slot (j, a) s\<lparr>sy_ciphers := c\<rparr>)
    \<and> (j, a) \<in> set (sy_slots (note_slot (j, a) s)) \<and> c_keys c = c_keys (sy_ciphers s)"
  proof (cases "fst p = old")
    case True
    then have c: "(j, a) = (i, a')" "c = c'\<lparr>c_active := Some (i, a')\<rparr>"
      using assms(6) al act by (auto simp: install_rolled_def Let_def split: prod.splits)
    have "\<forall>q \<in> set (sy_slots s). rank (fst q) < rank i"
      using slots sorted True assms(4) by auto
    with assms(1) al assms(3,5) have "seal_inv ok rank epoch offered b
        (s\<lparr>sy_slots := (i, a') # sy_slots s, sy_ciphers := c'\<lparr>c_active := Some (i, a')\<rparr>\<rparr>)"
      by (rule seal_inv_pushed)
    then show ?thesis using c al by (auto simp: note_slot_def alloc_def)
  next
    case False
    then have "c = sy_ciphers s" "c_active (sy_ciphers s) = Some (j, a)"
      using assms(6) act by (auto simp: install_rolled_def Let_def split: prod.splits)
    then show ?thesis using assms(1) seal_inv_slot [OF assms(1)] by (auto simp: note_slot_def)
  qed
  then show "seal_inv ok rank epoch offered b (note_slot (j, a) s\<lparr>sy_ciphers := c\<rparr>)"
    and "(j, a) \<in> set (sy_slots (note_slot (j, a) s))" and "c_keys c = c_keys (sy_ciphers s)"
    by auto
qed


text \<open>An invocation is charged.\<close>

lemma calls_Cons [simp]: "calls a ((c, i, p) # log) = (if c = a then Suc (calls a log) else calls a log)"
  by (simp add: calls_def)

lemma admitted_Cons [simp]:
  "admitted a ((c, i, p) # log) = (if c = a \<and> p then Suc (admitted a log) else admitted a log)"
  by (simp add: admitted_def)

lemma calls_le: "calls a log \<le> length log"
  by (simp add: calls_def)

lemma encrypt_at_charges:
  assumes "encrypt_at x a i bnd pt s = (r, c)"
  shows "\<exists>n. c = charged a n s"
    and "(c_draws c \<noteq> c_draws s \<or> (case r of Ok _ \<Rightarrow> True | Err _ \<Rightarrow> False)) = (used (c_heap s ! a) < budget (c_heap s ! a))"
proof -
  show "\<exists>n. c = charged a n s"
    using assms by (cases rule: encrypt_at_cases) blast+
  show "(c_draws c \<noteq> c_draws s \<or> (case r of Ok _ \<Rightarrow> True | Err _ \<Rightarrow> False)) = (used (c_heap s ! a) < budget (c_heap s ! a))"
    using assms by (cases rule: encrypt_at_cases) (simp_all add: charged_def)
qed

lemma counters_inv_charged:
  assumes "counters_inv b s" and "(i, a) \<in> set (sy_slots s)" and enc: "encrypt_at x a i bnd pt (sy_ciphers s) = (r, c)"
  shows "counters_inv b (note_charge a i r c s\<lparr>sy_ciphers := c\<rparr>)"
proof -
  let ?c = "c_heap (sy_ciphers s) ! a" and ?log = "sy_log s"
  have a: "a < length (c_heap (sy_ciphers s))" and c: "budget ?c = b" "used ?c = of_nat (calls a ?log)"
    using assms by (auto simp: counters_inv_def Let_def)
  have "used ?c < budget ?c \<longleftrightarrow> calls a ?log < unat b" if "length ?log < 2 ^ 64"
    using that calls_le [of a ?log] c by (simp add: word_less_nat_alt unat_of_nat)
  then have "\<forall>a'. admitted a' ((a, i, used ?c < budget ?c) # ?log) =
      min (calls a' ((a, i, used ?c < budget ?c) # ?log)) (unat b)" if "Suc (length ?log) \<le> 2 ^ 64"
    using that assms(1) by (auto simp: counters_inv_def Let_def min_def)
  moreover obtain n where "c = charged a n (sy_ciphers s)" using encrypt_at_charges(1) [OF enc] by blast
  ultimately show ?thesis
    using assms(1,2) a unfolding note_charge_def encrypt_at_charges(2) [OF enc]
    by (auto simp: counters_inv_def Let_def charged_nth)
qed

lemma seal_inv_charged:
  assumes "seal_inv ok rank epoch offered b s" and "(i, a) \<in> set (sy_slots s)"
    and "encrypt_at x a i b' pt (sy_ciphers s) = (r, c)"
  shows "seal_inv ok rank epoch offered b (note_charge a i r c s\<lparr>sy_ciphers := c\<rparr>)"
    and "c_keys c = c_keys (sy_ciphers s)"
proof -
  obtain n where c: "c = charged a n (sy_ciphers s)" using encrypt_at_charges(1) [OF assms(3)] by blast
  have "counters_inv b (note_charge a i r c s\<lparr>sy_ciphers := c\<rparr>)"
    using assms(1) by (intro counters_inv_charged [OF _ assms(2,3)]) (simp add: seal_inv_def)
  then show "seal_inv ok rank epoch offered b (note_charge a i r c s\<lparr>sy_ciphers := c\<rparr>)"
    and "c_keys c = c_keys (sy_ciphers s)"
    using assms(1) by (auto simp: seal_inv_def slots_inv_def note_charge_def c)
qed

lemma seal_inv_thread:
  assumes "seal_inv ok rank epoch offered b (s\<lparr>sy_ciphers := c\<rparr>)"
    and "phase_ok rank (epoch (c_keys c)) offered (sy_slots s) p"
  shows "seal_inv ok rank epoch offered b (moved t p c s)"
  using assms by (simp add: seal_inv_def counters_inv_def slots_inv_def moved_def)

lemma note_simps [simp]:
  "sy_threads (note_slot sl s) = sy_threads s" "sy_threads (note_charge a i r c s) = sy_threads s"
  "sy_slots (note_charge a i r c s) = sy_slots s" "sy_ciphers (note_slot sl s) = sy_ciphers s"
  "sy_ciphers (note_charge a i r c s) = sy_ciphers s"
  by (simp_all add: note_slot_def note_charge_def Let_def)

context rotating_source
begin

lemma seal_inv_asked:
  assumes inv: "seal_inv ok rank epoch offered b s" and a: "ask (ks_active_key ks) (sy_ciphers s) = (r, c)"
  obtains k' where "c = sy_ciphers s\<lparr>c_keys := k'\<rparr>" "ok k'" "epoch (c_keys (sy_ciphers s)) \<le> epoch k'"
    "\<And>i d. r = Ok (i, d) \<Longrightarrow> offered i \<and> epoch (c_keys (sy_ciphers s)) \<le> rank i \<and> rank i \<le> epoch k'"
proof -
  obtain k' where k': "ks_active_key ks (c_keys (sy_ciphers s)) = (r, k')" "c = sy_ciphers s\<lparr>c_keys := k'\<rparr>"
    using a by (auto simp: ask_Pair)
  have "ok (c_keys (sy_ciphers s))" using inv by (simp add: seal_inv_def slots_inv_def)
  then show thesis
    using that [of k'] k' ok_active active_epoch active_offered by blast
qed

lemma seal_inv_step:
  assumes "seal_inv ok rank epoch offered b s" and "seal_step x ks s s'"
  shows "seal_inv ok rank epoch offered b s'"
proof -
  have now: "ok (c_keys (sy_ciphers s))" using assms(1) by (simp add: seal_inv_def slots_inv_def)
  show ?thesis using assms(2,1)
  proof (cases rule: seal_step.cases)
    case (call t r b' pt)
    then show ?thesis using assms(1) by (auto intro!: seal_inv_thread)
  next
    case (hit t b' pt i a)
    then show ?thesis using assms(1) seal_inv_slot by (auto intro!: seal_inv_thread)
  next
    case (miss t b' pt)
    then show ?thesis using assms(1) by (auto intro!: seal_inv_thread)
  next
    case (asked t b' pt i d c)
    with seal_inv_asked [OF assms(1) asked(3)] show ?thesis
      using seal_inv_moved [OF assms(1)] by (metis phase_ok.simps(1))
  next
    case (ask_failed t b' pt e c)
    with seal_inv_asked [OF assms(1) ask_failed(3)] show ?thesis
      using seal_inv_moved [OF assms(1)] by (metis phase_ok.simps(9))
  next
    case (install t b' pt i d j a c)
    then have "offered i" "rank i \<le> epoch (c_keys (sy_ciphers s))"
      using assms(1) by (metis phase_ok.simps(1) seal_inv_def)+
    note ins = seal_inv_install [OF assms(1) this install(3)]
    then show ?thesis unfolding install(1) by (intro seal_inv_thread) simp_all
  next
    case (encrypted t b' pt i a r c)
    then have "(i, a) \<in> set (sy_slots s)"
      using assms(1) by (metis phase_ok.simps(2) seal_inv_def)
    note ch = seal_inv_charged [OF assms(1) this encrypted(3)]
    then show ?thesis unfolding encrypted(1) by (intro seal_inv_thread) simp_all
  next
    case (spent t b' pt i a h c)
    then have i: "(i, a) \<in> set (sy_slots s)"
      using assms(1) by (metis phase_ok.simps(2) seal_inv_def)
    note ch = seal_inv_charged [OF assms(1) this spent(3)]
    then show ?thesis unfolding spent(1) using i by (intro seal_inv_thread) force+
  next
    case (roll_asked t b' pt old i d c)
    then have old: "old \<in> fst ` set (sy_slots s)"
      using assms(1) by (metis phase_ok.simps(3) seal_inv_def)
    then have old': "offered old" "rank old \<le> epoch (c_keys (sy_ciphers s))"
      using assms(1) by (auto simp: seal_inv_def slots_inv_def)
    from seal_inv_asked [OF assms(1) roll_asked(3)] obtain k' where
      k': "c = sy_ciphers s\<lparr>c_keys := k'\<rparr>" "ok k'" "epoch (c_keys (sy_ciphers s)) \<le> epoch k'"
      and i: "offered i" "epoch (c_keys (sy_ciphers s)) \<le> rank i" "rank i \<le> epoch k'"
      by metis
    have "rank old \<noteq> rank i" using rank_inject old'(1) i(1) roll_asked(4) by blast
    then have "phase_ok rank (epoch k') offered (sy_slots s) (RollInstalling b' pt old i d)"
      using old old'(2) i by simp
    then show ?thesis unfolding roll_asked(1) k'(1) using seal_inv_moved [OF assms(1) k'(2,3)] by blast
  next
    case (roll_same t b' pt old d c)
    with seal_inv_asked [OF assms(1) roll_same(3)] show ?thesis
      using seal_inv_moved [OF assms(1)] by (metis phase_ok.simps(9))
  next
    case (roll_failed t b' pt old e c)
    with seal_inv_asked [OF assms(1) roll_failed(3)] show ?thesis
      using seal_inv_moved [OF assms(1)] by (metis phase_ok.simps(9))
  next
    case (roll_install t b' pt old i d j a c)
    then have "old \<in> fst ` set (sy_slots s)" "offered i" "rank old < rank i" "rank i \<le> epoch (c_keys (sy_ciphers s))"
      using assms(1) by (metis phase_ok.simps(4) seal_inv_def)+
    note ins = seal_inv_roll_install [OF assms(1) this roll_install(3)]
    then show ?thesis unfolding roll_install(1) by (intro seal_inv_thread) simp_all
  next
    case (last_encrypted t b' pt i a r c)
    then have "(i, a) \<in> set (sy_slots s)"
      using assms(1) by (metis phase_ok.simps(5) seal_inv_def)
    note ch = seal_inv_charged [OF assms(1) this last_encrypted(3)]
    then show ?thesis unfolding last_encrypted(1) by (intro seal_inv_thread) simp_all
  next
    case (look_up i r c)
    then show ?thesis
      using seal_inv_keys [OF assms(1)] ok_key [OF now] key_epoch [OF now] by (auto simp: ask_Pair)
  next
    case (look_up_index nm r c)
    then show ?thesis
      using seal_inv_keys [OF assms(1)] ok_index [OF now] index_epoch [OF now] by (auto simp: ask_Pair)
  next
    case (cache i k d a c)
    then show ?thesis using seal_inv_cached [OF assms(1)] by blast
  qed
qed


end

text \<open>The system with its invariant, for every lawful rotating source.\<close>

sublocale rotating_source \<subseteq> sealing: invariant_system "seal_ini ok b" "seal_step x ks"
    "seal_inv ok rank epoch offered b" for x b
  by unfold_locales (auto intro: seal_inv_ini seal_inv_step)

context rotating_source
begin

lemma seal_invariant_system:
  "invariant_system (seal_ini ok b) (seal_step x ks) (seal_inv ok rank epoch offered b)"
  by (rule sealing.invariant_system_axioms)

end

text \<open>
  The strictly increasing ranks of the slots make the cipher of a key id unique, so all the
  invocations under a key id were charged to one counter.
\<close>

lemma slots_unique:
  assumes "slots_inv ok rank epoch offered s" and "(i, a) \<in> set (sy_slots s)" and "(i, a') \<in> set (sy_slots s)"
  shows "a = a'"
proof -
  have "p = q" if "p \<in> set ps" "q \<in> set ps" "fst p = fst q"
    and "sorted_wrt (\<lambda>p q. rank (fst q) < rank (fst p)) ps" for p q :: "key_id \<times> nat" and ps
    using that by (induction ps) auto
  from this [of "(i, a)" "sy_slots s" "(i, a')"] assms show ?thesis
    by (simp add: slots_inv_def)
qed

lemma admitted_per_key:
  assumes "seal_inv ok rank epoch offered b s" and "length (sy_log s) \<le> 2 ^ 64"
  shows "length (filter (\<lambda>(a, j, p). j = i \<and> p) (sy_log s)) \<le> unat b"
proof (cases "\<exists>a. (i, a) \<in> set (sy_slots s)")
  case True
  then obtain a where a: "(i, a) \<in> set (sy_slots s)" by blast
  have log: "\<forall>(c, j, p) \<in> set (sy_log s). (j, c) \<in> set (sy_slots s)"
    using assms(1) by (simp add: seal_inv_def counters_inv_def Let_def)
  have "filter (\<lambda>(c, j, p). j = i \<and> p) (sy_log s) = filter (\<lambda>(c, j, p). j = i \<and> c = a \<and> p) (sy_log s)"
    using log slots_unique [OF _ a] assms(1) by (intro filter_cong) (auto simp: seal_inv_def)
  also have "length \<dots> \<le> length (filter (\<lambda>(c, j, p). c = a \<and> p) (sy_log s))"
  proof -
    have "filter (\<lambda>(c, j, p). j = i \<and> c = a \<and> p) (sy_log s) =
        filter (\<lambda>(c, j, p). j = i) (filter (\<lambda>(c, j, p). c = a \<and> p) (sy_log s))"
      unfolding filter_filter by (rule filter_cong) auto
    then show ?thesis by (simp only: length_filter_le)
  qed
  also have "\<dots> \<le> unat b"
    using assms by (auto simp: seal_inv_def counters_inv_def Let_def admitted_def)
  finally show ?thesis .
next
  case False
  have "filter (\<lambda>(a, j, p). j = i \<and> p) (sy_log s) = []"
    using False assms(1) by (fastforce simp: filter_empty_conv seal_inv_def counters_inv_def Let_def)
  then show ?thesis by simp
qed



section \<open>The sequential method is a run\<close>

lemma reach_steps: "(step\<^sup>*\<^sup>*) s t \<Longrightarrow> reach ini step s \<Longrightarrow> reach ini step t"
  by (induction rule: rtranclp_induct) (auto intro: reach_step)

lemma moved_simps [simp]:
  "sy_ciphers (moved t p c s) = c" "sy_threads (moved t p c s) t = p"
  "sy_log (moved t p c s) = sy_log s"
  by (simp_all add: moved_def)

lemma note_log [simp]:
  "sy_log (note_slot sl s) = sy_log s" "length (sy_log (note_charge a i r c s)) = Suc (length (sy_log s))"
  by (simp_all add: note_slot_def note_charge_def Let_def)

text \<open>\<open>Ciphers::active\<close> without interference.\<close>

lemma active_runs:
  assumes "sy_threads s t = Reading b pt" and "ciphers_active ks (sy_ciphers s) = (q, c)"
  shows "\<exists>s'. (seal_step x ks)\<^sup>*\<^sup>* s s' \<and> sy_ciphers s' = c \<and> sy_log s' = sy_log s
    \<and> sy_threads s' t = (case q of Err e \<Rightarrow> Returned (Err e) | Ok (i, a) \<Rightarrow> Encrypting b pt i a)"
proof (cases "c_active (sy_ciphers s)")
  case (Some slot)
  then have "q = Ok slot" "c = sy_ciphers s" using assms(2) by (auto simp: ciphers_active_def)
  then show ?thesis
    using Some seal_step.hit [OF assms(1), of "fst slot" "snd slot"]
    by (intro exI [of _ "moved t (Encrypting b pt (fst slot) (snd slot)) (sy_ciphers s) s"])
      (auto split: prod.splits)
next
  case None
  let ?s1 = "moved t (Asking b pt) (sy_ciphers s) s"
  have s1: "seal_step x ks s ?s1" by (rule seal_step.miss [OF assms(1) None])
  from assms(2) None have "comp_bind (ask (ks_active_key ks))
      (\<lambda>(i, d) s. case install_active i d s of (slot, s') \<Rightarrow> (Ok slot, s')) (sy_ciphers s) = (q, c)"
    by (simp add: ciphers_active_def)
  then show ?thesis
  proof (cases rule: comp_bindE)
    case (err e)
    have "seal_step x ks ?s1 (moved t (Returned (Err e)) c ?s1)"
      by (rule seal_step.ask_failed) (simp_all add: err)
    with s1 err(2) show ?thesis
      by (intro exI [of _ "moved t (Returned (Err e)) c ?s1"])
        (auto intro: converse_rtranclp_into_rtranclp)
  next
    case (ok p c1)
    obtain i d where p: "p = (i, d)" by force
    obtain j a where ins: "install_active i d c1 = ((j, a), c)" and q: "q = Ok (j, a)"
      using ok(2) p by (auto split: prod.splits)
    let ?s2 = "moved t (Installing b pt i d) c1 ?s1"
    let ?s3 = "moved t (Encrypting b pt j a) c (note_slot (j, a) ?s2)"
    have "seal_step x ks ?s1 ?s2" by (rule seal_step.asked) (use ok(1) p in simp_all)
    moreover have "seal_step x ks ?s2 ?s3" by (rule seal_step.install) (use ins in simp_all)
    ultimately have "(seal_step x ks)\<^sup>*\<^sup>* s ?s3"
      using s1 by (meson converse_rtranclp_into_rtranclp rtranclp.rtrancl_refl)
    then show ?thesis using q by (intro exI [of _ ?s3]) simp
  qed
qed

text \<open>\<open>roll_active\<close> and the second attempt, without interference.\<close>

lemma roll_runs:
  assumes "sy_threads s t = Rolling b pt old"
    and "comp_bind (roll_active x ks old) (\<lambda>(i, a). encrypt_at x a i b pt) (sy_ciphers s) = (r, c)"
  shows "\<exists>s'. (seal_step x ks)\<^sup>*\<^sup>* s s' \<and> sy_ciphers s' = c \<and> length (sy_log s') \<le> Suc (length (sy_log s))
    \<and> sy_threads s' t = Returned r"
proof -
  obtain q c1 where q: "ask (ks_active_key ks) (sy_ciphers s) = (q, c1)" by force
  show ?thesis
  proof (cases q)
    case (Inl e)
    have "seal_step x ks s (moved t (Returned (Err e)) c1 s)"
      by (rule seal_step.roll_failed) (use assms q Inl in simp_all)
    then show ?thesis using assms(2) q Inl
      by (intro exI [of _ "moved t (Returned (Err e)) c1 s"]) (auto simp: roll_active_def)
  next
    case (Inr p)
    obtain i d where p: "p = (i, d)" by force
    show ?thesis
    proof (cases "i = old")
      case True
      let ?p = "Returned (Err (KeyExhausted (x_hex_encode x old)))"
      have "seal_step x ks s (moved t ?p c1 s)"
        by (rule seal_step.roll_same) (use assms q Inr p True in simp_all)
      then show ?thesis using assms(2) q Inr p True
        by (intro exI [of _ "moved t ?p c1 s"]) (auto simp: roll_active_def comp_bind_def)
    next
      case False
      obtain j a c2 where ins: "install_rolled old i d c1 = ((j, a), c2)" by (metis surj_pair)
      have enc: "encrypt_at x a j b pt c2 = (r, c)"
        using assms(2) q Inr p False ins by (simp add: roll_active_def comp_bind_def)
      let ?s1 = "moved t (RollInstalling b pt old i d) c1 s"
      let ?s2 = "moved t (LastEncrypting b pt j a) c2 (note_slot (j, a) ?s1)"
      let ?s3 = "moved t (Returned r) c (note_charge a j r c ?s2)"
      have "seal_step x ks s ?s1" by (rule seal_step.roll_asked) (use assms q Inr p False in simp_all)
      moreover have "seal_step x ks ?s1 ?s2" by (rule seal_step.roll_install) (use ins in simp_all)
      moreover have "seal_step x ks ?s2 ?s3" by (rule seal_step.last_encrypted) (use enc in simp_all)
      ultimately have "(seal_step x ks)\<^sup>*\<^sup>* s ?s3"
        by (meson converse_rtranclp_into_rtranclp rtranclp.rtrancl_refl)
      then show ?thesis by (intro exI [of _ ?s3]) simp
    qed
  qed
qed

text \<open>
  C8. The transition system is the code: a call of \<open>Ciphers::seal\<close> that no other thread
  interrupts is one of its runs, from the call to the same result and the same cache.
\<close>

theorem seal_is_a_run:
  assumes "sy_threads s t = Reading b pt" and "ciphers_seal x ks b pt (sy_ciphers s) = (r, c)"
  shows "\<exists>s'. (seal_step x ks)\<^sup>*\<^sup>* s s' \<and> sy_ciphers s' = c \<and> length (sy_log s') \<le> length (sy_log s) + 2
    \<and> sy_threads s' t = Returned r"
proof -
  obtain q c1 where q: "ciphers_active ks (sy_ciphers s) = (q, c1)" by force
  obtain s1 where s1: "(seal_step x ks)\<^sup>*\<^sup>* s s1" "sy_ciphers s1 = c1" "sy_log s1 = sy_log s"
    and ph: "sy_threads s1 t = (case q of Err e \<Rightarrow> Returned (Err e) | Ok (i, a) \<Rightarrow> Encrypting b pt i a)"
    using active_runs [OF assms(1) q] by blast
  show ?thesis
  proof (cases q)
    case (Inl e)
    then show ?thesis using assms(2) q s1 ph by (intro exI [of _ s1]) (auto simp: ciphers_seal_def)
  next
    case (Inr p)
    obtain i a where p: "p = (i, a)" by force
    obtain r1 c2 where enc: "encrypt_at x a i b pt c1 = (r1, c2)" by force
    have at: "sy_threads s1 t = Encrypting b pt i a" using ph Inr p by simp
    show ?thesis
    proof (cases "\<exists>h. r1 = Err (KeyExhausted h)")
      case True
      then obtain h where h: "r1 = Err (KeyExhausted h)" by blast
      let ?s2 = "moved t (Rolling b pt i) c2 (note_charge a i r1 c2 s1)"
      have s2: "seal_step x ks s1 ?s2" unfolding h by (rule seal_step.spent) (use at enc s1(2) h in simp_all)
      have "comp_bind (roll_active x ks i) (\<lambda>(i, a). encrypt_at x a i b pt) (sy_ciphers ?s2) = (r, c)"
        using assms(2) q Inr p enc h by (simp add: ciphers_seal_def)
      then obtain s' where "(seal_step x ks)\<^sup>*\<^sup>* ?s2 s'" "sy_ciphers s' = c"
        "length (sy_log s') \<le> Suc (length (sy_log ?s2))" "sy_threads s' t = Returned r"
        using roll_runs [of ?s2 t b pt i x ks r c] by auto
      moreover from this(1) s1(1) s2 have "(seal_step x ks)\<^sup>*\<^sup>* s s'"
        by (meson converse_rtranclp_into_rtranclp rtranclp_trans)
      ultimately show ?thesis using s1(3) by auto
    next
      case False
      then have "r1 = r" "c2 = c"
        using assms(2) q Inr p enc by (auto simp: ciphers_seal_def split: sum.splits core_error.splits)
      then have "seal_step x ks s1 (moved t (Returned r) c (note_charge a i r c s1))"
        using False by (intro seal_step.encrypted) (use at enc s1(2) in simp_all)
      then show ?thesis using s1
        by (intro exI [of _ "moved t (Returned r) c (note_charge a i r c s1)"]) (auto intro: rtranclp.rtrancl_into_rtrancl)
    qed
  qed
qed


text \<open>A run over the sample keyfile: one thread seals one value.\<close>

definition sample_sys :: "file_key_source sys" where
  "sample_sys = \<lparr>sy_ciphers = ciphers_new sample_file, sy_threads = (\<lambda>_. Idle), sy_log = [], sy_slots = []\<rparr>"

abbreviation sample_ok :: "file_key_source \<Rightarrow> bool" where
  "sample_ok \<equiv> \<lambda>k. k = sample_file \<and> fks_wf sample_file"

lemma sample_sys_ini: "seal_ini sample_ok MAX_ENCRYPTIONS_PER_KEY sample_sys"
  by (simp add: seal_ini_def sample_sys_def ciphers_new_def sample_file_wf)

lemma sample_active:
  "\<exists>c. ciphers_active (file_source x) (ciphers_new sample_file) = (Ok (sample_id, 0), c)
     \<and> c_heap c = [cipher_new sample_key]"
  by (simp add: ciphers_active_def ciphers_new_def ciphers_with_budget_def comp_bind_def ask_def
      file_source_def fks_active_key_def sample_file_def install_active_def alloc_def cipher_new_def)

text \<open>The same system with a call of thread 0 pending.\<close>

definition sample_called :: "file_key_source sys" where
  "sample_called = moved 0 (Reading (binding_cell sample_column) [9]) (sy_ciphers sample_sys) sample_sys"

lemma sample_called_reached:
  "reach (seal_ini sample_ok MAX_ENCRYPTIONS_PER_KEY) (seal_step x (file_source x)) sample_called"
proof (rule reach_step)
  show "reach (seal_ini sample_ok MAX_ENCRYPTIONS_PER_KEY) (seal_step x (file_source x)) sample_sys"
    by (rule reach_ini) (rule sample_sys_ini)
  show "seal_step x (file_source x) sample_sys sample_called"
    unfolding sample_called_def by (rule seal_step.call) (simp add: sample_sys_def)
qed

theorem seal_is_a_run_witness:
  "\<exists>r c s'. ciphers_seal sample (file_source sample) (binding_cell sample_column) [9] (sy_ciphers sample_called) = (r, c)
     \<and> (seal_step sample (file_source sample))\<^sup>*\<^sup>* sample_called s' \<and> sy_ciphers s' = c
     \<and> sy_threads s' 0 = Returned r"
proof -
  obtain r c where rc: "ciphers_seal sample (file_source sample) (binding_cell sample_column) [9]
      (sy_ciphers sample_called) = (r, c)"
    by force
  have "sy_threads sample_called 0 = Reading (binding_cell sample_column) [9]"
    by (simp add: sample_called_def)
  from seal_is_a_run [OF this rc] rc show ?thesis by blast
qed

text \<open>
  C7. No data key is ever used past its budget, whatever the threads do. In every reachable
  state the number of calls that encrypted under one key id (they drew a nonce or returned an
  envelope) is at most the budget (2 to the 32 by default), over all ciphers built for it and all columns, as long as fewer than 2 to the 64
  encryptions were attempted and the key source does not return to a key it rotated away from.
\<close>

theorem key_budget_respected:
  assumes "rotating_source ks ok dek ikey rank epoch offered"
    and "reach (seal_ini ok b) (seal_step x ks) s" and "length (sy_log s) \<le> 2 ^ 64"
  shows "length (filter (\<lambda>(a, j, p). j = i \<and> p) (sy_log s)) \<le> unat b"
  using invariant_system.reach_inv [OF rotating_source.seal_invariant_system [OF assms(1)] assms(2)] assms(3)
  by (rule admitted_per_key)

theorem key_budget_respected_witness:
  "\<exists>s. reach (seal_ini sample_ok MAX_ENCRYPTIONS_PER_KEY) (seal_step sample (file_source sample)) s
     \<and> length (sy_log s) = 1
     \<and> length (filter (\<lambda>(a, j, p). j = sample_id \<and> p) (sy_log s)) \<le> unat MAX_ENCRYPTIONS_PER_KEY"
proof -
  let ?b = "binding_cell sample_column" and ?f = "file_source sample"
  obtain c where c: "ciphers_active ?f (sy_ciphers sample_called) = (Ok (sample_id, 0), c)"
    "c_heap c = [cipher_new sample_key]"
    using sample_active by (auto simp: sample_called_def sample_sys_def)
  have "sy_threads sample_called 0 = Reading ?b [9]" by (simp add: sample_called_def)
  from active_runs [OF this c(1)] obtain s1 where s1: "(seal_step sample ?f)\<^sup>*\<^sup>* sample_called s1"
    "sy_ciphers s1 = c" "sy_log s1 = sy_log sample_called" "sy_threads s1 0 = Encrypting ?b [9] sample_id 0"
    by auto
  obtain r c2 where enc: "encrypt_at sample 0 sample_id ?b [9] (sy_ciphers s1) = (r, c2)" by force
  let ?s = "moved 0 (Returned r) c2 (note_charge 0 sample_id r c2 s1)"
  have "\<forall>h. r \<noteq> Err (KeyExhausted h)"
    using enc by (auto simp: s1(2) c(2) encrypt_at_def cipher_encrypt_def cipher_new_def
        cipher_with_budget_def MAX_ENCRYPTIONS_PER_KEY_def seal_with_def binding_cell_def)
  then have "seal_step sample ?f s1 ?s"
    by (intro seal_step.encrypted [OF s1(4) enc])
  then have reach: "reach (seal_ini sample_ok MAX_ENCRYPTIONS_PER_KEY) (seal_step sample ?f) ?s"
    using reach_step reach_steps [OF s1(1) sample_called_reached] by metis
  have len: "length (sy_log ?s) = 1"
    by (simp add: s1(3)) (simp add: sample_called_def sample_sys_def)
  then have "length (sy_log ?s) \<le> 2 ^ 64" by simp
  from key_budget_respected [OF fks_fixed.rotating_source_axioms reach this] len reach
  show ?thesis by blast
qed

end
