(* ===== verification/RowKeys.thy ===== *)
theory RowKeys
  imports Envelope
begin

text \<open>
  Canonical row keys (\<open>crates/core/src/rowkey.rs\<close>) and the conversions of
  \<open>crates/core/src/record.rs\<close>. A row key is bound into envelopes, so the text and the binary
  rendering of one key, and every spelling PostgreSQL accepts for it, must give the same bytes.
\<close>

section \<open>Types and formats\<close>

definition INT8 :: u32 where
  "INT8 = 20"

definition INT2 :: u32 where
  "INT2 = 21"

definition INT4 :: u32 where
  "INT4 = 23"

definition TEXT :: u32 where
  "TEXT = 25"

definition VARCHAR :: u32 where
  "VARCHAR = 1043"

definition UUID :: u32 where
  "UUID = 2950"

datatype format = Text | Binary

definition supported :: "u32 \<Rightarrow> bool" where
  "supported type_oid = (type_oid \<in> set [INT2, INT4, INT8, TEXT, VARCHAR, UUID])"


section \<open>Canonicalisation\<close>

text \<open>\<open>utf8\<close>: the characters of the value. The string's bytes are the value itself.\<close>

definition key_utf8 :: "bytes \<Rightarrow> core_error + rchar list" where
  "key_utf8 b = ok_or (utf8_decode b) (RowKeyType KeyNotUtf8)"

text \<open>\<open>integer_text\<close> at the signed type of the given number of bits.\<close>

definition integer_text :: "nat \<Rightarrow> bytes \<Rightarrow> core_error + bytes" where
  "integer_text bits b =
     res_bind (key_utf8 b) (\<lambda>text.
       case parse_int (- (2 ^ (bits - 1))) (2 ^ (bits - 1) - 1) (trim text) of
         Some n \<Rightarrow> Ok (dec_of n)
       | None \<Rightarrow> Err (RowKeyType (KeyNotInteger b)))"

definition hyphenated :: "bytes \<Rightarrow> bytes" where
  "hyphenated h =
     take 8 h @ [45] @ take 4 (drop 8 h) @ [45] @ take 4 (drop 12 h) @ [45] @ take 4 (drop 16 h)
     @ [45] @ drop 20 h"

text \<open>The loop of \<open>uuid_from_text\<close>; 45 is \<open>'-'\<close>, 123 and 125 the braces.\<close>

fun uuid_hex :: "rchar list \<Rightarrow> rchar list option" where
  "uuid_hex [] = Some []"
| "uuid_hex (ch # r) =
     (if ch = 45 then uuid_hex r
      else if \<not> is_hexdigit_char ch then None
      else map_option ((#) (lower_char ch)) (uuid_hex r))"

definition unbraced :: "rchar list \<Rightarrow> rchar list" where
  "unbraced inner =
     (case strip_prefix [123] inner of
        None \<Rightarrow> inner
      | Some rest \<Rightarrow> (case strip_suffix [125] rest of None \<Rightarrow> [] | Some body \<Rightarrow> body))"

definition uuid_from_text :: "bytes \<Rightarrow> core_error + bytes" where
  "uuid_from_text b =
     res_bind (key_utf8 b) (\<lambda>text.
     res_bind (ok_or (uuid_hex (unbraced (trim text))) (RowKeyType (KeyNotUuid b))) (\<lambda>h.
       if length h \<noteq> 32 then Err (RowKeyType (KeyNotUuid b))
       else Ok (hyphenated (utf8_encode h))))"

definition fixed :: "nat \<Rightarrow> bytes \<Rightarrow> core_error + bytes" where
  "fixed n b = (if length b = n then Ok b else Err (RowKeyType (KeyWidth (length b) n)))"

definition canonical :: "externs \<Rightarrow> u32 \<Rightarrow> format \<Rightarrow> bytes option \<Rightarrow> core_error + row_key" where
  "canonical x type_oid fmt value =
     res_bind (ok_or value (RowKeyType KeyIsNull)) (\<lambda>b.
       if type_oid = INT2 \<and> fmt = Text then integer_text 16 b
       else if type_oid = INT4 \<and> fmt = Text then integer_text 32 b
       else if type_oid = INT8 \<and> fmt = Text then integer_text 64 b
       else if type_oid = UUID \<and> fmt = Text then uuid_from_text b
       else if type_oid = TEXT \<or> type_oid = VARCHAR then map_ok (\<lambda>_. b) (key_utf8 b)
       else if type_oid = INT2 \<and> fmt = Binary then map_ok (\<lambda>w. dec_of (sint (be_word w :: i16))) (fixed 2 b)
       else if type_oid = INT4 \<and> fmt = Binary then map_ok (\<lambda>w. dec_of (sint (be_word w :: i32))) (fixed 4 b)
       else if type_oid = INT8 \<and> fmt = Binary then map_ok (\<lambda>w. dec_of (sint (be_word w :: i64))) (fixed 8 b)
       else if type_oid = UUID \<and> fmt = Binary then map_ok (\<lambda>w. hyphenated (x_hex_encode x w)) (fixed 16 b)
       else Err (RowKeyType (KeyTypeOid type_oid)))"

text \<open>The typed constructors.\<close>

definition from_i16 :: "i16 \<Rightarrow> row_key" where
  "from_i16 v = dec_of (sint v)"

definition from_i32 :: "i32 \<Rightarrow> row_key" where
  "from_i32 v = dec_of (sint v)"

definition from_i64 :: "i64 \<Rightarrow> row_key" where
  "from_i64 v = dec_of (sint v)"

definition from_text :: "rstr \<Rightarrow> row_key" where
  "from_text v = v"

definition from_uuid :: "externs \<Rightarrow> rstr \<Rightarrow> core_error + row_key" where
  "from_uuid x v = canonical x UUID Text (Some v)"

definition from_uuid_bytes :: "externs \<Rightarrow> bytes \<Rightarrow> row_key" where
  "from_uuid_bytes x v = hyphenated (x_hex_encode x v)"

text \<open>The types \<open>ToRowKey\<close> is implemented for.\<close>

datatype key_value =
    KeyI16 i16
  | KeyI32 i32
  | KeyI64 i64
  | KeyStr rstr
  | KeyUuid bytes
  | KeyRow row_key

fun to_row_key :: "externs \<Rightarrow> key_value \<Rightarrow> core_error + row_key" where
  "to_row_key x (KeyI16 v) = Ok (from_i16 v)"
| "to_row_key x (KeyI32 v) = Ok (from_i32 v)"
| "to_row_key x (KeyI64 v) = Ok (from_i64 v)"
| "to_row_key x (KeyStr v) = Ok (from_text v)"
| "to_row_key x (KeyUuid v) = Ok (from_uuid_bytes x v)"
| "to_row_key x (KeyRow v) = Ok v"


section \<open>Integers\<close>

lemmas oid_defs = INT2_def INT4_def INT8_def TEXT_def VARCHAR_def UUID_def

lemma oids_distinct [simp]:
  "INT2 \<noteq> INT4" "INT2 \<noteq> INT8" "INT2 \<noteq> TEXT" "INT2 \<noteq> VARCHAR" "INT2 \<noteq> UUID"
  "INT4 \<noteq> INT2" "INT4 \<noteq> INT8" "INT4 \<noteq> TEXT" "INT4 \<noteq> VARCHAR" "INT4 \<noteq> UUID"
  "INT8 \<noteq> INT2" "INT8 \<noteq> INT4" "INT8 \<noteq> TEXT" "INT8 \<noteq> VARCHAR" "INT8 \<noteq> UUID"
  "TEXT \<noteq> INT2" "TEXT \<noteq> INT4" "TEXT \<noteq> INT8" "TEXT \<noteq> VARCHAR" "TEXT \<noteq> UUID"
  "VARCHAR \<noteq> INT2" "VARCHAR \<noteq> INT4" "VARCHAR \<noteq> INT8" "VARCHAR \<noteq> TEXT" "VARCHAR \<noteq> UUID"
  "UUID \<noteq> INT2" "UUID \<noteq> INT4" "UUID \<noteq> INT8" "UUID \<noteq> TEXT" "UUID \<noteq> VARCHAR"
  by (simp_all add: oid_defs)

lemma utf8_decode_dec_of: "utf8_decode (dec_of n) = Some (map unat (dec_of n))"
  by (rule utf8_decode_ascii) (use dec_of_ascii [of n] in auto)

lemma trim_dec_of: "trim (map unat (dec_of n)) = map unat (dec_of n)"
  by (rule trim_no_ws) (use dec_of_ascii [of n] in auto)

lemma integer_text_dec_of:
  assumes "- (2 ^ (bits - 1)) \<le> n" and "n \<le> 2 ^ (bits - 1) - 1"
  shows "integer_text bits (dec_of n) = Ok (dec_of n)"
  using assms by (simp add: integer_text_def key_utf8_def utf8_decode_dec_of trim_dec_of parse_int_dec_of)

lemma integer_text_Ok:
  assumes "integer_text bits b = Ok k"
  obtains n where "k = dec_of n" "- (2 ^ (bits - 1)) \<le> n" "n \<le> 2 ^ (bits - 1) - 1"
proof -
  obtain cs n where "parse_int (- (2 ^ (bits - 1))) (2 ^ (bits - 1) - 1) cs = Some n" and k: "k = dec_of n"
    using assms by (auto simp: integer_text_def res_simps split: option.splits)
  from parse_int_range [OF this(1)] that [OF k] show thesis by blast
qed

lemma sint_bounds:
  "- (2 ^ (LENGTH('a) - 1)) \<le> sint (w :: 'a::len word)" "sint w \<le> 2 ^ (LENGTH('a) - 1) - 1"
  using sint_greater_eq [of w] sint_less [of w] by simp_all


lemma integer_text_sint:
  "integer_text LENGTH('a) (dec_of (sint (w :: 'a::len word))) = Ok (dec_of (sint w))"
  by (rule integer_text_dec_of) (rule sint_bounds)+


section \<open>UUIDs\<close>

lemma uuid_hex_spec:
  "uuid_hex cs =
     (if \<forall>c \<in> set cs. c = 45 \<or> is_hexdigit_char c then Some (map lower_char (filter (\<lambda>c. c \<noteq> 45) cs)) else None)"
  by (induction cs) auto

definition lower_hex :: "byte \<Rightarrow> bool" where
  "lower_hex b = (48 \<le> unat b \<and> unat b \<le> 57 \<or> 97 \<le> unat b \<and> unat b \<le> 102)"

lemma lower_hex_char:
  assumes "lower_hex b"
  shows "unat b < 128" "unat b \<noteq> 45" "unat b \<noteq> 123" "is_hexdigit_char (unat b)"
    "lower_char (unat b) = unat b" "\<not> is_whitespace_char (unat b)"
  using assms by (auto simp: lower_hex_def is_hexdigit_char_def lower_char_def is_whitespace_char_def)

lemma lower_hex_digit: "n < 16 \<Longrightarrow> lower_hex (hex_digit n)"
proof -
  have "\<forall>n \<in> set [0..<16]. lower_hex (hex_digit n)"
    by code_simp
  then show "n < 16 \<Longrightarrow> lower_hex (hex_digit n)" by simp
qed

lemma lower_hex_push_hex: "\<forall>b \<in> set (push_hex v). lower_hex b"
proof (induction v)
  case Nil
  then show ?case by simp
next
  case (Cons a v)
  have "unat a div 16 < 16" using unat_byte_less [of a] by (simp add: less_mult_imp_div_less)
  then show ?case using Cons by (simp add: lower_hex_digit)
qed

lemma set_hyphenated: "set (hyphenated h) \<subseteq> insert 45 (set h)"
  by (auto simp: hyphenated_def dest: in_set_takeD in_set_dropD)

lemma filter_hyphenated:
  assumes "\<forall>b \<in> set h. lower_hex b"
  shows "filter (\<lambda>c. c \<noteq> 45) (map unat (hyphenated h)) = map unat h"
proof -
  have no: "filter (\<lambda>c. c \<noteq> 45) (map unat l) = map unat l" if "set l \<subseteq> set h" for l
    by (rule filter_True) (use that assms lower_hex_char(2) in fastforce)
  have sub: "set (take n l) \<subseteq> set l" "set (drop n l) \<subseteq> set l" for n and l :: bytes
    by (simp_all add: set_take_subset set_drop_subset)
  have "filter (\<lambda>c. c \<noteq> 45) (map unat (hyphenated h)) =
      map unat (take 8 h @ take 4 (drop 8 h) @ take 4 (drop 12 h) @ take 4 (drop 16 h) @ drop 20 h)"
    unfolding hyphenated_def map_append filter_append
    using no [OF sub(1), of 8] no [OF order_trans [OF sub(1) sub(2)]] no [OF sub(2), of 20]
    by (simp del: take_map drop_map)
  also have "take 8 h @ take 4 (drop 8 h) @ take 4 (drop 12 h) @ take 4 (drop 16 h) @ drop 20 h = h"
    using take_drop_split [of 4 16 h] take_drop_split [of 4 12 h] take_drop_split [of 4 8 h] by simp
  finally show ?thesis .
qed

text \<open>The rendering PostgreSQL emits is a fixed point.\<close>

lemma uuid_from_text_hyphenated:
  assumes h: "\<forall>b \<in> set h. lower_hex b" and len: "length h = 32"
  shows "uuid_from_text (hyphenated h) = Ok (hyphenated h)"
proof -
  let ?cs = "map unat (hyphenated h)"
  have chars: "unat b < 128 \<and> \<not> is_whitespace_char (unat b) \<and> (unat b = 45 \<or> is_hexdigit_char (unat b)) \<and> unat b \<noteq> 123"
    if "b \<in> set (hyphenated h)" for b
    using that set_hyphenated [of h] h lower_hex_char [of b] by (auto simp: is_whitespace_char_def)
  have dec: "utf8_decode (hyphenated h) = Some ?cs"
    by (rule utf8_decode_ascii) (use chars in auto)
  have trim: "trim ?cs = ?cs" by (rule trim_no_ws) (use chars in auto)
  have "strip_prefix [123] ?cs = None"
  proof (cases "strip_prefix [123] ?cs")
    case (Some r)
    then have "123 \<in> set ?cs" by (simp add: strip_prefix_eq_Some)
    then show ?thesis using chars by auto
  qed simp
  then have plain: "unbraced ?cs = ?cs" by (simp add: unbraced_def)
  have "uuid_hex ?cs = Some (map lower_char (map unat h))"
    using chars by (auto simp: uuid_hex_spec filter_hyphenated [OF h] simp del: map_map)
  also have "map lower_char (map unat h) = map unat h"
    using h lower_hex_char(5) by (auto intro: map_idI)
  finally have hex: "uuid_hex ?cs = Some (map unat h)" .
  have "utf8_encode (map unat h) = h"
    using h lower_hex_char(1) by (subst utf8_encode_ascii) (auto simp: o_def)
  then show ?thesis
    using dec trim plain hex len by (simp add: uuid_from_text_def key_utf8_def)
qed

lemma lower_char_hex:
  "is_hexdigit_char c \<Longrightarrow> 48 \<le> lower_char c \<and> lower_char c \<le> 57 \<or> 97 \<le> lower_char c \<and> lower_char c \<le> 102"
  by (auto simp: is_hexdigit_char_def lower_char_def)

lemma uuid_from_text_Ok:
  assumes "uuid_from_text b = Ok k"
  obtains h where "\<forall>c \<in> set h. lower_hex c" "length h = 32" "k = hyphenated h"
proof -
  obtain cs hs where hs: "uuid_hex (unbraced (trim cs)) = Some hs" "length hs = 32"
    and k: "k = hyphenated (utf8_encode hs)"
    using assms by (auto simp: uuid_from_text_def res_simps split: if_splits)
  have low: "\<forall>c \<in> set hs. 48 \<le> c \<and> c \<le> 57 \<or> 97 \<le> c \<and> c \<le> 102"
    using hs(1) lower_char_hex by (fastforce simp: uuid_hex_spec split: if_splits)
  then have enc: "utf8_encode hs = map byte_of hs"
    by (intro utf8_encode_ascii) force
  then have "\<forall>c \<in> set (utf8_encode hs). lower_hex c"
    using low by (auto simp: lower_hex_def)
  then show thesis using that [of "utf8_encode hs"] k hs(2) enc by simp
qed

lemma hyphenated_inject:
  assumes "length g = 32" and "length h = 32" and "hyphenated g = hyphenated h"
  shows "g = h"
proof -
  have "take 8 g = take 8 h \<and> take 4 (drop 8 g) = take 4 (drop 8 h) \<and> take 4 (drop 12 g) = take 4 (drop 12 h)
      \<and> take 4 (drop 16 g) = take 4 (drop 16 h) \<and> drop 20 g = drop 20 h"
    using assms by (simp add: hyphenated_def)
  moreover have "l = take 8 l @ take 4 (drop 8 l) @ take 4 (drop 12 l) @ take 4 (drop 16 l) @ drop 20 l" for l :: bytes
    using take_drop_split [of 4 16 l] take_drop_split [of 4 12 l] take_drop_split [of 4 8 l] by simp
  ultimately show ?thesis by metis
qed

lemma push_hex_inject: "push_hex a = push_hex b \<Longrightarrow> a = b"
  using sample_unhex_push_hex by (metis option.inject)



section \<open>One row, one key\<close>

lemma fixed_Ok: "fixed n b = Ok w \<longleftrightarrow> w = b \<and> length b = n"
  by (auto simp: fixed_def)

lemma canonical_simps:
  "canonical x INT2 Text (Some b) = integer_text 16 b"
  "canonical x INT4 Text (Some b) = integer_text 32 b"
  "canonical x INT8 Text (Some b) = integer_text 64 b"
  "canonical x UUID Text (Some b) = uuid_from_text b"
  "canonical x TEXT fmt (Some b) = map_ok (\<lambda>_. b) (key_utf8 b)"
  "canonical x VARCHAR fmt (Some b) = map_ok (\<lambda>_. b) (key_utf8 b)"
  "canonical x INT2 Binary (Some b) = map_ok (\<lambda>w. dec_of (sint (be_word w :: i16))) (fixed 2 b)"
  "canonical x INT4 Binary (Some b) = map_ok (\<lambda>w. dec_of (sint (be_word w :: i32))) (fixed 4 b)"
  "canonical x INT8 Binary (Some b) = map_ok (\<lambda>w. dec_of (sint (be_word w :: i64))) (fixed 8 b)"
  "canonical x UUID Binary (Some b) = map_ok (\<lambda>w. hyphenated (x_hex_encode x w)) (fixed 16 b)"
  by (simp_all add: canonical_def)

lemma canonical_unsupported:
  "\<not> supported t \<Longrightarrow> canonical x t fmt (Some b) = Err (RowKeyType (KeyTypeOid t))"
  by (simp add: canonical_def supported_def)

lemma canonical_Ok_supported: "canonical x t fmt v = Ok k \<Longrightarrow> supported t \<and> v \<noteq> None"
  using canonical_unsupported [of t x fmt] by (cases v; cases "supported t") (auto simp: canonical_def)

lemma sint_be_word_inject:
  assumes "LENGTH('a) = 8 * n" and "length a = n" and "length b = n"
    and "sint (be_word a :: 'a::len word) = sint (be_word b :: 'a word)"
  shows "a = b"
proof -
  have "(be_word a :: 'a word) = be_word b" using assms(4) by (rule word_eq_iff_signed [THEN iffD2])
  then show ?thesis using be_word_inverse [OF assms(1,2)] be_word_inverse [OF assms(1,3)] by metis
qed


text \<open>
  Different rows have different keys: two binary keys of one type canonicalise to the same
  bytes only if they are the same value.
\<close>

theorem canonical_binary_injective:
  assumes "hex_encode_ok x"
    and "canonical x t Binary (Some a) = Ok k" and "canonical x t Binary (Some b) = Ok k"
  shows "a = b"
proof -
  have "hyphenated (push_hex a) = hyphenated (push_hex b) \<Longrightarrow> length a = 16 \<Longrightarrow> length b = 16 \<Longrightarrow> a = b"
    using hyphenated_inject [of "push_hex a" "push_hex b"] push_hex_inject by simp
  then show ?thesis
    using assms canonical_Ok_supported [OF assms(2)]
      sint_be_word_inject [where ?'a = 16 and n = 2] sint_be_word_inject [where ?'a = 32 and n = 4]
      sint_be_word_inject [where ?'a = 64 and n = 8]
    by (auto simp: supported_def canonical_simps res_simps fixed_Ok dec_of_inject hex_encode_ok_def)
qed

theorem canonical_binary_injective_witness:
  "canonical sample INT2 Binary (Some [0, 1]) \<noteq> canonical sample INT2 Binary (Some [1, 0])"
proof
  assume eq: "canonical sample INT2 Binary (Some [0, 1]) = canonical sample INT2 Binary (Some [1, 0])"
  have "canonical sample INT2 Binary (Some [0, 1]) = Ok (dec_of 1)"
    by (simp add: canonical_simps fixed_def be_word_def be_nat_def)
  from canonical_binary_injective [OF sample_hex_encode_ok this this [unfolded eq]] show False by simp
qed

definition key_wire :: "nat \<Rightarrow> 'a::len word \<Rightarrow> format \<Rightarrow> bytes" where
  "key_wire n w fmt = (case fmt of Text \<Rightarrow> dec_of (sint w) | Binary \<Rightarrow> word_be n w)"

text \<open>
  A program that builds its keys with the typed constructors binds the same bytes as the
  proxy does for that value, in both wire formats.
\<close>

theorem to_row_key_canonical:
  assumes "hex_encode_ok x" and "utf8_decode s = Some cs" and "length u = 16"
  shows "canonical x INT2 fmt (Some (key_wire 2 i fmt)) = to_row_key x (KeyI16 i)
    \<and> canonical x INT4 fmt (Some (key_wire 4 j fmt)) = to_row_key x (KeyI32 j)
    \<and> canonical x INT8 fmt (Some (key_wire 8 l fmt)) = to_row_key x (KeyI64 l)
    \<and> canonical x TEXT fmt (Some s) = to_row_key x (KeyStr s)
    \<and> canonical x UUID Binary (Some u) = to_row_key x (KeyUuid u)
    \<and> from_uuid x (from_uuid_bytes x u) = to_row_key x (KeyUuid u)"
proof (intro conjI)
  show "canonical x INT2 fmt (Some (key_wire 2 i fmt)) = to_row_key x (KeyI16 i)"
    using integer_text_sint [of i]
    by (cases fmt) (simp_all add: key_wire_def canonical_simps fixed_def from_i16_def)
  show "canonical x INT4 fmt (Some (key_wire 4 j fmt)) = to_row_key x (KeyI32 j)"
    using integer_text_sint [of j]
    by (cases fmt) (simp_all add: key_wire_def canonical_simps fixed_def from_i32_def)
  show "canonical x INT8 fmt (Some (key_wire 8 l fmt)) = to_row_key x (KeyI64 l)"
    using integer_text_sint [of l]
    by (cases fmt) (simp_all add: key_wire_def canonical_simps fixed_def from_i64_def)
  show "canonical x TEXT fmt (Some s) = to_row_key x (KeyStr s)"
    using assms(2) by (simp add: canonical_simps key_utf8_def from_text_def)
  show "canonical x UUID Binary (Some u) = to_row_key x (KeyUuid u)"
    using assms(3) by (simp add: canonical_simps fixed_def from_uuid_bytes_def)
  show "from_uuid x (from_uuid_bytes x u) = to_row_key x (KeyUuid u)"
    using assms(1,3) uuid_from_text_hyphenated [OF lower_hex_push_hex, of u]
    by (simp add: canonical_simps from_uuid_def from_uuid_bytes_def hex_encode_ok_def)
qed

theorem to_row_key_canonical_witness:
  "canonical sample INT4 Text (Some (key_wire 4 (42 :: i32) Text)) = to_row_key sample (KeyI32 42)
   \<and> canonical sample INT4 Binary (Some (key_wire 4 (42 :: i32) Binary)) = to_row_key sample (KeyI32 42)"
proof -
  have "utf8_decode [] = Some []" by simp
  from to_row_key_canonical [OF sample_hex_encode_ok this sample_lengths(2), where j = 42]
  show ?thesis by blast
qed

text \<open>
  The startup check and the data path agree: a type passes \<open>supported\<close> exactly when some
  value of it has a canonical key, NULL never has one, and an unsupported type is refused as
  such in both formats.
\<close>

theorem supported_iff_canonical:
  "(supported t \<longleftrightarrow> (\<exists>fmt v. is_ok (canonical x t fmt v)))
   \<and> canonical x t fmt None = Err (RowKeyType KeyIsNull)
   \<and> (\<not> supported t \<longrightarrow> canonical x t fmt (Some b) = Err (RowKeyType (KeyTypeOid t)))"
proof (intro conjI)
  have "is_ok (canonical x t Binary (Some (replicate (if t = INT2 then 2 else if t = INT4 then 4
      else if t = INT8 then 8 else if t = UUID then 16 else 0) 0)))" if "supported t"
    using that by (auto simp: supported_def canonical_simps fixed_def key_utf8_def)
  then show "supported t \<longleftrightarrow> (\<exists>fmt v. is_ok (canonical x t fmt v))"
    using canonical_Ok_supported by (metis is_ok_iff)
qed (auto simp: canonical_unsupported, simp add: canonical_def)

theorem supported_iff_canonical_witness:
  "canonical sample 16 Text (Some [116]) = Err (RowKeyType (KeyTypeOid 16))"
proof -
  have "\<not> supported 16" by (simp add: supported_def oid_defs)
  then show ?thesis using supported_iff_canonical [of 16 sample Text "[116]"] by blast
qed

end
