(* ===== verification/RowKeyProps.thy ===== *)
theory RowKeyProps
  imports RowKeys
begin

text \<open>
  Canonical row keys against the server's own input and output formats: which spellings denote a value
  of a key type, and how PostgreSQL prints it.
\<close>

section \<open>Spellings\<close>

definition blank :: "rchar list \<Rightarrow> bool" where
  "blank cs \<longleftrightarrow> (\<forall>c \<in> set cs. is_whitespace_char c)"

text \<open>An integer: blanks, a sign, leading zeros, the digits, blanks; 43 and 45 are the signs.\<close>

definition spells_int :: "int \<Rightarrow> rchar list \<Rightarrow> bool" where
  "spells_int n cs \<longleftrightarrow>
     (\<exists>ws sign z ws'. blank ws \<and> blank ws' \<and> (sign = [] \<and> 0 \<le> n \<or> sign = [43] \<and> 0 \<le> n \<or> sign = [45] \<and> n \<le> 0)
        \<and> cs = ws @ sign @ replicate z 48 @ map unat (dec_digits (nat \<bar>n\<bar>)) @ ws')"

text \<open>A UUID: its 32 hex digits in either case with hyphens anywhere, braced or not, between blanks.\<close>

definition spells_uuid :: "bytes \<Rightarrow> rchar list \<Rightarrow> bool" where
  "spells_uuid u cs \<longleftrightarrow>
     (\<exists>ws body ws'. blank ws \<and> blank ws' \<and> (cs = ws @ body @ ws' \<or> cs = ws @ [123] @ body @ [125] @ ws')
        \<and> (\<forall>c \<in> set body. c = 45 \<or> is_hexdigit_char c)
        \<and> map lower_char (filter (\<lambda>c. c \<noteq> 45) body) = map unat (push_hex u))"

text \<open>How the server prints a UUID: lowercase, in groups of 4, 2, 2, 2 and 6 bytes.\<close>

definition uuid_out :: "bytes \<Rightarrow> bytes" where
  "uuid_out u =
     push_hex (take 4 u) @ [45] @ push_hex (take 2 (drop 4 u)) @ [45] @ push_hex (take 2 (drop 6 u)) @ [45]
     @ push_hex (take 2 (drop 8 u)) @ [45] @ push_hex (drop 10 u)"

text \<open>
  \<open>b\<close> in format \<open>fmt\<close> denotes the value of type \<open>t\<close> that the server prints as \<open>k\<close>.
\<close>

definition denotes_int :: "nat \<Rightarrow> format \<Rightarrow> bytes \<Rightarrow> bytes \<Rightarrow> bool" where
  "denotes_int w fmt b k \<longleftrightarrow>
     (\<exists>n. - (2 ^ (8 * w - 1)) \<le> n \<and> n < 2 ^ (8 * w - 1) \<and> k = dec_of n
        \<and> (case fmt of Text \<Rightarrow> \<exists>cs. utf8_decode b = Some cs \<and> spells_int n cs
           | Binary \<Rightarrow> b = be_bytes w (nat (n mod 2 ^ (8 * w)))))"

definition denotes :: "u32 \<Rightarrow> format \<Rightarrow> bytes \<Rightarrow> bytes \<Rightarrow> bool" where
  "denotes t fmt b k \<longleftrightarrow>
     t = INT2 \<and> denotes_int 2 fmt b k \<or> t = INT4 \<and> denotes_int 4 fmt b k \<or> t = INT8 \<and> denotes_int 8 fmt b k
     \<or> (t = TEXT \<or> t = VARCHAR) \<and> utf8_decode b \<noteq> None \<and> k = b
     \<or> t = UUID \<and> (\<exists>u. length u = 16 \<and> k = uuid_out u
          \<and> (case fmt of Text \<Rightarrow> \<exists>cs. utf8_decode b = Some cs \<and> spells_uuid u cs | Binary \<Rightarrow> b = u))"


section \<open>Reading the spellings\<close>

lemma trim_blanks:
  assumes "blank ws" "blank ws'" "\<forall>c \<in> set m. \<not> is_whitespace_char c"
  shows "trim (ws @ m @ ws') = m"
proof -
  have front: "dropWhile is_whitespace_char (ws @ l) = dropWhile is_whitespace_char l" if "blank ws" for ws l
    using that by (induction ws) (auto simp: blank_def)
  have none: "dropWhile is_whitespace_char (m' @ l) = m' @ l" if "m' \<noteq> []" "\<forall>c \<in> set m'. \<not> is_whitespace_char c" for m' l
    using that by (cases m') auto
  show ?thesis
  proof (cases "m = []")
    case True
    have "trim_start (ws @ ws') = []" using assms(1,2) by (auto simp: trim_start_def blank_def)
    then show ?thesis using True by (simp add: trim_def trim_end_def)
  next
    case False
    have "trim_start (ws @ m @ ws') = m @ ws'" using front [OF assms(1)] none [OF False assms(3)] by (simp add: trim_start_def)
    moreover have "trim_end (m @ ws') = m"
      using front [of "rev ws'" "rev m"] assms(2,3) none [of "rev m" "[]"] False by (simp add: trim_end_def blank_def)
    ultimately show ?thesis by (simp add: trim_def)
  qed
qed

lemma trim_split:
  obtains ws ws' where "blank ws" "blank ws'" "cs = ws @ trim cs @ ws'"
proof -
  let ?m = "trim_start cs"
  have a: "cs = takeWhile is_whitespace_char cs @ ?m" by (simp add: trim_start_def)
  have "rev ?m = takeWhile is_whitespace_char (rev ?m) @ dropWhile is_whitespace_char (rev ?m)" by simp
  then have "?m = trim_end ?m @ rev (takeWhile is_whitespace_char (rev ?m))"
    unfolding trim_end_def by (metis rev_append rev_rev_ident)
  then have "cs = takeWhile is_whitespace_char cs @ trim cs @ rev (takeWhile is_whitespace_char (rev ?m))"
    using a by (simp add: trim_def)
  moreover have "blank (takeWhile is_whitespace_char l)" for l by (auto simp: blank_def dest: set_takeWhileD)
  ultimately show thesis using that [of "takeWhile is_whitespace_char cs" "rev (takeWhile is_whitespace_char (rev ?m))"]
    by (simp add: blank_def)
qed

lemma digits_val_snoc: "digits_val (ds @ [d]) = digits_val ds * 10 + (d - 48)"
  by (simp add: digits_val_def)

lemma digits_val_zeros: "digits_val (replicate z 48 @ ds) = digits_val ds"
proof -
  have "foldl (\<lambda>acc d. acc * 10 + (d - 48)) 0 (replicate z 48) = (0 :: nat)" by (induction z) simp_all
  then show ?thesis by (simp add: digits_val_def)
qed

lemma digits_val_small: "all_digits ds \<Longrightarrow> digits_val ds = 0 \<Longrightarrow> ds = replicate (length ds) 48"
proof (induction ds rule: rev_induct)
  case (snoc d ds)
  then have "ds = replicate (length ds) 48" "d = 48" by (auto simp: digits_val_snoc all_digits_def)
  then show ?case by (metis length_append_singleton replicate_Suc replicate_append_same)
qed simp

lemma digits_zeros:
  assumes "all_digits ds" "ds \<noteq> []"
  shows "\<exists>z. ds = replicate z 48 @ map unat (dec_digits (digits_val ds))"
  using assms
proof (induction ds rule: rev_induct)
  case (snoc d ds)
  have d: "48 \<le> d" "d \<le> 57" and ds: "all_digits ds" using snoc.prems by (auto simp: all_digits_def)
  show ?case
  proof (cases "digits_val ds = 0")
    case True
    then have "digits_val (ds @ [d]) = d - 48" "d - 48 < 10" using d by (simp_all add: digits_val_snoc)
    moreover have "ds = replicate (length ds) 48" using digits_val_small [OF ds True] .
    ultimately show ?thesis using d by (intro exI [of _ "length ds"]) (subst dec_digits.simps, simp)
  next
    case False
    then have "ds \<noteq> []" by (auto simp: digits_val_def)
    with snoc.IH ds obtain z where z: "ds = replicate z 48 @ map unat (dec_digits (digits_val ds))" by blast
    have v: "digits_val (ds @ [d]) = digits_val ds * 10 + (d - 48)" by (rule digits_val_snoc)
    have "dec_digits (m * 10 + e) = dec_digits m @ [byte_of (48 + e)]" if "0 < m" "e < 10" for m e :: nat
      using that by (subst dec_digits.simps) simp
    from this [of "digits_val ds" "d - 48"] have "dec_digits (digits_val (ds @ [d])) = dec_digits (digits_val ds) @ [byte_of d]"
      using False d unfolding v by simp
    then show ?thesis using z d by (intro exI [of _ z]) simp
  qed
qed simp

lemma sign_split_spelled:
  assumes "all_digits ds" "ds \<noteq> []"
  shows "sign_split ds = (False, ds)" "sign_split (43 # ds) = (False, ds)" "sign_split (45 # ds) = (True, ds)"
  using assms by (cases ds; auto simp: sign_split_def all_digits_def)+

lemma parse_int_spelled:
  assumes "sign = [] \<and> 0 \<le> n \<or> sign = [43] \<and> 0 \<le> n \<or> sign = [45] \<and> n \<le> 0" and "lo \<le> n" "n \<le> hi"
  shows "parse_int lo hi (sign @ replicate z 48 @ map unat (dec_digits (nat \<bar>n\<bar>))) = Some n"
proof -
  define ds where "ds = replicate z 48 @ map unat (dec_digits (nat \<bar>n\<bar>))"
  have ds: "all_digits ds" "ds \<noteq> []" using all_digits_dec [of "nat \<bar>n\<bar>"] by (auto simp: ds_def all_digits_def)
  have v: "int (digits_val ds) = \<bar>n\<bar>" by (simp add: ds_def digits_val_zeros digits_val_dec)
  have "parse_int lo hi (sign @ ds) = Some n" using assms ds sign_split_spelled [OF ds] v by (auto simp: parse_int_def)
  then show ?thesis by (simp add: ds_def)
qed

lemma parse_int_spells:
  assumes "parse_int lo hi cs = Some n"
  shows "\<exists>sign z. (sign = [] \<and> 0 \<le> n \<or> sign = [43] \<and> 0 \<le> n \<or> sign = [45] \<and> n \<le> 0)
    \<and> cs = sign @ replicate z 48 @ map unat (dec_digits (nat \<bar>n\<bar>))"
proof -
  obtain neg ds where sp: "sign_split cs = (neg, ds)" by force
  with assms have ds: "ds \<noteq> []" "all_digits ds" and n: "n = (if neg then - int (digits_val ds) else int (digits_val ds))"
    by (auto simp: parse_int_def Let_def split: if_splits)
  from digits_zeros [OF ds(2,1)] obtain z where z: "ds = replicate z 48 @ map unat (dec_digits (nat \<bar>n\<bar>))"
    using n by auto
  have nn: "neg \<Longrightarrow> n \<le> 0" "\<not> neg \<Longrightarrow> 0 \<le> n" using n by simp_all
  have "cs = (if neg then [45] else []) @ ds \<or> cs = [43] @ ds \<and> \<not> neg"
    using sp by (auto simp: sign_split_def split: list.splits if_splits)
  then show ?thesis
  proof
    assume "cs = (if neg then [45] else []) @ ds"
    then have "cs = (if neg then [45] else []) @ replicate z 48 @ map unat (dec_digits (nat \<bar>n\<bar>))" using z by simp
    then show ?thesis using nn by (cases neg) (intro exI [of _ "if neg then [45] else []"] exI [of _ z], simp)+
  next
    assume "cs = [43] @ ds \<and> \<not> neg"
    then have "cs = [43] @ replicate z 48 @ map unat (dec_digits (nat \<bar>n\<bar>))" using z by simp
    then show ?thesis using nn \<open>cs = [43] @ ds \<and> \<not> neg\<close> by (intro exI [of _ "[43]"] exI [of _ z]) simp
  qed
qed

lemma spelled_no_blanks:
  assumes "sign = [] \<or> sign = [43] \<or> sign = [45]" and "c \<in> set (sign @ replicate z 48 @ map unat (dec_digits m))"
  shows "\<not> is_whitespace_char c"
  using assms dec_digits_range [of m] by (fastforce simp: is_whitespace_char_def)

lemma integer_text_iff:
  "integer_text bits b = Ok k \<longleftrightarrow>
     (\<exists>n cs. - (2 ^ (bits - 1)) \<le> n \<and> n < 2 ^ (bits - 1) \<and> k = dec_of n \<and> utf8_decode b = Some cs \<and> spells_int n cs)"
proof
  assume "integer_text bits b = Ok k"
  then obtain cs n where cs: "utf8_decode b = Some cs" and n: "parse_int (- (2 ^ (bits - 1))) (2 ^ (bits - 1) - 1) (trim cs) = Some n" "k = dec_of n"
    by (auto simp: integer_text_def key_utf8_def res_simps split: option.splits)
  obtain ws ws' where ws: "blank ws" "blank ws'" "cs = ws @ trim cs @ ws'" by (rule trim_split)
  obtain sign z where "sign = [] \<and> 0 \<le> n \<or> sign = [43] \<and> 0 \<le> n \<or> sign = [45] \<and> n \<le> 0"
    "trim cs = sign @ replicate z 48 @ map unat (dec_digits (nat \<bar>n\<bar>))" using parse_int_spells [OF n(1)] by blast
  with ws have "spells_int n cs" unfolding spells_int_def
    by (intro exI [of _ ws] exI [of _ sign] exI [of _ z] exI [of _ ws']) simp
  then show "\<exists>n cs. - (2 ^ (bits - 1)) \<le> n \<and> n < 2 ^ (bits - 1) \<and> k = dec_of n \<and> utf8_decode b = Some cs \<and> spells_int n cs"
    using parse_int_range [OF n(1)] n(2) cs by auto
next
  assume "\<exists>n cs. - (2 ^ (bits - 1)) \<le> n \<and> n < 2 ^ (bits - 1) \<and> k = dec_of n \<and> utf8_decode b = Some cs \<and> spells_int n cs"
  then obtain n cs where n: "- (2 ^ (bits - 1)) \<le> n" "n < 2 ^ (bits - 1)" "k = dec_of n" and cs: "utf8_decode b = Some cs" "spells_int n cs"
    by blast
  from cs(2) obtain ws sign z ws' where ws: "blank ws" "blank ws'"
    and sign: "sign = [] \<and> 0 \<le> n \<or> sign = [43] \<and> 0 \<le> n \<or> sign = [45] \<and> n \<le> 0"
    and eq: "cs = ws @ sign @ replicate z 48 @ map unat (dec_digits (nat \<bar>n\<bar>)) @ ws'"
    unfolding spells_int_def by blast
  have n': "n \<le> 2 ^ (bits - 1) - 1" using n(2) by simp
  let ?m = "sign @ replicate z 48 @ map unat (dec_digits (nat \<bar>n\<bar>))"
  have "trim (ws @ ?m @ ws') = ?m"
    by (rule trim_blanks [OF ws]) (use sign spelled_no_blanks in blast)
  moreover have "cs = ws @ ?m @ ws'" using eq by simp
  ultimately have "trim cs = ?m" by simp
  then show "integer_text bits b = Ok k"
    using cs(1) n(3) parse_int_spelled [OF sign n(1) n', of z] by (simp add: integer_text_def key_utf8_def)
qed

lemma push_hex_take: "take (2 * n) (push_hex u) = push_hex (take n u)"
  and push_hex_drop: "drop (2 * n) (push_hex u) = push_hex (drop n u)"
proof -
  have "take (2 * n) (push_hex u) = push_hex (take n u) \<and> drop (2 * n) (push_hex u) = push_hex (drop n u)"
  proof (induction n arbitrary: u)
    case (Suc n)
    then show ?case by (cases u) simp_all
  qed (simp add: push_hex_def)
  then show "take (2 * n) (push_hex u) = push_hex (take n u)" "drop (2 * n) (push_hex u) = push_hex (drop n u)" by auto
qed

lemma hyphenated_out: "hyphenated (push_hex u) = uuid_out u"
  using push_hex_take [of 4 u] push_hex_drop [of 4 u] push_hex_drop [of 6 u] push_hex_drop [of 8 u] push_hex_drop [of 10 u]
    push_hex_take [of 2 "drop 4 u"] push_hex_take [of 2 "drop 6 u"] push_hex_take [of 2 "drop 8 u"]
  by (simp add: hyphenated_def uuid_out_def)

lemma lower_hex_value: "lower_hex a \<Longrightarrow> \<exists>v < 16. hex_digit v = a"
proof -
  assume a: "lower_hex a"
  have "\<forall>n \<in> set [48..<58]. hex_digit (n - 48) = byte_of n" "\<forall>n \<in> set [97..<103]. hex_digit (n - 87) = byte_of n"
    by code_simp+
  then have d: "48 \<le> n \<Longrightarrow> n \<le> 57 \<Longrightarrow> hex_digit (n - 48) = byte_of n" and l: "97 \<le> n \<Longrightarrow> n \<le> 102 \<Longrightarrow> hex_digit (n - 87) = byte_of n" for n
    by (auto dest: bspec [where x = n] simp del: upt_rec_numeral upt_Suc)
  show ?thesis
  proof (cases "unat a \<le> 57")
    case True
    then have "hex_digit (unat a - 48) = a" "unat a - 48 < 16" using a d [of "unat a"] by (auto simp: lower_hex_def)
    then show ?thesis by blast
  next
    case False
    then have "hex_digit (unat a - 87) = a" "unat a - 87 < 16" using a l [of "unat a"] by (auto simp: lower_hex_def)
    then show ?thesis by blast
  qed
qed

lemma lower_hex_bytes: "\<forall>b \<in> set h. lower_hex b \<Longrightarrow> length h = 2 * n \<Longrightarrow> \<exists>u. length u = n \<and> push_hex u = h"
proof (induction n arbitrary: h)
  case (Suc n)
  then obtain a b r where h: "h = a # b # r" by (cases h; cases "tl h") auto
  obtain v w where v: "v < 16" "hex_digit v = a" and w: "w < 16" "hex_digit w = b"
    using Suc.prems(1) lower_hex_value [of a] lower_hex_value [of b] by (auto simp: h)
  obtain u where u: "length u = n" "push_hex u = r" using Suc h by auto
  have "v * 16 + w < 256" using v(1) w(1) by simp
  then have "push_hex (byte_of (v * 16 + w) # u) = h" using v w u by (simp add: h)
  then show ?case using u(1) by (intro exI [of _ "byte_of (v * 16 + w) # u"]) simp
qed (simp add: push_hex_def)

lemma strip_suffix_eq_Some: "strip_suffix p xs = Some r \<longleftrightarrow> xs = r @ p"
proof
  assume "strip_suffix p xs = Some r"
  then show "xs = r @ p" unfolding strip_suffix_def by (metis append_take_drop_id option.discI option.inject)
qed simp

lemma unbraced_cases:
  assumes "uuid_hex (unbraced inner) = Some hs" "length hs = 32"
  shows "inner = unbraced inner \<or> inner = [123] @ unbraced inner @ [125]"
proof (cases "strip_prefix [123] inner")
  case (Some rest)
  show ?thesis
  proof (cases "strip_suffix [125] rest")
    case None
    then have "unbraced inner = []" using Some by (simp add: unbraced_def)
    then show ?thesis using assms by simp
  next
    case (Some body)
    then have "unbraced inner = body" using \<open>strip_prefix [123] inner = Some rest\<close> by (simp add: unbraced_def)
    moreover have "inner = [123] @ body @ [125]"
      using Some \<open>strip_prefix [123] inner = Some rest\<close> unfolding strip_prefix_eq_Some strip_suffix_eq_Some by simp
    ultimately show ?thesis by simp
  qed
qed (simp add: unbraced_def)

lemma uuid_from_text_iff:
  "uuid_from_text b = Ok k \<longleftrightarrow> (\<exists>u cs. length u = 16 \<and> k = uuid_out u \<and> utf8_decode b = Some cs \<and> spells_uuid u cs)"
proof
  assume ok: "uuid_from_text b = Ok k"
  then obtain cs hs where cs: "utf8_decode b = Some cs" and hs: "uuid_hex (unbraced (trim cs)) = Some hs" "length hs = 32"
    and k: "k = hyphenated (utf8_encode hs)"
    by (auto simp: uuid_from_text_def key_utf8_def res_simps split: if_splits)
  let ?body = "unbraced (trim cs)"
  have body: "\<forall>c \<in> set ?body. c = 45 \<or> is_hexdigit_char c" "hs = map lower_char (filter (\<lambda>c. c \<noteq> 45) ?body)"
    using hs(1) by (auto simp: uuid_hex_spec split: if_splits)
  have low: "\<forall>c \<in> set hs. 48 \<le> c \<and> c \<le> 57 \<or> 97 \<le> c \<and> c \<le> 102"
    using body lower_char_hex by fastforce
  then have enc: "utf8_encode hs = map byte_of hs" by (intro utf8_encode_ascii) force
  have "\<forall>c \<in> set (map byte_of hs). lower_hex c" using low by (auto simp: lower_hex_def)
  then obtain u where u: "length u = 16" "push_hex u = map byte_of hs" using lower_hex_bytes [of "map byte_of hs" 16] hs(2) by auto
  have "map unat (map byte_of hs) = hs" using low by (auto intro!: map_idI)
  then have hex: "map lower_char (filter (\<lambda>c. c \<noteq> 45) ?body) = map unat (push_hex u)" using u(2) body(2) by simp
  obtain ws ws' where ws: "blank ws" "blank ws'" "cs = ws @ trim cs @ ws'" by (rule trim_split)
  have "trim cs = ?body \<or> trim cs = [123] @ ?body @ [125]" by (rule unbraced_cases [OF hs])
  then have "cs = ws @ ?body @ ws' \<or> cs = ws @ [123] @ ?body @ [125] @ ws'"
  proof
    assume "trim cs = ?body"
    then show ?thesis using ws(3) by metis
  next
    assume "trim cs = [123] @ ?body @ [125]"
    then have "cs = ws @ ([123] @ ?body @ [125]) @ ws'" using ws(3) by metis
    then show ?thesis by simp
  qed
  then have "spells_uuid u cs" unfolding spells_uuid_def using ws(1,2) body(1) hex by blast
  moreover have "k = uuid_out u" using k enc u(2) hyphenated_out [of u] by simp
  ultimately show "\<exists>u cs. length u = 16 \<and> k = uuid_out u \<and> utf8_decode b = Some cs \<and> spells_uuid u cs" using u(1) cs by blast
next
  assume "\<exists>u cs. length u = 16 \<and> k = uuid_out u \<and> utf8_decode b = Some cs \<and> spells_uuid u cs"
  then obtain u cs ws body ws' where u: "length u = 16" "k = uuid_out u" and cs: "utf8_decode b = Some cs" and ws: "blank ws" "blank ws'"
    and eq: "cs = ws @ body @ ws' \<or> cs = ws @ [123] @ body @ [125] @ ws'" and body: "\<forall>c \<in> set body. c = 45 \<or> is_hexdigit_char c"
    and hex: "map lower_char (filter (\<lambda>c. c \<noteq> 45) body) = map unat (push_hex u)"
    unfolding spells_uuid_def by blast
  have sp: "\<not> is_whitespace_char c \<and> c \<noteq> 123" if "c \<in> set body" for c
    using that body by (auto simp: is_whitespace_char_def is_hexdigit_char_def)
  have "unbraced (trim cs) = body"
    using eq
  proof
    assume c: "cs = ws @ body @ ws'"
    have "strip_prefix [123] body = None" using sp by (cases "strip_prefix [123] body") (auto simp: strip_prefix_eq_Some)
    then show ?thesis using trim_blanks [OF ws, of body] sp by (simp add: c unbraced_def)
  next
    assume c: "cs = ws @ [123] @ body @ [125] @ ws'"
    have "trim (ws @ ([123] @ body @ [125]) @ ws') = [123] @ body @ [125]"
      by (rule trim_blanks [OF ws]) (use sp in \<open>auto simp: is_whitespace_char_def\<close>)
    moreover have "strip_prefix [123] ([123] @ body @ [125]) = Some (body @ [125])" "strip_suffix [125] (body @ [125]) = Some body"
      by (simp_all add: strip_prefix_eq_Some strip_suffix_eq_Some)
    ultimately show ?thesis by (simp add: c unbraced_def)
  qed
  moreover have "uuid_hex body = Some (map unat (push_hex u))" using body hex by (simp add: uuid_hex_spec)
  moreover have "utf8_encode (map unat (push_hex u)) = push_hex u"
    using lower_hex_push_hex [of u] lower_hex_char(1) by (subst utf8_encode_ascii) (auto simp: o_def)
  ultimately show "uuid_from_text b = Ok k"
    using cs u hyphenated_out [of u] by (simp add: uuid_from_text_def key_utf8_def)
qed

lemma sint_wrap:
  assumes "- (2 ^ (LENGTH('a) - 1)) \<le> n" "n < 2 ^ (LENGTH('a) - 1)"
  shows "sint (word_of_int n :: 'a::len word) = n"
  using assms by transfer (simp add: signed_take_bit_int_eq_self)

lemma binary_int_iff:
  assumes "LENGTH('a) = 8 * w"
  shows "map_ok (\<lambda>v. dec_of (sint (be_word v :: 'a::len word))) (fixed w b) = Ok k \<longleftrightarrow> denotes_int w Binary b k"
proof
  let ?v = "be_word b :: 'a word"
  assume "map_ok (\<lambda>v. dec_of (sint (be_word v :: 'a word))) (fixed w b) = Ok k"
  then have len: "length b = w" and k: "k = dec_of (sint ?v)" by (auto simp: fixed_def split: if_splits)
  have "b = word_be w ?v" by (rule be_word_inverse [OF assms len, symmetric])
  also have "\<dots> = be_bytes w (nat (sint ?v mod 2 ^ (8 * w)))"
    unfolding word_be_def unat_eq_nat_uint uint_sint [of ?v] take_bit_eq_mod assms ..
  finally have "b = be_bytes w (nat (sint ?v mod 2 ^ (8 * w)))" .
  then show "denotes_int w Binary b k"
    unfolding denotes_int_def using k sint_bounds [of ?v] assms by (intro exI [of _ "sint ?v"]) auto
next
  assume "denotes_int w Binary b k"
  then obtain n where n: "- (2 ^ (8 * w - 1)) \<le> n" "n < 2 ^ (8 * w - 1)" "k = dec_of n" "b = be_bytes w (nat (n mod 2 ^ (8 * w)))"
    unfolding denotes_int_def by auto
  let ?v = "word_of_int n :: 'a word"
  have b: "b = word_be w ?v" unfolding n(4) by (simp add: word_be_def unat_eq_nat_uint uint_word_of_int assms)
  then have "be_word b = ?v" "length b = w" unfolding b using word_be_inverse [OF assms, of ?v] by simp_all
  moreover have "sint ?v = n" by (rule sint_wrap) (use n assms in auto)
  ultimately show "map_ok (\<lambda>v. dec_of (sint (be_word v :: 'a word))) (fixed w b) = Ok k" using n(3) by (simp add: fixed_def)
qed

lemma text_int_iff: "integer_text (8 * w) b = Ok k \<longleftrightarrow> denotes_int w Text b k"
  by (auto simp: denotes_int_def integer_text_iff)

lemma uuid_iff:
  assumes "hex_encode_ok x"
  shows "canonical x UUID fmt (Some b) = Ok k \<longleftrightarrow>
    (\<exists>u. length u = 16 \<and> k = uuid_out u \<and> (case fmt of Text \<Rightarrow> \<exists>cs. utf8_decode b = Some cs \<and> spells_uuid u cs | Binary \<Rightarrow> b = u))"
  using assms by (cases fmt) (auto simp: canonical_simps uuid_from_text_iff res_simps fixed_Ok hex_encode_ok_def hyphenated_out)

lemma denotes_types:
  "denotes INT2 fmt b k = denotes_int 2 fmt b k" "denotes INT4 fmt b k = denotes_int 4 fmt b k"
  "denotes INT8 fmt b k = denotes_int 8 fmt b k" "denotes TEXT fmt b k = (utf8_decode b \<noteq> None \<and> k = b)"
  "denotes VARCHAR fmt b k = (utf8_decode b \<noteq> None \<and> k = b)"
  "denotes UUID fmt b k = (\<exists>u. length u = 16 \<and> k = uuid_out u
     \<and> (case fmt of Text \<Rightarrow> \<exists>cs. utf8_decode b = Some cs \<and> spells_uuid u cs | Binary \<Rightarrow> b = u))"
  by (simp_all add: denotes_def oid_defs)



end
