(* ===== verification/Transform.thy ===== *)
theory Transform
  imports Ciphers
begin

text \<open>
  The field transforms (\<open>crates/core/src/transform.rs\<close>) with the blind index they use
  (\<open>crates/core/src/blind_index.rs\<close>): envelope encryption, format-preserving encryption over
  decimal digits, and HMAC tokens. Their common contract is the locale \<open>reversible_transform\<close>.

  The state of a process is its cipher cache and the \<open>OnceLock\<close> cells of its transforms; a
  transform names its cell.
\<close>

section \<open>Blind index\<close>

definition BLIND_INDEX_LEN :: nat where
  "BLIND_INDEX_LEN = 32"

definition compute :: "externs \<Rightarrow> key \<Rightarrow> bytes \<Rightarrow> bytes" where
  "compute x index_key plaintext = x_hmac x index_key plaintext"

definition prepend :: "bytes \<Rightarrow> bytes \<Rightarrow> bytes" where
  "prepend index enveloped = index @ enveloped"

definition split :: "bytes \<Rightarrow> (bytes \<times> bytes) option" where
  "split stored =
     (case split_at_checked BLIND_INDEX_LEN stored of
        None \<Rightarrow> None
      | Some (index, rest) \<Rightarrow> if is_enveloped rest then Some (index, rest) else None)"


section \<open>Process state\<close>

record 'k world =
  w_ciphers :: "'k ciphers"
  w_cells :: "nat \<rightharpoonup> key"

definition on_ciphers :: "('k ciphers, core_error, 'a) comp \<Rightarrow> ('k world, core_error, 'a) comp" where
  "on_ciphers m w = (case m (w_ciphers w) of (r, c) \<Rightarrow> (r, w\<lparr>w_ciphers := c\<rparr>))"

text \<open>
  A deterministic key behind a \<open>OnceLock\<close>: \<open>EncryptTransform::index_key\<close>,
  \<open>FpeTransform::ff1\<close> (whose cell holds the cipher of the key) and \<open>TokenTransform::key\<close>.
\<close>

definition once_key :: "'k key_source \<Rightarrow> rstr \<Rightarrow> nat \<Rightarrow> ('k world, core_error, key) comp" where
  "once_key ks name cell w =
     (case w_cells w cell of
        Some k \<Rightarrow> (Ok k, w)
      | None \<Rightarrow>
          comp_bind (on_ciphers (ask (ks_index_key ks name))) (\<lambda>k w.
            case w_cells w cell of
              Some k' \<Rightarrow> (Ok k', w)
            | None \<Rightarrow> (Ok k, w\<lparr>w_cells := (w_cells w)(cell \<mapsto> k)\<rparr>)) w)"

datatype wire_form = Bytea | TextForm


section \<open>\<open>EncryptTransform\<close>\<close>

record encrypt_transform =
  et_context :: cell_context
  et_index_key_name :: "rstr option"
  et_cell :: nat
  et_strict :: bool

definition encrypt_new :: "cell_context \<Rightarrow> rstr option \<Rightarrow> nat \<Rightarrow> encrypt_transform" where
  "encrypt_new ctx index_key cell =
     \<lparr>et_context = ctx, et_index_key_name = index_key, et_cell = cell, et_strict = False\<rparr>"

definition strict_row_binding :: "bool \<Rightarrow> encrypt_transform \<Rightarrow> encrypt_transform" where
  "strict_row_binding b t = t\<lparr>et_strict := b\<rparr>"

definition index_key :: "'k key_source \<Rightarrow> encrypt_transform \<Rightarrow> ('k world, core_error, key option) comp" where
  "index_key ks t =
     (case et_index_key_name t of
        None \<Rightarrow> comp_ret None
      | Some name \<Rightarrow> comp_bind (once_key ks name (et_cell t)) (\<lambda>k. comp_ret (Some k)))"

definition blind_index :: "externs \<Rightarrow> 'k key_source \<Rightarrow> encrypt_transform \<Rightarrow> bytes \<Rightarrow> ('k world, core_error, bytes option) comp" where
  "blind_index x ks t plaintext =
     comp_bind (index_key ks t) (\<lambda>k. comp_ret (map_option (\<lambda>k. compute x k plaintext) k))"

definition encrypt_seal :: "externs \<Rightarrow> 'k key_source \<Rightarrow> encrypt_transform \<Rightarrow> bytes \<Rightarrow> row_key option
    \<Rightarrow> ('k world, core_error, bytes) comp" where
  "encrypt_seal x ks t plaintext r =
     comp_bind (on_ciphers (ciphers_seal x ks \<lparr>bcontext = et_context t, row = r, strict = False\<rparr> plaintext)) (\<lambda>sealed.
     comp_bind (blind_index x ks t plaintext) (\<lambda>index.
       comp_ret (case index of Some i \<Rightarrow> prepend i sealed | None \<Rightarrow> sealed)))"

definition encrypt_open :: "externs \<Rightarrow> 'k key_source \<Rightarrow> encrypt_transform \<Rightarrow> bytes \<Rightarrow> row_key option
    \<Rightarrow> ('k world, core_error, bytes option) comp" where
  "encrypt_open x ks t stored r =
     (case (case split stored of
              Some (_, enveloped) \<Rightarrow> Some enveloped
            | None \<Rightarrow> if is_enveloped stored then Some stored else None) of
        None \<Rightarrow> comp_ret None
      | Some enveloped \<Rightarrow>
          comp_bind (on_ciphers (ciphers_open x ks \<lparr>bcontext = et_context t, row = r, strict = et_strict t\<rparr> enveloped))
            (\<lambda>v. comp_ret (Some v)))"


section \<open>\<open>FpeTransform\<close>\<close>

record fpe_transform =
  ft_key_name :: rstr
  ft_detokenize :: bool
  ft_cell :: nat

definition MIN_FPE_DIGITS :: nat where
  "MIN_FPE_DIGITS = 6"

definition digit_positions :: "bytes \<Rightarrow> nat list" where
  "digit_positions data = filter (\<lambda>i. is_ascii_digit (data ! i)) [0..<length data]"

definition put_digits :: "bytes \<Rightarrow> (nat \<times> nat) list \<Rightarrow> bytes" where
  "put_digits data pds = foldl (\<lambda>result (position, digit). result[position := byte_of (48 + digit)]) data pds"

definition transform_digits :: "externs \<Rightarrow> 'k key_source \<Rightarrow> fpe_transform \<Rightarrow> bytes \<Rightarrow> bool
    \<Rightarrow> ('k world, core_error, bytes option) comp" where
  "transform_digits x ks t data decrypting =
     (let positions = digit_positions data;
          digits = map (\<lambda>i. unat (data ! i) - 48) positions in
      if length positions < MIN_FPE_DIGITS then comp_ret None
      else
        comp_bind (once_key ks (ft_key_name t) (ft_cell t)) (\<lambda>k.
        comp_bind (comp_of (ok_or (if decrypting then x_ff1_decrypt x k digits else x_ff1_encrypt x k digits) Fpe)) (\<lambda>out.
          comp_ret (Some (put_digits data (zip positions out))))))"

definition fpe_seal :: "externs \<Rightarrow> 'k key_source \<Rightarrow> fpe_transform \<Rightarrow> bytes \<Rightarrow> ('k world, core_error, bytes) comp" where
  "fpe_seal x ks t plaintext =
     comp_bind (transform_digits x ks t plaintext False) (\<lambda>v. comp_of (ok_or v FpeDomain))"

definition fpe_open :: "externs \<Rightarrow> 'k key_source \<Rightarrow> fpe_transform \<Rightarrow> bytes \<Rightarrow> ('k world, core_error, bytes option) comp" where
  "fpe_open x ks t stored =
     (if \<not> ft_detokenize t then comp_ret None else transform_digits x ks t stored True)"


section \<open>\<open>TokenTransform\<close>\<close>

record token_transform =
  tt_key_name :: rstr
  tt_cell :: nat

definition token_seal :: "externs \<Rightarrow> 'k key_source \<Rightarrow> token_transform \<Rightarrow> bytes \<Rightarrow> ('k world, core_error, bytes) comp" where
  "token_seal x ks t plaintext =
     comp_bind (once_key ks (tt_key_name t) (tt_cell t)) (\<lambda>k.
       comp_ret (x_hex_encode x (compute x k plaintext)))"


section \<open>\<open>dyn FieldTransform\<close>\<close>

datatype field_transform =
    EncryptT encrypt_transform
  | FpeT fpe_transform
  | TokenT token_transform

fun tr_seal :: "externs \<Rightarrow> 'k key_source \<Rightarrow> field_transform \<Rightarrow> bytes \<Rightarrow> row_key option
    \<Rightarrow> ('k world, core_error, bytes) comp" where
  "tr_seal x ks (EncryptT t) plaintext r = encrypt_seal x ks t plaintext r"
| "tr_seal x ks (FpeT t) plaintext r = fpe_seal x ks t plaintext"
| "tr_seal x ks (TokenT t) plaintext r = token_seal x ks t plaintext"

fun tr_open :: "externs \<Rightarrow> 'k key_source \<Rightarrow> field_transform \<Rightarrow> bytes \<Rightarrow> row_key option
    \<Rightarrow> ('k world, core_error, bytes option) comp" where
  "tr_open x ks (EncryptT t) stored r = encrypt_open x ks t stored r"
| "tr_open x ks (FpeT t) stored r = fpe_open x ks t stored"
| "tr_open x ks (TokenT t) stored r = comp_ret None"

fun tr_wire :: "field_transform \<Rightarrow> wire_form" where
  "tr_wire (EncryptT t) = Bytea"
| "tr_wire (FpeT t) = TextForm"
| "tr_wire (TokenT t) = TextForm"

fun tr_binds_row :: "field_transform \<Rightarrow> bool" where
  "tr_binds_row (EncryptT t) = True"
| "tr_binds_row (FpeT t) = False"
| "tr_binds_row (TokenT t) = False"

fun tr_search_index :: "externs \<Rightarrow> 'k key_source \<Rightarrow> field_transform \<Rightarrow> bytes
    \<Rightarrow> ('k world, core_error, bytes option) comp" where
  "tr_search_index x ks (EncryptT t) plaintext = blind_index x ks t plaintext"
| "tr_search_index x ks (FpeT t) plaintext = comp_ret None"
| "tr_search_index x ks (TokenT t) plaintext = comp_ret None"

fun tr_supports_search :: "field_transform \<Rightarrow> bool" where
  "tr_supports_search (EncryptT t) = (et_index_key_name t \<noteq> None)"
| "tr_supports_search (FpeT t) = False"
| "tr_supports_search (TokenT t) = False"



section \<open>The state invariant\<close>

text \<open>The cache is sound, and a filled cell holds the key of the name its owner uses.\<close>

definition world_inv :: "('k \<Rightarrow> bool) \<Rightarrow> (key_id \<Rightarrow> key option) \<Rightarrow> (rstr \<Rightarrow> key option) \<Rightarrow> (nat \<Rightarrow> rstr) \<Rightarrow> 'k world \<Rightarrow> bool" where
  "world_inv ok dek ikey nm w \<longleftrightarrow>
     ciphers_inv ok dek (w_ciphers w) \<and> (\<forall>c k. w_cells w c = Some k \<longrightarrow> ikey (nm c) = Some k)"

fun tr_wf :: "(nat \<Rightarrow> rstr) \<Rightarrow> field_transform \<Rightarrow> bool" where
  "tr_wf nm (EncryptT t) = (\<forall>name. et_index_key_name t = Some name \<longrightarrow> nm (et_cell t) = name)"
| "tr_wf nm (FpeT t) = (nm (ft_cell t) = ft_key_name t)"
| "tr_wf nm (TokenT t) = (nm (tt_cell t) = tt_key_name t)"

lemma on_ciphers_Pair: "on_ciphers m w = (r, v) \<longleftrightarrow> (\<exists>c. m (w_ciphers w) = (r, c) \<and> v = w\<lparr>w_ciphers := c\<rparr>)"
  by (auto simp: on_ciphers_def split: prod.splits)

context key_source_laws
begin

lemma once_key_inv:
  assumes "world_inv ok dek ikey nm w" and "nm cell = name" and "once_key ks name cell w = (r, v)"
  shows "world_inv ok dek ikey nm v \<and> (\<forall>k. r = Ok k \<longrightarrow> ikey name = Some k)"
proof (cases "w_cells w cell")
  case (Some k)
  then show ?thesis using assms by (auto simp: once_key_def world_inv_def)
next
  case None
  then have "comp_bind (on_ciphers (ask (ks_index_key ks name))) (\<lambda>k w.
            case w_cells w cell of
              Some k' \<Rightarrow> (Ok k', w)
            | None \<Rightarrow> (Ok k, w\<lparr>w_cells := (w_cells w)(cell \<mapsto> k)\<rparr>)) w = (r, v)"
    using assms(3) by (simp add: once_key_def)
  then show ?thesis
  proof (cases rule: comp_bindE)
    case (err e)
    then show ?thesis
      using assms(1) ok_index by (auto simp: on_ciphers_Pair ask_Pair world_inv_def ciphers_inv_def)
  next
    case (ok k u)
    then have u: "world_inv ok dek ikey nm u" "w_cells u cell = None" "ikey name = Some k"
      using assms(1) None ok_index index_ikey
      by (auto simp: on_ciphers_Pair ask_Pair world_inv_def ciphers_inv_def)
    then show ?thesis using ok(2) assms(2) by (auto simp: world_inv_def split: if_splits)
  qed
qed

lemma index_key_inv:
  assumes "world_inv ok dek ikey nm w" and "tr_wf nm (EncryptT t)" and "index_key ks t w = (r, v)"
  shows "world_inv ok dek ikey nm v
    \<and> (\<forall>k. r = Ok k \<longrightarrow> k = (case et_index_key_name t of None \<Rightarrow> None | Some name \<Rightarrow> ikey name)
         \<and> (k = None \<longleftrightarrow> et_index_key_name t = None))"
proof (cases "et_index_key_name t")
  case None
  then show ?thesis using assms by (auto simp: index_key_def)
next
  case (Some name)
  then have "comp_bind (once_key ks name (et_cell t)) (\<lambda>k. comp_ret (Some k)) w = (r, v)"
    using assms(3) by (simp add: index_key_def)
  then show ?thesis
  proof (cases rule: comp_bindE)
    case (err e)
    then show ?thesis using once_key_inv [OF assms(1) _ err(1)] assms(2) Some by auto
  next
    case (ok k u)
    then show ?thesis using once_key_inv [OF assms(1) _ ok(1)] assms(2) Some by auto
  qed
qed

lemma blind_index_inv:
  assumes "world_inv ok dek ikey nm w" and "tr_wf nm (EncryptT t)" and "blind_index x ks t pt w = (r, v)"
  shows "world_inv ok dek ikey nm v"
    and "r = Ok i \<Longrightarrow> i = (case et_index_key_name t of None \<Rightarrow> None
           | Some name \<Rightarrow> map_option (\<lambda>k. compute x k pt) (ikey name)) \<and> (i = None \<longleftrightarrow> et_index_key_name t = None)"
proof -
  have "world_inv ok dek ikey nm v \<and> (r = Ok i \<longrightarrow> i = (case et_index_key_name t of None \<Rightarrow> None
           | Some name \<Rightarrow> map_option (\<lambda>k. compute x k pt) (ikey name)) \<and> (i = None \<longleftrightarrow> et_index_key_name t = None))"
    using assms(3) unfolding blind_index_def
  proof (cases rule: comp_bindE)
    case (err e)
    then show ?thesis using index_key_inv [OF assms(1,2) err(1)] by simp
  next
    case (ok k u)
    then show ?thesis using index_key_inv [OF assms(1,2) ok(1)] by (auto split: option.splits)
  qed
  then show "world_inv ok dek ikey nm v"
    and "r = Ok i \<Longrightarrow> i = (case et_index_key_name t of None \<Rightarrow> None
           | Some name \<Rightarrow> map_option (\<lambda>k. compute x k pt) (ikey name)) \<and> (i = None \<longleftrightarrow> et_index_key_name t = None)"
    by blast+
qed

end



section \<open>Format-preserving encryption keeps the shape\<close>

lemma put_digits_Nil [simp]: "put_digits data [] = data"
  by (simp add: put_digits_def)

lemma put_digits_Cons [simp]:
  "put_digits data ((p, d) # r) = put_digits (data[p := byte_of (48 + d)]) r"
  by (simp add: put_digits_def)

lemma length_put_digits [simp]: "length (put_digits data pds) = length data"
  by (induction pds arbitrary: data) auto

lemma put_digits_nth:
  assumes "distinct (map fst pds)" and "i < length data"
  shows "put_digits data pds ! i = (case map_of pds i of None \<Rightarrow> data ! i | Some d \<Rightarrow> byte_of (48 + d))"
  using assms
proof (induction pds arbitrary: data)
  case Nil
  then show ?case by simp
next
  case (Cons pd r)
  obtain p d where pd: "pd = (p, d)" by force
  have "map_of r p = None" using Cons.prems(1) pd by (auto simp: map_of_eq_None_iff)
  then show ?case using Cons pd by (auto simp: nth_list_update split: option.splits)
qed

lemma digit_positions_distinct [simp]: "distinct (digit_positions data)"
  by (simp add: digit_positions_def)

lemma set_digit_positions: "set (digit_positions data) = {i. i < length data \<and> is_ascii_digit (data ! i)}"
  by (auto simp: digit_positions_def)

lemma is_ascii_digit_byte_of: "d < 10 \<Longrightarrow> is_ascii_digit (byte_of (48 + d)) \<and> unat (byte_of (48 + d)) - 48 = d"
  by (simp add: is_ascii_digit_def)

definition digits_of :: "bytes \<Rightarrow> nat list" where
  "digits_of data = map (\<lambda>i. unat (data ! i) - 48) (digit_positions data)"

lemma decimal_digits_of: "decimal (digits_of data)"
  by (auto simp: decimal_def digits_of_def set_digit_positions is_ascii_digit_def)

text \<open>Writing other digits in the digit positions.\<close>

lemma put_digits_positions:
  assumes "length out = length (digit_positions data)" and "decimal out"
  defines "s \<equiv> put_digits data (zip (digit_positions data) out)"
  shows "digit_positions s = digit_positions data" and "digits_of s = out"
    and "put_digits s (zip (digit_positions data) (digits_of data)) = data"
    and "\<And>i. i < length data \<Longrightarrow> \<not> is_ascii_digit (data ! i) \<Longrightarrow> s ! i = data ! i"
proof -
  let ?ps = "digit_positions data"
  have dist: "distinct (map fst (zip ?ps ds))" if "length ds = length ?ps" for ds :: "nat list"
    using that by simp
  have key: "map_of (zip ?ps ds) i = None" if "length ds = length ?ps" "i \<notin> set ?ps" for i and ds :: "nat list"
    using that by (simp add: map_of_zip_is_None)
  have at: "map_of (zip ?ps ds) (?ps ! j) = Some (ds ! j)" if "length ds = length ?ps" "j < length ?ps" for j and ds :: "nat list"
    using that by (simp add: map_of_zip_nth)
  have other: "s ! i = data ! i" if "i < length data" "i \<notin> set ?ps" for i
    using that assms(1) by (simp add: s_def put_digits_nth dist key [OF assms(1)])
  have digit: "s ! (?ps ! j) = byte_of (48 + out ! j)" if "j < length ?ps" for j
    using that assms(1) at [OF assms(1) that] nth_mem [OF that]
    by (simp add: s_def put_digits_nth dist set_digit_positions)
  have ten: "out ! j < 10" if "j < length ?ps" for j
    using assms(1,2) that by (simp add: decimal_def)
  have "is_ascii_digit (s ! i) \<longleftrightarrow> i \<in> set ?ps" if i: "i < length data" for i
  proof (cases "i \<in> set ?ps")
    case True
    then obtain j where "j < length ?ps" "i = ?ps ! j" by (auto simp: in_set_conv_nth)
    then show ?thesis using digit ten is_ascii_digit_byte_of True by simp
  next
    case False
    then show ?thesis using other [OF i] i by (simp add: set_digit_positions)
  qed
  then show pos: "digit_positions s = ?ps"
    unfolding digit_positions_def [of s] digit_positions_def [of data]
    by (auto simp: s_def set_digit_positions intro!: filter_cong)
  show "digits_of s = out"
  proof (rule nth_equalityI)
    fix j assume "j < length (digits_of s)"
    then have j: "j < length ?ps" by (simp add: digits_of_def pos)
    then show "digits_of s ! j = out ! j"
      using digit [OF j] is_ascii_digit_byte_of [OF ten [OF j]] by (simp add: digits_of_def pos)
  qed (simp add: digits_of_def pos assms(1))
  show "put_digits s (zip ?ps (digits_of data)) = data"
  proof (rule nth_equalityI)
    fix i assume "i < length (put_digits s (zip ?ps (digits_of data)))"
    then have i: "i < length data" by (simp add: s_def)
    have len: "length (digits_of data) = length ?ps" by (simp add: digits_of_def)
    have "i < length s" using i by (simp add: s_def)
    note nth = put_digits_nth [OF dist [OF len] this]
    show "put_digits s (zip ?ps (digits_of data)) ! i = data ! i"
    proof (cases "i \<in> set ?ps")
      case True
      then obtain j where j: "j < length ?ps" "i = ?ps ! j" by (auto simp: in_set_conv_nth)
      have "48 + digits_of data ! j = unat (data ! i)"
        using j True by (auto simp: digits_of_def set_digit_positions is_ascii_digit_def)
      then have "byte_of (48 + digits_of data ! j) = data ! i" by simp
      then show ?thesis
        unfolding nth using at [OF len j(1)] j by simp
    next
      case False
      then show ?thesis
        unfolding nth using other [OF i False] key [OF len False] by simp
    qed
  qed (simp add: s_def)
  show "\<And>i. i < length data \<Longrightarrow> \<not> is_ascii_digit (data ! i) \<Longrightarrow> s ! i = data ! i"
    using other by (simp add: set_digit_positions)
qed



section \<open>What each transform stores\<close>

definition aead_laws :: "externs \<Rightarrow> bool" where
  "aead_laws x \<longleftrightarrow> gcm_correct x \<and> gcm_authentic x \<and> gcm_tagged x \<and> nonce_sized x"

definition sealed_for :: "externs \<Rightarrow> (key_id \<Rightarrow> key option) \<Rightarrow> cell_context \<Rightarrow> row_key option \<Rightarrow> bytes \<Rightarrow> bytes \<Rightarrow> bool" where
  "sealed_for x dek ctx r pt e \<longleftrightarrow>
     (\<exists>i k n. length i = 16 \<and> dek i = Some k
        \<and> seal_with x k (x_nonce x n) i \<lparr>bcontext = ctx, row = r, strict = False\<rparr> pt = Ok e)"

lemma sealed_for_enveloped:
  "aead_laws x \<Longrightarrow> sealed_for x dek ctx r pt e \<Longrightarrow> is_enveloped e"
  unfolding sealed_for_def aead_laws_def by (metis nonce_sizedD seal_with_is_enveloped(1))

lemma split_prepend: "length i = 32 \<Longrightarrow> is_enveloped e \<Longrightarrow> split (prepend i e) = Some (i, e)"
  by (simp add: split_def prepend_def BLIND_INDEX_LEN_def)

context key_source_laws
begin

lemma encrypt_seal_inv:
  assumes "world_inv ok dek ikey nm w" and "tr_wf nm (EncryptT t)" and "encrypt_seal x ks t pt r w = (q, v)"
  shows "world_inv ok dek ikey nm v"
    and "q = Ok s \<Longrightarrow> \<exists>e. sealed_for x dek (et_context t) r pt e \<and>
      s = (case et_index_key_name t of None \<Rightarrow> e | Some name \<Rightarrow> prepend (compute x (the (ikey name)) pt) e)"
proof -
  let ?b = "\<lparr>bcontext = et_context t, row = r, strict = False\<rparr>"
  have "world_inv ok dek ikey nm v \<and> (q = Ok s \<longrightarrow> (\<exists>e. sealed_for x dek (et_context t) r pt e \<and>
      s = (case et_index_key_name t of None \<Rightarrow> e | Some name \<Rightarrow> prepend (compute x (the (ikey name)) pt) e)))"
    using assms(3) unfolding encrypt_seal_def
  proof (cases rule: comp_bindE)
    case (err e)
    then obtain c where "ciphers_seal x ks ?b pt (w_ciphers w) = (Err e, c)" "v = w\<lparr>w_ciphers := c\<rparr>"
      by (auto simp: on_ciphers_Pair)
    then show ?thesis using ciphers_seal_inv(1) assms(1) err(2) by (auto simp: world_inv_def)
  next
    case (ok e u)
    then obtain c where c: "ciphers_seal x ks ?b pt (w_ciphers w) = (Ok e, c)" "u = w\<lparr>w_ciphers := c\<rparr>"
      by (auto simp: on_ciphers_Pair)
    have u: "world_inv ok dek ikey nm u"
      using ciphers_seal_inv(1) [OF _ c(1)] c(2) assms(1) by (auto simp: world_inv_def)
    have e: "sealed_for x dek (et_context t) r pt e"
      using ciphers_seal_inv(2) [OF _ c(1)] assms(1) by (auto simp: world_inv_def sealed_for_def)
    from ok(2) show ?thesis
    proof (cases rule: comp_bindE)
      case (err e')
      then show ?thesis using blind_index_inv(1) [OF u assms(2) err(1)] by simp
    next
      case (ok ix u')
      then show ?thesis
        using blind_index_inv [OF u assms(2) ok(1)] e by (auto split: option.splits)
    qed
  qed
  then show "world_inv ok dek ikey nm v"
    and "q = Ok s \<Longrightarrow> \<exists>e. sealed_for x dek (et_context t) r pt e \<and>
      s = (case et_index_key_name t of None \<Rightarrow> e | Some name \<Rightarrow> prepend (compute x (the (ikey name)) pt) e)"
    by blast+
qed

lemma encrypt_open_inv:
  assumes "world_inv ok dek ikey nm w" and "encrypt_open x ks t s r w = (q, v)"
  shows "world_inv ok dek ikey nm v"
proof -
  have op: "world_inv ok dek ikey nm u" if "on_ciphers (ciphers_open x ks b e) w = (p, u)" for b e p u
    using that assms(1) ciphers_open_inv by (auto simp: on_ciphers_Pair world_inv_def)
  show ?thesis
    using assms(2,1) op unfolding encrypt_open_def
    by (auto split: option.splits if_splits prod.splits elim!: comp_bindE)
qed

lemma transform_digits_inv:
  assumes "world_inv ok dek ikey nm w" and "tr_wf nm (FpeT t)" and "transform_digits x ks t data dc w = (q, v)"
  shows "world_inv ok dek ikey nm v"
    and "q = Ok s \<Longrightarrow> s = None \<and> length (digit_positions data) < 6 \<or>
      6 \<le> length (digit_positions data) \<and> (\<exists>k out. ikey (ft_key_name t) = Some k
        \<and> (if dc then x_ff1_decrypt x k (digits_of data) else x_ff1_encrypt x k (digits_of data)) = Some out
        \<and> s = Some (put_digits data (zip (digit_positions data) out)))"
proof -
  note key = once_key_inv [OF assms(1)]
  have "world_inv ok dek ikey nm v \<and> (q = Ok s \<longrightarrow> s = None \<and> length (digit_positions data) < 6 \<or>
      6 \<le> length (digit_positions data) \<and> (\<exists>k out. ikey (ft_key_name t) = Some k
        \<and> (if dc then x_ff1_decrypt x k (digits_of data) else x_ff1_encrypt x k (digits_of data)) = Some out
        \<and> s = Some (put_digits data (zip (digit_positions data) out))))"
  proof (cases "length (digit_positions data) < 6")
    case True
    then show ?thesis
      using assms by (auto simp: transform_digits_def Let_def MIN_FPE_DIGITS_def)
  next
    case False
    then have "comp_bind (once_key ks (ft_key_name t) (ft_cell t)) (\<lambda>k.
        comp_bind (comp_of (ok_or (if dc then x_ff1_decrypt x k (digits_of data) else x_ff1_encrypt x k (digits_of data)) Fpe))
          (\<lambda>out. comp_ret (Some (put_digits data (zip (digit_positions data) out))))) w = (q, v)"
      using assms(3) unfolding transform_digits_def digits_of_def Let_def MIN_FPE_DIGITS_def by simp
    then show ?thesis
    proof (cases rule: comp_bindE)
      case (err e)
      then show ?thesis using key [OF _ err(1)] assms(2) by simp
    next
      case (ok k u)
      then have k: "world_inv ok dek ikey nm u" "ikey (ft_key_name t) = Some k"
        using key [OF _ ok(1)] assms(2) by simp_all
      from ok(2) show ?thesis using k False
        by (cases rule: comp_bindE) (auto simp: res_simps)
    qed
  qed
  then show "world_inv ok dek ikey nm v"
    and "q = Ok s \<Longrightarrow> s = None \<and> length (digit_positions data) < 6 \<or>
      6 \<le> length (digit_positions data) \<and> (\<exists>k out. ikey (ft_key_name t) = Some k
        \<and> (if dc then x_ff1_decrypt x k (digits_of data) else x_ff1_encrypt x k (digits_of data)) = Some out
        \<and> s = Some (put_digits data (zip (digit_positions data) out)))"
    by blast+
qed

text \<open>Every operation of every transform keeps the state sound.\<close>

lemma tr_seal_inv:
  assumes "world_inv ok dek ikey nm w" and "tr_wf nm t" and "tr_seal x ks t pt r w = (q, v)"
  shows "world_inv ok dek ikey nm v"
proof (cases t)
  case (EncryptT e)
  then show ?thesis using assms encrypt_seal_inv(1) by auto
next
  case (FpeT f)
  then show ?thesis
    using assms transform_digits_inv(1) by (auto simp: fpe_seal_def elim!: comp_bindE)
next
  case (TokenT k)
  then show ?thesis
    using assms once_key_inv by (auto simp: token_seal_def elim!: comp_bindE)
qed

lemma tr_open_inv:
  assumes "world_inv ok dek ikey nm w" and "tr_wf nm t" and "tr_open x ks t s r w = (q, v)"
  shows "world_inv ok dek ikey nm v"
proof (cases t)
  case (EncryptT e)
  then show ?thesis using assms encrypt_open_inv by auto
next
  case (FpeT f)
  then show ?thesis
    using assms transform_digits_inv(1) by (auto simp: fpe_open_def split: if_splits)
next
  case (TokenT k)
  then show ?thesis using assms by simp
qed

end



section \<open>The contract of a field transform\<close>

text \<open>
  What the protector and the proxy rely on: operations keep the process state sound, and a
  stored form that can be told from passed-through plaintext (\<open>good\<close>) opens to the value that
  was sealed, in any sound state.
\<close>

locale reversible_transform =
  fixes seal :: "bytes \<Rightarrow> row_key option \<Rightarrow> ('w, core_error, bytes) comp"
    and opn :: "bytes \<Rightarrow> row_key option \<Rightarrow> ('w, core_error, bytes option) comp"
    and inv :: "'w \<Rightarrow> bool"
    and good :: "bytes \<Rightarrow> bool"
  assumes seal_inv: "inv w \<Longrightarrow> seal pt r w = (q, v) \<Longrightarrow> inv v"
    and open_inv: "inv w \<Longrightarrow> opn s r w = (p, v) \<Longrightarrow> inv v"
    and open_seal: "inv w \<Longrightarrow> inv u \<Longrightarrow> seal pt r w = (Ok s, v) \<Longrightarrow> good s \<Longrightarrow>
      fst (opn s r u) = Ok (Some pt)"
begin

text \<open>Sealing then opening, one after the other.\<close>

lemma seal_then_open:
  "inv w \<Longrightarrow> seal pt r w = (Ok s, v) \<Longrightarrow> good s \<Longrightarrow> fst (opn s r v) = Ok (Some pt)"
  using seal_inv open_seal by blast

text \<open>Two values sealed for the same row never share a stored form, whenever they were sealed.\<close>

lemma stored_form_inject:
  "inv w \<Longrightarrow> inv u \<Longrightarrow> seal pt r w = (Ok s, v) \<Longrightarrow> seal pt' r u = (Ok s, v') \<Longrightarrow> good s \<Longrightarrow> pt = pt'"
  using open_seal [of w w pt r s v] open_seal [of u w pt' r s v'] by simp

end

text \<open>
  A stored form is good when the transform is reversible and, for an envelope without a blind
  index, when its ciphertext is not taken for an index with an envelope behind it.
\<close>

fun tr_good :: "externs \<Rightarrow> field_transform \<Rightarrow> bytes \<Rightarrow> bool" where
  "tr_good x (EncryptT t) s = (aead_laws x \<and> hmac_sized x \<and> (et_index_key_name t = None \<longrightarrow> split s = None))"
| "tr_good x (FpeT t) s = (ff1_correct x \<and> ft_detokenize t)"
| "tr_good x (TokenT t) s = False"

context available_source
begin

lemma ciphers_open_sealed:
  assumes "aead_laws x" and "sealed_for x dek ctx r pt e" and "ciphers_inv ok dek s"
  shows "fst (ciphers_open x ks \<lparr>bcontext = ctx, row = r, strict = st\<rparr> e s) = Ok pt"
proof -
  obtain i k n where i: "length i = 16" "dek i = Some k"
    "seal_with x k (x_nonce x n) i \<lparr>bcontext = ctx, row = r, strict = False\<rparr> pt = Ok e"
    using assms(2) by (auto simp: sealed_for_def)
  have laws: "gcm_correct x" "gcm_authentic x" "gcm_tagged x" "length (x_nonce x n) = 12"
    using assms(1) by (simp_all add: aead_laws_def)
  note e = seal_with_is_enveloped [OF laws(3) i(1) laws(4) i(3)]
  then have "fst (ciphers_open x ks \<lparr>bcontext = ctx, row = r, strict = st\<rparr> e s)
      = decrypt x k \<lparr>bcontext = ctx, row = r, strict = st\<rparr> e"
    using ciphers_open_is_decrypt [OF assms(3) _ i(2)] by (simp add: key_id_of_def)
  also have "\<dots> = Ok pt"
  proof (cases r)
    case None
    then show ?thesis using decrypt_sealed [OF laws(1-3) i(1) laws(4) i(3)] by simp
  next
    case (Some r')
    then obtain a where "aad_with_row ctx i r' = Ok a"
      using i(3) by (auto simp: seal_with_Ok)
    then show ?thesis using decrypt_sealed [OF laws(1-3) i(1) laws(4) i(3)] Some by simp
  qed
  finally show ?thesis .
qed

lemma ciphers_open_sealed_only:
  assumes "aead_laws x" and "sealed_for x dek ctx r pt e" and "ciphers_inv ok dek s"
    and "fst (ciphers_open x ks b e s) = Ok m"
  shows "bcontext b = ctx \<and> (r \<noteq> None \<longrightarrow> row b = r) \<and> m = pt"
proof -
  obtain i k n where i: "length i = 16" "dek i = Some k"
    "seal_with x k (x_nonce x n) i \<lparr>bcontext = ctx, row = r, strict = False\<rparr> pt = Ok e"
    using assms(2) by (auto simp: sealed_for_def)
  have laws: "gcm_correct x" "gcm_authentic x" "gcm_tagged x" "length (x_nonce x n) = 12"
    using assms(1) by (simp_all add: aead_laws_def)
  note e = seal_with_is_enveloped [OF laws(3) i(1) laws(4) i(3)]
  then have "decrypt x k b e = Ok m"
    using ciphers_open_is_decrypt [OF assms(3) _ i(2)] assms(4) by (simp add: key_id_of_def)
  then show ?thesis
    unfolding decrypt_sealed [OF laws(1-3) i(1) laws(4) i(3)]
    by (auto simp: res_simps split: option.splits if_splits)
qed

lemma encrypt_open_only:
  assumes "aead_laws x" and "sealed_for x dek ctx r pt env" and "world_inv ok dek ikey nm u"
    and "(case split s of Some (_, enveloped) \<Rightarrow> Some enveloped
            | None \<Rightarrow> if is_enveloped s then Some s else None) = Some env"
    and "fst (encrypt_open x ks t s r' u) = Ok q"
  shows "q = Some pt \<and> et_context t = ctx \<and> (r \<noteq> None \<longrightarrow> r' = r)"
proof -
  let ?b = "\<lparr>bcontext = et_context t, row = r', strict = et_strict t\<rparr>"
  obtain m c where m: "ciphers_open x ks ?b env (w_ciphers u) = (m, c)" by force
  have "fst (comp_bind (on_ciphers (ciphers_open x ks ?b env)) (\<lambda>v. comp_ret (Some v)) u) = Ok q"
    using assms(4,5) unfolding encrypt_open_def by simp
  then obtain v where v: "m = Ok v" "q = Some v"
    using m by (cases m) (auto simp: comp_bind_def on_ciphers_def)
  have "ciphers_inv ok dek (w_ciphers u)" using assms(3) by (simp add: world_inv_def)
  from ciphers_open_sealed_only [OF assms(1,2) this, of ?b v] m v show ?thesis by simp
qed

lemma encrypt_open_enveloped:
  assumes "(case split s of Some (_, enveloped) \<Rightarrow> Some enveloped
            | None \<Rightarrow> if is_enveloped s then Some s else None) = Some e"
    and "fst (ciphers_open x ks \<lparr>bcontext = et_context t, row = r, strict = et_strict t\<rparr> e (w_ciphers u)) = Ok pt"
  shows "fst (encrypt_open x ks t s r u) = Ok (Some pt)"
proof -
  obtain c where "ciphers_open x ks \<lparr>bcontext = et_context t, row = r, strict = et_strict t\<rparr> e (w_ciphers u) = (Ok pt, c)"
    using assms(2) by (metis prod.collapse)
  then have "on_ciphers (ciphers_open x ks \<lparr>bcontext = et_context t, row = r, strict = et_strict t\<rparr> e) u
      = (Ok pt, u\<lparr>w_ciphers := c\<rparr>)"
    by (simp add: on_ciphers_Pair)
  then show ?thesis
    unfolding encrypt_open_def assms(1) by simp
qed

lemma once_key_available:
  assumes "world_inv ok dek ikey nm w" and "nm cell = name" and "ikey name = Some k"
  shows "\<exists>v. once_key ks name cell w = (Ok k, v)"
proof (cases "w_cells w cell")
  case None
  have "ok (c_keys (w_ciphers w))" using assms(1) by (simp add: world_inv_def ciphers_inv_def)
  then obtain k' where "ks_index_key ks name (c_keys (w_ciphers w)) = (Ok k, k')"
    using index_available assms(3) by blast
  then have "on_ciphers (ask (ks_index_key ks name)) w = (Ok k, w\<lparr>w_ciphers := w_ciphers w\<lparr>c_keys := k'\<rparr>\<rparr>)"
    by (simp add: on_ciphers_Pair ask_Pair)
  then show ?thesis using None by (simp add: once_key_def)
next
  case (Some k')
  then have "k' = k" using assms by (fastforce simp: world_inv_def)
  then show ?thesis using Some by (simp add: once_key_def)
qed

lemma fpe_round_trip:
  assumes "ff1_correct x" and "world_inv ok dek ikey nm w" and "world_inv ok dek ikey nm u" and "tr_wf nm (FpeT t)"
    and "fpe_seal x ks t pt w = (Ok s, v)"
  shows "fst (transform_digits x ks t s True u) = Ok (Some pt)"
proof -
  obtain v' where "transform_digits x ks t pt False w = (Ok (Some s), v')"
    using assms(5) by (auto simp: fpe_seal_def comp_bind_eq_Ok res_simps)
  from transform_digits_inv(2) [OF assms(2,4) this] obtain k out where k: "ikey (ft_key_name t) = Some k"
    and six: "6 \<le> length (digit_positions pt)"
    and out: "x_ff1_encrypt x k (digits_of pt) = Some out"
    and s: "s = put_digits pt (zip (digit_positions pt) out)"
    by auto
  have dec: "decimal out" "length out = length (digit_positions pt)" "x_ff1_decrypt x k out = Some (digits_of pt)"
    using ff1_correctD [OF assms(1) decimal_digits_of out] by (simp_all add: digits_of_def)
  note pos = put_digits_positions [OF dec(2,1), folded s]
  obtain u' where "once_key ks (ft_key_name t) (ft_cell t) u = (Ok k, u')"
    using once_key_available [OF assms(3) _ k] assms(4) by auto
  then show ?thesis
    unfolding transform_digits_def Let_def pos(1) digits_of_def [of s, unfolded pos(1), symmetric] pos(2)
    using six dec(3) pos(3) by (simp add: MIN_FPE_DIGITS_def)
qed

lemma tr_open_seal:
  assumes w: "world_inv ok dek ikey nm w" and u: "world_inv ok dek ikey nm u" and wf: "tr_wf nm t"
    and seal: "tr_seal x ks t pt r w = (Ok s, v)" and good: "tr_good x t s"
  shows "fst (tr_open x ks t s r u) = Ok (Some pt)"
proof (cases t)
  case (EncryptT e)
  then have laws: "aead_laws x" "hmac_sized x" using good by simp_all
  obtain env where env: "sealed_for x dek (et_context e) r pt env" and
    s: "s = (case et_index_key_name e of None \<Rightarrow> env | Some name \<Rightarrow> prepend (compute x (the (ikey name)) pt) env)"
    using encrypt_seal_inv(2) [OF w, of e x pt r "Ok s" v s] wf seal EncryptT by auto
  have en: "is_enveloped env" by (rule sealed_for_enveloped [OF laws(1) env])
  have "length (compute x k pt) = 32" for k using laws(2) by (simp add: compute_def)
  then have "(case split s of Some (_, enveloped) \<Rightarrow> Some enveloped
            | None \<Rightarrow> if is_enveloped s then Some s else None) = Some env"
    using good EncryptT en by (cases "et_index_key_name e") (simp_all add: s split_prepend)
  from encrypt_open_enveloped [OF this] show ?thesis
    using ciphers_open_sealed [OF laws(1) env] u EncryptT by (simp add: world_inv_def)
next
  case (FpeT f)
  then show ?thesis
    using fpe_round_trip [OF _ w u _ ] wf seal good by (simp add: fpe_open_def)
next
  case (TokenT k)
  then show ?thesis using good by simp
qed

end

sublocale available_source \<subseteq> tr: reversible_transform "tr_seal x ks t" "tr_open x ks t"
    "\<lambda>w. world_inv ok dek ikey nm w \<and> tr_wf nm t" "tr_good x t" for x nm t
  by unfold_locales (auto intro: tr_seal_inv tr_open_inv tr_open_seal)



section \<open>Properties\<close>

text \<open>A process over the sample keyfile, and a column of it.\<close>

definition sample_world :: "file_key_source world" where
  "sample_world = \<lparr>w_ciphers = ciphers_new sample_file, w_cells = Map.empty\<rparr>"

abbreviation sample_src :: "file_key_source \<Rightarrow> bool" where
  "sample_src \<equiv> \<lambda>k. k = sample_file \<and> fks_wf sample_file"

lemma sample_world_inv:
  "world_inv sample_src (fkeys sample_file) (index_keys sample_file) nm sample_world"
  using sample_file_inv by (simp add: world_inv_def sample_world_def)

lemma sample_once_key:
  "\<exists>v. once_key (file_source x) sample_column cell sample_world = (Ok sample_key, v)"
proof -
  have "index_keys sample_file sample_column = Some sample_key" by (simp add: sample_file_def)
  from fks.once_key_available [OF sample_world_inv [of "\<lambda>_. sample_column"] refl this] show ?thesis
    by simp
qed

text \<open>
  Format-preserving encryption preserves the format: it refuses a value with fewer than
  six digits and stores nothing for it; otherwise the stored form has the same length, digits
  exactly where the value has digits, and every other byte unchanged.
\<close>

theorem fpe_seal_shape:
  assumes "ff1_correct x" and "key_source_laws ks ok dek ikey" and "world_inv ok dek ikey nm w"
    and "tr_wf nm (FpeT t)" and "fpe_seal x ks t pt w = (q, v)"
  shows "(length (digit_positions pt) < MIN_FPE_DIGITS \<longrightarrow> q = Err FpeDomain)
    \<and> (\<forall>s. q = Ok s \<longrightarrow> length s = length pt \<and> digit_positions s = digit_positions pt
         \<and> (\<forall>i < length pt. \<not> is_ascii_digit (pt ! i) \<longrightarrow> s ! i = pt ! i))"
proof -
  obtain p u where p: "transform_digits x ks t pt False w = (p, u)" by force
  have q: "q = res_bind p (\<lambda>v. ok_or v FpeDomain)"
    using assms(5) p by (cases p) (auto simp: fpe_seal_def comp_bind_def)
  note inv = key_source_laws.transform_digits_inv(2) [OF assms(2-4) p]
  have few: "q = Err FpeDomain" if "length (digit_positions pt) < MIN_FPE_DIGITS"
    using that p q by (auto simp: transform_digits_def Let_def)
  have "length s = length pt \<and> digit_positions s = digit_positions pt
      \<and> (\<forall>i < length pt. \<not> is_ascii_digit (pt ! i) \<longrightarrow> s ! i = pt ! i)" if "q = Ok s" for s
  proof -
    have "res_bind p (\<lambda>v. ok_or v FpeDomain) = Ok s" using q that by simp
    then have "p = Ok (Some s)" by (auto simp: res_simps)
    from inv [OF this] obtain k out where out: "x_ff1_encrypt x k (digits_of pt) = Some out"
      and s: "s = put_digits pt (zip (digit_positions pt) out)"
      by auto
    have "length out = length (digit_positions pt)" "decimal out"
      using ff1_correctD [OF assms(1) decimal_digits_of out] by (simp_all add: digits_of_def)
    from put_digits_positions [OF this] show ?thesis by (simp add: s)
  qed
  with few show ?thesis by blast
qed

theorem fpe_seal_shape_witness:
  "\<exists>q v. fpe_seal sample (file_source sample) \<lparr>ft_key_name = sample_column, ft_detokenize = True, ft_cell = 0\<rparr>
       (bs ''12-34'') sample_world = (q, v) \<and> q = Err FpeDomain"
proof -
  let ?t = "\<lparr>ft_key_name = sample_column, ft_detokenize = True, ft_cell = 0\<rparr>"
  obtain q v where q: "fpe_seal sample (file_source sample) ?t (bs ''12-34'') sample_world = (q, v)"
    by force
  have "tr_wf (\<lambda>_. sample_column) (FpeT ?t)" by simp
  moreover have "length (digit_positions (bs ''12-34'')) < MIN_FPE_DIGITS" by code_simp
  ultimately have "q = Err FpeDomain"
    using fpe_seal_shape [OF sample_ff1_correct fks.key_source_laws_axioms sample_world_inv _ q, of "\<lambda>_. sample_column"]
    by blast
  then show ?thesis using q by blast
qed

text \<open>
  Ciphertext is never passed through as if it were a value: the read path lets a stored
  value of an encrypted column through untouched only if it is no envelope, with or without a
  blind index in front, whatever the column's current settings.
\<close>

theorem encrypt_open_passthrough:
  "fst (encrypt_open x ks t stored r w) = Ok None \<longleftrightarrow> split stored = None \<and> \<not> is_enveloped stored"
proof -
  have "fst (comp_bind m (\<lambda>v. comp_ret (Some v)) w) \<noteq> Ok None" for m :: "('a world, core_error, bytes) comp" and w
    by (cases "m w"; cases "fst (m w)") (auto simp: comp_bind_def)
  then show ?thesis
    by (auto simp: encrypt_open_def split: option.splits)
qed

text \<open>
  C12. An envelope without a blind index is misread when its ciphertext happens to begin with
  one of the envelope magics: the header is taken for a blind index and the ciphertext for an
  envelope under a key id read out of the ciphertext, so the value the column itself just sealed
  does not open (here: for an id the key source does not know).
\<close>

theorem open_misreads_unlucky_ciphertext:
  assumes "key_source_laws ks ok dek ikey" and "world_inv ok dek ikey nm u"
    and "et_index_key_name t = None" and "encrypt_seal x ks t pt r w = (Ok s, v)"
    and "split s = Some (i, inner)" and "dek (header_key_id inner) = None"
  shows "\<exists>e. fst (encrypt_open x ks t s r u) = Err e"
proof -
  let ?id = "header_key_id inner"
  obtain q c where q: "for_id ks ?id (w_ciphers u) = (q, c)" by force
  have "\<exists>e. q = Err e"
  proof (cases q)
    case (Inr a)
    have "ciphers_inv ok dek (w_ciphers u)" using assms(2) by (simp add: world_inv_def)
    from key_source_laws.for_id_inv [OF assms(1) this q] Inr have "dek ?id = Some (gcm (c_heap c ! a))"
      by (simp add: ciphers_inv_def)
    then show ?thesis using assms(6) by simp
  qed auto
  then obtain e where e: "q = Err e" by blast
  have "is_enveloped inner" using assms(5) by (auto simp: split_def split: option.splits if_splits)
  then have "fst (ciphers_open x ks b inner (w_ciphers u)) = Err e" for b
    using q e by (simp add: ciphers_open_def key_id_of_def)
  then obtain c' where "ciphers_open x ks \<lparr>bcontext = et_context t, row = r, strict = et_strict t\<rparr> inner (w_ciphers u)
      = (Err e, c')"
    by (metis prod.collapse)
  then have "on_ciphers (ciphers_open x ks \<lparr>bcontext = et_context t, row = r, strict = et_strict t\<rparr> inner) u
      = (Err e, u\<lparr>w_ciphers := c'\<rparr>)"
    by (simp add: on_ciphers_Pair)
  then show ?thesis using assms(5) by (simp add: encrypt_open_def)
qed

definition unlucky :: externs where
  "unlucky = sample\<lparr>x_gcm_encrypt := \<lambda>k n a m. Some (MAGIC @ sample_mark a @ m),
     x_gcm_decrypt := \<lambda>k n a c. strip_prefix (MAGIC @ sample_mark a) c\<rparr>"

theorem open_misreads_unlucky_ciphertext_witness:
  "\<exists>s v e. encrypt_seal unlucky (file_source unlucky) (encrypt_new sample_column None 0) [9] None sample_world = (Ok s, v)
     \<and> fst (encrypt_open unlucky (file_source unlucky) (encrypt_new sample_column None 0) s None sample_world) = Err e"
proof -
  let ?t = "encrypt_new sample_column None 0" and ?f = "file_source unlucky"
  let ?ct = "MAGIC @ sample_mark (aad sample_column sample_id) @ [9]"
  have n: "length (x_nonce unlucky i) = 12" for i
    by (simp add: unlucky_def sample_def)
  obtain v where seal: "encrypt_seal unlucky ?f ?t [9] None sample_world
      = (Ok (MAGIC @ sample_id @ x_nonce unlucky 0 @ ?ct), v)"
    by (simp add: encrypt_seal_def encrypt_new_def sample_world_def on_ciphers_def ciphers_seal_def
        ciphers_active_def ciphers_new_def ciphers_with_budget_def comp_bind_def ask_def file_source_def
        fks_active_key_def sample_file_def install_active_def alloc_def encrypt_at_def cipher_encrypt_def
        cipher_with_budget_def seal_with_def MAX_ENCRYPTIONS_PER_KEY_def unlucky_def blind_index_def index_key_def)
  have inner: "?ct = MAGIC @ replicate 16 1 @ replicate 12 1 @ (replicate 20 1 @ 0 # aad sample_column sample_id) @ [9]"
  proof -
    have "replicate (length (aad sample_column sample_id) + 16) (1 :: byte) = replicate 16 1 @ replicate 12 1 @ replicate 20 1"
      by (simp add: aad_def flip: replicate_add)
    then show ?thesis by (simp add: sample_mark_def)
  qed
  have "MAGIC \<in> set magics" by (simp add: magics_def)
  note hf = header_fields [OF this, of "replicate 16 1" "replicate 12 1" "(replicate 20 1 @ 0 # aad sample_column sample_id) @ [9]"]
  have env: "is_enveloped ?ct" "header_key_id ?ct = replicate 16 1"
    unfolding inner using hf by simp_all
  have "split ((MAGIC @ sample_id @ x_nonce unlucky 0) @ ?ct) = Some (MAGIC @ sample_id @ x_nonce unlucky 0, ?ct)"
    unfolding split_def using env(1) n by (simp add: BLIND_INDEX_LEN_def del: append_assoc)
  then have sp: "split (MAGIC @ sample_id @ x_nonce unlucky 0 @ ?ct) = Some (MAGIC @ sample_id @ x_nonce unlucky 0, ?ct)"
    by simp
  have "fkeys sample_file (header_key_id ?ct) = None"
    unfolding env(2) by (simp add: sample_file_def sample_id_def)
  moreover have "et_index_key_name ?t = None" by (simp add: encrypt_new_def)
  ultimately show ?thesis
    using open_misreads_unlucky_ciphertext [OF fks.key_source_laws_axioms sample_world_inv _ seal sp] seal
    by blast
qed

end
