(* ===== verification/Ident.thy ===== *)
theory Ident
  imports CoreTypes
begin

text \<open>
  SQL identifier folding (\<open>crates/core/src/ident.rs\<close>): PostgreSQL's ASCII-only downcasing and
  its clipping to 63 bytes on a character boundary.
\<close>

definition MAX_IDENTIFIER_BYTES :: nat where
  "MAX_IDENTIFIER_BYTES = 63"

text \<open>\<open>str::is_char_boundary\<close>.\<close>

definition is_char_boundary :: "rstr \<Rightarrow> nat \<Rightarrow> bool" where
  "is_char_boundary v i = (i = 0 \<or> i = length v \<or> i < length v \<and> \<not> cont (v ! i))"

text \<open>The \<open>while\<close> loop of \<open>truncate_identifier\<close>; index 0 is a boundary, so it ends.\<close>

fun clip_end :: "rstr \<Rightarrow> nat \<Rightarrow> nat" where
  "clip_end v 0 = 0"
| "clip_end v (Suc e) = (if is_char_boundary v (Suc e) then Suc e else clip_end v e)"

definition truncate_identifier :: "rstr \<Rightarrow> rstr" where
  "truncate_identifier value =
     (if length value \<le> MAX_IDENTIFIER_BYTES then value
      else take (clip_end value MAX_IDENTIFIER_BYTES) value)"

definition fold_identifier :: "rstr \<Rightarrow> bool \<Rightarrow> rstr" where
  "fold_identifier value quoted =
     (let clipped = truncate_identifier value in
      if quoted \<or> \<not> list_ex is_ascii_uppercase clipped then clipped
      else map to_ascii_lowercase clipped)"


section \<open>Clipping finds the last boundary\<close>

lemma clip_end_le: "clip_end v e \<le> e"
  by (induction e) auto

lemma clip_end_boundary: "is_char_boundary v (clip_end v e)"
  by (induction e) (auto simp: is_char_boundary_def)

lemma clip_end_last: "clip_end v e < p \<Longrightarrow> p \<le> e \<Longrightarrow> \<not> is_char_boundary v p"
proof (induction e)
  case 0
  then show ?case by simp
next
  case (Suc e)
  then show ?case by (cases "p = Suc e") (auto split: if_splits)
qed

text \<open>In valid UTF-8 the boundaries are exactly the ends of whole-character prefixes.\<close>

lemma cont_byte_of: "n < 256 \<Longrightarrow> cont (byte_of n) \<longleftrightarrow> 128 \<le> n \<and> n < 192"
  by (simp add: cont_def)

lemma cont_low_bits [simp]: "cont (byte_of (128 + n mod 64))"
  using mod_less_divisor [of 64 n] by (simp add: cont_byte_of del: mod_less_divisor)

lemma not_cont_lead [simp]:
  "n < 128 \<Longrightarrow> \<not> cont (byte_of n)"
  "n < 64 \<Longrightarrow> \<not> cont (byte_of (192 + n))"
  "n < 32 \<Longrightarrow> \<not> cont (byte_of (224 + n))"
  "n < 16 \<Longrightarrow> \<not> cont (byte_of (240 + n))"
  by (simp_all add: cont_byte_of)

lemma encode_char_head_tail:
  assumes "scalar_value c"
  shows "\<not> cont (hd (encode_char c))" and "\<forall>x \<in> set (tl (encode_char c)). cont x"
proof -
  have lt: "c < 1114112" using assms by (auto simp: scalar_value_def)
  have d: "c < 2048 \<Longrightarrow> c div 64 < 64" "c < 65536 \<Longrightarrow> c div 4096 < 32" "c div 262144 < 16"
    using lt by (simp_all add: less_mult_imp_div_less)
  consider "c < 128" | "128 \<le> c" "c < 2048" | "2048 \<le> c" "c < 65536" | "65536 \<le> c"
    by linarith
  then have "\<not> cont (hd (encode_char c)) \<and> (\<forall>x \<in> set (tl (encode_char c)). cont x)"
    by cases (use d in \<open>simp_all add: encode_char_def\<close>)
  then show "\<not> cont (hd (encode_char c))" and "\<forall>x \<in> set (tl (encode_char c)). cont x"
    by simp_all
qed

lemma ex_le_Suc: "(\<exists>j \<le> Suc n. P j) \<longleftrightarrow> P 0 \<or> (\<exists>j \<le> n. P (Suc j))"
proof
  assume "\<exists>j \<le> Suc n. P j"
  then obtain j where "j \<le> Suc n" "P j" by blast
  then show "P 0 \<or> (\<exists>j \<le> n. P (Suc j))" by (cases j) auto
qed auto

lemma boundary_iff:
  assumes "\<forall>c \<in> set cs. scalar_value c" and "p \<le> length (utf8_encode cs)"
  shows "is_char_boundary (utf8_encode cs) p \<longleftrightarrow>
    (\<exists>j \<le> length cs. p = length (utf8_encode (take j cs)))"
  using assms
proof (induction cs arbitrary: p)
  case Nil
  then show ?case by (simp add: is_char_boundary_def)
next
  case (Cons c cs)
  let ?h = "encode_char c" and ?r = "utf8_encode cs"
  have cut: "(\<exists>j \<le> length (c # cs). p = length (utf8_encode (take j (c # cs)))) \<longleftrightarrow>
    p = 0 \<or> (\<exists>j \<le> length cs. p = length ?h + length (utf8_encode (take j cs)))"
    by (simp add: ex_le_Suc)
  show ?case
  proof (cases "p < length ?h")
    case True
    have "cont (?h ! p)" if "0 < p"
      using that True encode_char_head_tail(2) [of c] Cons.prems(1)
      by (cases ?h) (auto simp: nth_Cons')
    then have "is_char_boundary (?h @ ?r) p \<longleftrightarrow> p = 0"
      using True by (auto simp: is_char_boundary_def nth_append)
    then show ?thesis using True cut by auto
  next
    case False
    then obtain q where q: "p = length ?h + q" by (metis le_Suc_ex not_le)
    have "is_char_boundary (?h @ ?r) p \<longleftrightarrow> is_char_boundary ?r q"
    proof (cases "q = 0")
      case True
      have "\<not> cont (?r ! 0)" if "?r \<noteq> []"
        using that encode_char_head_tail(1) Cons.prems(1)
        by (cases cs) (simp_all add: nth_append hd_conv_nth)
      then show ?thesis using True q by (auto simp: is_char_boundary_def nth_append)
    next
      case False
      then show ?thesis using q by (auto simp: is_char_boundary_def nth_append)
    qed
    also have "\<dots> \<longleftrightarrow> (\<exists>j \<le> length cs. q = length (utf8_encode (take j cs)))"
      using Cons.prems q by (intro Cons.IH) simp_all
    also have "\<dots> \<longleftrightarrow> (\<exists>j \<le> length (c # cs). p = length (utf8_encode (take j (c # cs))))"
      unfolding cut using q by auto
    finally show ?thesis by simp
  qed
qed


lemma take_utf8_encode:
  "take (length (utf8_encode (take j cs))) (utf8_encode cs) = utf8_encode (take j cs)"
proof -
  have "utf8_encode cs = utf8_encode (take j cs) @ utf8_encode (drop j cs)"
    unfolding utf8_encode_def by (metis append_take_drop_id concat_append map_append)
  then show ?thesis by (metis append_eq_conv_conj)
qed


section \<open>Folding\<close>

lemma length_truncate_identifier: "length (truncate_identifier v) \<le> 63"
  using clip_end_le [of v 63] by (auto simp: truncate_identifier_def MAX_IDENTIFIER_BYTES_def)

lemma truncate_identifier_short: "length v \<le> 63 \<Longrightarrow> truncate_identifier v = v"
  by (simp add: truncate_identifier_def MAX_IDENTIFIER_BYTES_def)

lemma cont_lower [simp]: "cont (to_ascii_lowercase b) = cont b"
  by (auto simp: to_ascii_lowercase_def cont_def unat_add_32) (auto simp: is_ascii_uppercase_def)

lemma is_char_boundary_lower [simp]:
  "is_char_boundary (map to_ascii_lowercase v) i = is_char_boundary v i"
  by (auto simp: is_char_boundary_def)

lemma clip_end_lower [simp]: "clip_end (map to_ascii_lowercase v) e = clip_end v e"
  by (induction e) simp_all

lemma truncate_identifier_lower:
  "truncate_identifier (map to_ascii_lowercase v) = map to_ascii_lowercase (truncate_identifier v)"
  by (simp add: truncate_identifier_def take_map)

lemma fold_identifier_unquoted:
  "fold_identifier v False = map to_ascii_lowercase (truncate_identifier v)"
  by (auto simp: fold_identifier_def Let_def list_ex_iff map_lower_id)

lemma fold_identifier_quoted: "fold_identifier v True = truncate_identifier v"
  by (simp add: fold_identifier_def Let_def)

lemma length_fold_identifier: "length (fold_identifier v q) \<le> 63"
  using length_truncate_identifier [of v]
  by (cases q) (simp_all add: fold_identifier_unquoted fold_identifier_quoted)

text \<open>
  The clipping keeps whole characters and as many of them as fit: of a valid UTF-8
  identifier it returns the longest prefix of characters whose encoding is at most 63 bytes.
\<close>

theorem truncate_identifier_longest_prefix:
  assumes "utf8_decode v = Some cs"
  shows "\<exists>j. utf8_decode (truncate_identifier v) = Some (take j cs)
      \<and> length (truncate_identifier v) \<le> 63
      \<and> (j < length cs \<longrightarrow> 63 < length (utf8_encode (take (Suc j) cs)))"
proof -
  have sv: "\<forall>c \<in> set cs. scalar_value c" and v: "utf8_encode cs = v"
    using utf8_decode_sound [OF assms] by simp_all
  show ?thesis
  proof (cases "length v \<le> 63")
    case True
    then show ?thesis
      using assms by (auto simp: truncate_identifier_short intro!: exI [of _ "length cs"])
  next
    case False
    let ?e = "clip_end v 63"
    have "?e \<le> 63" by (rule clip_end_le)
    then obtain j where j: "j \<le> length cs" "?e = length (utf8_encode (take j cs))"
      using clip_end_boundary [of v 63] boundary_iff [OF sv, of ?e] v False by auto
    have t: "truncate_identifier v = utf8_encode (take j cs)"
      using False j v take_utf8_encode [of j cs]
      by (simp add: truncate_identifier_def MAX_IDENTIFIER_BYTES_def)
    have dec: "utf8_decode (truncate_identifier v) = Some (take j cs)"
      unfolding t using sv by (intro utf8_decode_encode) (meson in_set_takeD)
    have "63 < length (utf8_encode (take (Suc j) cs))" if "j < length cs"
    proof (rule ccontr)
      assume le: "\<not> 63 < length (utf8_encode (take (Suc j) cs))"
      have "is_char_boundary v (length (utf8_encode (take (Suc j) cs)))"
        using boundary_iff [OF sv, of "length (utf8_encode (take (Suc j) cs))"] le v False that
        by (auto intro!: exI [of _ "Suc j"])
      moreover have "?e < length (utf8_encode (take (Suc j) cs))"
        using j(2) that by (simp add: take_Suc_conv_app_nth utf8_encode_def)
      ultimately show False using clip_end_last [of v 63] le by auto
    qed
    with dec show ?thesis using length_truncate_identifier by blast
  qed
qed

theorem truncate_identifier_longest_prefix_witness:
  "\<exists>j. utf8_decode (truncate_identifier (utf8_encode (replicate 62 97 @ [228])))
        = Some (take j (replicate 62 97 @ [228]))
      \<and> length (truncate_identifier (utf8_encode (replicate 62 97 @ [228]))) \<le> 63
      \<and> (j < length (replicate 62 97 @ [228 :: nat]) \<longrightarrow>
           63 < length (utf8_encode (take (Suc j) (replicate 62 97 @ [228]))))"
proof (rule truncate_identifier_longest_prefix)
  show "utf8_decode (utf8_encode (replicate 62 97 @ [228])) = Some (replicate 62 97 @ [228])"
    by (rule utf8_decode_encode) (auto simp: scalar_value_def)
qed

text \<open>
  Folding is canonical: it is idempotent, an unquoted name folds as its ASCII-lowercase
  spelling does (so every spelling PostgreSQL resolves to one column is one name here), a name
  that is already folded is unaffected by quoting, and the result fits PostgreSQL's limit.
\<close>

theorem fold_identifier_canonical:
  "fold_identifier (fold_identifier v q) q = fold_identifier v q
   \<and> fold_identifier (map to_ascii_lowercase v) False = fold_identifier v False
   \<and> fold_identifier (fold_identifier v False) True = fold_identifier v False
   \<and> length (fold_identifier v q) \<le> MAX_IDENTIFIER_BYTES"
proof -
  have short: "truncate_identifier (fold_identifier v q') = fold_identifier v q'" for q'
    by (rule truncate_identifier_short [OF length_fold_identifier])
  have "fold_identifier (fold_identifier v q) q = fold_identifier v q"
    using short [of q]
    by (cases q) (simp_all add: fold_identifier_quoted fold_identifier_unquoted o_def)
  moreover have "fold_identifier (fold_identifier v False) True = fold_identifier v False"
    using short [of False] by (simp add: fold_identifier_quoted)
  moreover have "fold_identifier (map to_ascii_lowercase v) False = fold_identifier v False"
    by (simp add: fold_identifier_unquoted truncate_identifier_lower o_def)
  ultimately show ?thesis
    using length_fold_identifier [of v q] by (simp add: MAX_IDENTIFIER_BYTES_def)
qed

end
