(* ===== verification/Mask.thy ===== *)
theory Mask
  imports CoreTypes
begin

text \<open>
  Read-path masking (\<open>crates/core/src/mask.rs\<close>). The two counts are \<open>usize\<close>: they stay
  64-bit words, because \<open>apply\<close> adds them without a check and a release build wraps.
\<close>

record mask_spec =
  keep_first :: u64
  keep_last :: u64
  mask_with :: rchar

definition default_mask_with :: rchar where
  "default_mask_with = 42"

text \<open>\<open>MaskSpec::apply\<close>.\<close>

definition mask_char :: "mask_spec \<Rightarrow> nat \<Rightarrow> nat \<Rightarrow> rchar \<Rightarrow> rchar" where
  "mask_char spec count i c =
     (if i < unat (keep_first spec) \<or> unat (of_nat count - keep_last spec) \<le> i then c
      else mask_with spec)"

definition mask_apply :: "mask_spec \<Rightarrow> bytes \<Rightarrow> bytes" where
  "mask_apply spec value =
     (case utf8_decode value of
        Some s \<Rightarrow>
          (let count = length s in
           if count \<le> unat (keep_first spec + keep_last spec)
           then utf8_encode (replicate count (mask_with spec))
           else utf8_encode (map (\<lambda>(i, c). mask_char spec count i c) (enumerate 0 s)))
      | None \<Rightarrow> utf8_encode (replicate (length value) (mask_with spec)))"

text \<open>A string in memory is shorter than \<open>isize::MAX\<close>, so its character count is a \<open>usize\<close>.\<close>

definition mask_sane :: "mask_spec \<Rightarrow> nat \<Rightarrow> bool" where
  "mask_sane spec count \<longleftrightarrow>
     unat (keep_first spec) + unat (keep_last spec) < 2 ^ 64 \<and> count < 2 ^ 63"

lemma mask_sane_add:
  "mask_sane spec n \<Longrightarrow>
     unat (keep_first spec + keep_last spec) = unat (keep_first spec) + unat (keep_last spec)"
  using unat_add_lem [of "keep_first spec" "keep_last spec"] by (simp add: mask_sane_def)

lemma mask_sane_sub:
  assumes "mask_sane spec n" and "unat (keep_last spec) \<le> n"
  shows "unat (of_nat n - keep_last spec) = n - unat (keep_last spec)"
proof -
  have n: "unat (of_nat n :: u64) = n"
    using assms(1) by (simp add: mask_sane_def unat_of_nat)
  then have "keep_last spec \<le> of_nat n"
    using assms(2) by (simp add: word_le_nat_alt)
  then show ?thesis using n by (simp add: unat_sub)
qed

text \<open>
  What a mask may show of a value: how many characters it has (bytes, if it is not text), and the
  first and last of them if something between is left over.
\<close>

definition revealed :: "mask_spec \<Rightarrow> bytes \<Rightarrow> nat \<times> rchar list \<times> rchar list" where
  "revealed spec v =
     (case utf8_decode v of
        None \<Rightarrow> (length v, [], [])
      | Some s \<Rightarrow>
          if length s \<le> unat (keep_first spec) + unat (keep_last spec) then (length s, [], [])
          else (length s, take (unat (keep_first spec)) s, drop (length s - unat (keep_last spec)) s))"

definition masked_text :: "rchar \<Rightarrow> nat \<times> rchar list \<times> rchar list \<Rightarrow> rchar list" where
  "masked_text m shown = (case shown of (n, first, final) \<Rightarrow> first @ replicate (n - length first - length final) m @ final)"

lemma masked_middle:
  assumes "mask_sane spec (length s)" and "unat (keep_first spec) + unat (keep_last spec) < length s"
  shows "map (\<lambda>(i, c). mask_char spec (length s) i c) (enumerate 0 s) =
    take (unat (keep_first spec)) s
    @ replicate (length s - unat (keep_first spec) - unat (keep_last spec)) (mask_with spec)
    @ drop (length s - unat (keep_last spec)) s"
  using assms by (auto intro!: nth_equalityI simp: mask_char_def mask_sane_sub nth_enumerate_eq nth_append)

text \<open>
  C15. A mask shows nothing but the length of a value and its kept characters: the masked bytes are
  computed from these alone. Text with something to hide shows its first \<open>keep_first\<close> and last
  \<open>keep_last\<close> characters around one mask character for each of the others, shorter text one mask
  character for each of its own, and bytes that are not text one for each byte.
\<close>

theorem mask_apply_hides:
  assumes "mask_sane spec (fst (revealed spec v))"
  shows "mask_apply spec v = utf8_encode (masked_text (mask_with spec) (revealed spec v))"
proof (cases "utf8_decode v")
  case None
  then show ?thesis by (simp add: mask_apply_def revealed_def masked_text_def)
next
  case (Some s)
  then have sane: "mask_sane spec (length s)" using assms by (simp add: revealed_def split: if_splits)
  show ?thesis
  proof (cases "length s \<le> unat (keep_first spec) + unat (keep_last spec)")
    case True
    then show ?thesis using Some sane by (simp add: mask_apply_def revealed_def masked_text_def mask_sane_add)
  next
    case False
    then show ?thesis
      using Some sane masked_middle [OF sane] by (simp add: mask_apply_def Let_def revealed_def masked_text_def mask_sane_add min_def)
  qed
qed

theorem mask_apply_hides_witness:
  "mask_apply \<lparr>keep_first = 0, keep_last = 2, mask_with = 42\<rparr> (bs ''4111-11'') =
   mask_apply \<lparr>keep_first = 0, keep_last = 2, mask_with = 42\<rparr> (bs ''5222-11'')
   \<and> mask_apply \<lparr>keep_first = 0, keep_last = 2, mask_with = 42\<rparr> [255, 1] = [42, 42]"
proof -
  let ?spec = "\<lparr>keep_first = 0, keep_last = 2, mask_with = 42\<rparr>"
  have d: "utf8_decode (bs ''4111-11'') = Some [52, 49, 49, 49, 45, 49, 49]"
    "utf8_decode (bs ''5222-11'') = Some [53, 50, 50, 50, 45, 49, 49]" "utf8_decode [255, 1] = None"
    by code_simp+
  have sane: "mask_sane ?spec (fst (revealed ?spec (bs ''4111-11'')))" "mask_sane ?spec (fst (revealed ?spec (bs ''5222-11'')))"
    "mask_sane ?spec (fst (revealed ?spec [255, 1]))"
    by (simp_all add: revealed_def d mask_sane_def)
  have "revealed ?spec (bs ''4111-11'') = revealed ?spec (bs ''5222-11'')" by (simp add: revealed_def d)
  moreover have "utf8_encode (masked_text 42 (revealed ?spec [255, 1])) = [42, 42]"
    unfolding revealed_def d by code_simp
  ultimately show ?thesis using mask_apply_hides [OF sane(1)] mask_apply_hides [OF sane(2)] mask_apply_hides [OF sane(3)] by simp
qed

text \<open>
  C16. The sum of the two counts wraps in a release build. A mask whose counts overflow shows a
  value entirely although it is far too short to have a hidden middle.
\<close>

theorem mask_apply_overflow_reveals:
  assumes "utf8_decode v = Some s" and "length s \<le> unat (keep_first spec)"
    and "unat (keep_first spec + keep_last spec) < length s"
  shows "mask_apply spec v = v
    \<and> length s \<le> unat (keep_first spec) + unat (keep_last spec)"
proof -
  have "map (\<lambda>(i, c). mask_char spec (length s) i c) (enumerate 0 s) = s"
    using assms(2) by (auto intro!: nth_equalityI simp: mask_char_def nth_enumerate_eq)
  then show ?thesis
    using assms utf8_decode_sound [OF assms(1)] by (simp add: mask_apply_def Let_def)
qed

theorem mask_apply_overflow_reveals_witness:
  "mask_apply \<lparr>keep_first = 18446744073709551615, keep_last = 1, mask_with = 42\<rparr> (bs ''secret'')
   = bs ''secret''"
proof -
  have "utf8_decode (bs ''secret'') = Some [115, 101, 99, 114, 101, 116]"
    by code_simp
  from mask_apply_overflow_reveals
    [OF this, of "\<lparr>keep_first = 18446744073709551615, keep_last = 1, mask_with = 42\<rparr>"]
  show ?thesis by simp
qed

end
