(* ===== verification/Policies.thy ===== *)
theory Policies
  imports Transform Ident Mask
begin

text \<open>
  The protection policy (\<open>crates/core/src/policy.rs\<close>): its data, the validation every front end
  runs, and \<open>build\<close>, which wires one transform per column over one shared cipher cache.
\<close>

section \<open>Data\<close>

definition DEFAULT_SCHEMA :: rstr where
  "DEFAULT_SCHEMA = bs ''public''"

text \<open>\<open>str::split_once('.')\<close>; 46 is the dot.\<close>

definition split_once_dot :: "rstr \<Rightarrow> (rstr \<times> rstr) option" where
  "split_once_dot s =
     (let a = takeWhile (\<lambda>b. b \<noteq> 46) s in
      if length a < length s then Some (a, drop (Suc (length a)) s) else None)"

definition split_table :: "rstr \<Rightarrow> rstr \<times> rstr" where
  "split_table name =
     (case split_once_dot name of
        Some (schema, table) \<Rightarrow> (schema, table)
      | None \<Rightarrow> (DEFAULT_SCHEMA, name))"

datatype transform_kind = KEncrypt | KFpe | KToken | KNone

record column_policy =
  cp_table :: rstr
  cp_column :: rstr
  cp_transform :: transform_kind
  cp_searchable :: bool
  cp_detokenize :: bool
  cp_mask :: "mask_spec option"

definition column_new :: "rstr \<Rightarrow> rstr \<Rightarrow> column_policy" where
  "column_new table column =
     \<lparr>cp_table = table, cp_column = column, cp_transform = KEncrypt, cp_searchable = False,
      cp_detokenize = True, cp_mask = None\<rparr>"

definition set_transform :: "transform_kind \<Rightarrow> column_policy \<Rightarrow> column_policy" where
  "set_transform k c = c\<lparr>cp_transform := k\<rparr>"

definition set_searchable :: "bool \<Rightarrow> column_policy \<Rightarrow> column_policy" where
  "set_searchable b c = c\<lparr>cp_searchable := b\<rparr>"

definition set_detokenize :: "bool \<Rightarrow> column_policy \<Rightarrow> column_policy" where
  "set_detokenize b c = c\<lparr>cp_detokenize := b\<rparr>"

definition set_mask :: "mask_spec \<Rightarrow> column_policy \<Rightarrow> column_policy" where
  "set_mask m c = c\<lparr>cp_mask := Some m\<rparr>"

definition qualify :: "rstr \<Rightarrow> rstr \<Rightarrow> rstr \<Rightarrow> rstr" where
  "qualify schema table column = schema @ [46] @ table @ [46] @ column"

definition column_qualified_name :: "column_policy \<Rightarrow> rstr" where
  "column_qualified_name c = (case split_table (cp_table c) of (schema, table) \<Rightarrow> qualify schema table (cp_column c))"

record table_policy =
  tp_table :: rstr
  tp_row_key :: rstr
  tp_strict :: bool

definition table_new :: "rstr \<Rightarrow> rstr \<Rightarrow> table_policy" where
  "table_new table row_key = \<lparr>tp_table = table, tp_row_key = row_key, tp_strict = False\<rparr>"

record policy =
  columns :: "column_policy list"
  tables :: "table_policy list"

record row_key_decl =
  rk_schema :: rstr
  rk_table :: rstr
  rk_column :: rstr

record protected_column =
  pc_schema :: rstr
  pc_table :: rstr
  pc_column :: rstr
  pc_transform :: "field_transform option"
  pc_searchable :: bool
  pc_readable :: bool
  pc_mask :: "mask_spec option"

definition protected_qualified_name :: "protected_column \<Rightarrow> rstr" where
  "protected_qualified_name c = qualify (pc_schema c) (pc_table c) (pc_column c)"


section \<open>Validation\<close>

text \<open>\<open>check_identifiers\<close>. The warning it may log is not part of the result.\<close>

fun check_identifier_list :: "rstr \<Rightarrow> (rstr \<times> rstr) list \<Rightarrow> core_error + unit" where
  "check_identifier_list name [] = Ok ()"
| "check_identifier_list name ((kind, ident) # r) =
     (if MAX_IDENTIFIER_BYTES < length ident
      then Err (PolicyRefused (IdentTooLong name kind (length ident)))
      else check_identifier_list name r)"

definition check_identifiers :: "rstr \<Rightarrow> rstr \<Rightarrow> rstr \<Rightarrow> rstr \<Rightarrow> core_error + unit" where
  "check_identifiers name schema table column =
     check_identifier_list name [(bs ''schema'', schema), (bs ''table'', table), (bs ''column'', column)]"

fun validate_columns :: "rstr list \<Rightarrow> column_policy list \<Rightarrow> core_error + unit" where
  "validate_columns seen [] = Ok ()"
| "validate_columns seen (c # r) =
     (let (schema, table) = split_table (cp_table c); name = column_qualified_name c in
      if name \<in> set seen then Err (PolicyRefused (DuplicateColumn name))
      else if cp_searchable c \<and> cp_transform c \<noteq> KEncrypt then Err (PolicyRefused (SearchableNotEncrypt name))
      else if \<not> cp_detokenize c \<and> cp_transform c \<noteq> KFpe then Err (PolicyRefused (DetokenizeNotFpe name))
      else if cp_transform c = KNone \<and> cp_mask c = None then Err (PolicyRefused (NoneWithoutMask name))
      else res_bind (check_identifiers name schema table (cp_column c)) (\<lambda>_.
        validate_columns (name # seen) r))"

fun validate_tables :: "column_policy list \<Rightarrow> rstr list \<Rightarrow> table_policy list \<Rightarrow> core_error + unit" where
  "validate_tables all seen [] = Ok ()"
| "validate_tables all seen (e # r) =
     (let (schema, table) = split_table (tp_table e);
          qualified = schema @ [46] @ table in
      if qualified \<in> set seen then Err (PolicyRefused (DuplicateTable qualified))
      else res_bind (check_identifiers qualified schema table (tp_row_key e)) (\<lambda>_.
        let cs = filter (\<lambda>c. split_table (cp_table c) = (schema, table)) all in
        if cs = [] then Err (PolicyRefused (RowKeyNoColumns qualified (tp_row_key e)))
        else if \<not> list_ex (\<lambda>c. cp_transform c = KEncrypt) cs
          then Err (PolicyRefused (RowKeyNoEncrypt qualified (tp_row_key e)))
        else if list_ex (\<lambda>c. cp_column c = tp_row_key e \<and> cp_transform c \<noteq> KNone) cs
          then Err (PolicyRefused (RowKeyTransformed qualified (tp_row_key e)))
        else validate_tables all (qualified # seen) r))"

definition validate_row_keys :: "policy \<Rightarrow> core_error + unit" where
  "validate_row_keys p = validate_tables (columns p) [] (tables p)"

definition validate :: "policy \<Rightarrow> core_error + unit" where
  "validate p = res_bind (validate_columns [] (columns p)) (\<lambda>_. validate_row_keys p)"


section \<open>Wiring\<close>

definition row_keys :: "policy \<Rightarrow> row_key_decl list" where
  "row_keys p =
     map (\<lambda>e. case split_table (tp_table e) of (schema, table) \<Rightarrow>
            \<lparr>rk_schema = schema, rk_table = table, rk_column = tp_row_key e\<rparr>) (tables p)"

definition table_strict :: "policy \<Rightarrow> rstr \<Rightarrow> rstr \<Rightarrow> bool" where
  "table_strict p schema table =
     (case find (\<lambda>e. split_table (tp_table e) = (schema, table)) (tables p) of
        None \<Rightarrow> False
      | Some e \<Rightarrow> tp_strict e)"

text \<open>One column; \<open>cell\<close> is the \<open>OnceLock\<close> its transform owns.\<close>

definition build_column :: "policy \<Rightarrow> nat \<Rightarrow> column_policy \<Rightarrow> protected_column" where
  "build_column p cell c =
     (let (schema, table) = split_table (cp_table c);
          key_name = column_qualified_name c;
          (transform, readable) =
            (case cp_transform c of
               KEncrypt \<Rightarrow>
                 (Some (EncryptT (strict_row_binding (table_strict p schema table)
                    (encrypt_new key_name (if cp_searchable c then Some key_name else None) cell))), True)
             | KFpe \<Rightarrow>
                 (Some (FpeT \<lparr>ft_key_name = key_name, ft_detokenize = cp_detokenize c, ft_cell = cell\<rparr>), cp_detokenize c)
             | KToken \<Rightarrow> (Some (TokenT \<lparr>tt_key_name = key_name, tt_cell = cell\<rparr>), False)
             | KNone \<Rightarrow> (None, False))
      in \<lparr>pc_schema = schema, pc_table = table, pc_column = cp_column c, pc_transform = transform,
          pc_searchable = cp_searchable c, pc_readable = readable, pc_mask = cp_mask c\<rparr>)"

text \<open>\<open>Policy::build\<close>: the columns, and the process state their transforms share.\<close>

definition build :: "policy \<Rightarrow> protected_column list" where
  "build p = map (\<lambda>(cell, c). build_column p cell c) (enumerate 0 (columns p))"

definition build_world :: "'k \<Rightarrow> 'k world" where
  "build_world k = \<lparr>w_ciphers = ciphers_new k, w_cells = Map.empty\<rparr>"


section \<open>What validation means\<close>

text \<open>The rules, as predicates of the policy.\<close>

definition idents_ok :: "rstr \<Rightarrow> rstr \<Rightarrow> rstr \<Rightarrow> bool" where
  "idents_ok schema table column \<longleftrightarrow> length schema \<le> 63 \<and> length table \<le> 63 \<and> length column \<le> 63"

definition column_ok :: "column_policy \<Rightarrow> bool" where
  "column_ok c \<longleftrightarrow>
     (cp_searchable c \<longrightarrow> cp_transform c = KEncrypt)
     \<and> (\<not> cp_detokenize c \<longrightarrow> cp_transform c = KFpe)
     \<and> (cp_transform c = KNone \<longrightarrow> cp_mask c \<noteq> None)
     \<and> (case split_table (cp_table c) of (schema, table) \<Rightarrow> idents_ok schema table (cp_column c))"

definition table_ok :: "column_policy list \<Rightarrow> table_policy \<Rightarrow> bool" where
  "table_ok all e \<longleftrightarrow>
     (case split_table (tp_table e) of (schema, table) \<Rightarrow> idents_ok schema table (tp_row_key e))
     \<and> (\<exists>c \<in> set all. split_table (cp_table c) = split_table (tp_table e) \<and> cp_transform c = KEncrypt)
     \<and> (\<forall>c \<in> set all. split_table (cp_table c) = split_table (tp_table e) \<longrightarrow>
          cp_column c = tp_row_key e \<longrightarrow> cp_transform c = KNone)"

definition table_qualified_name :: "table_policy \<Rightarrow> rstr" where
  "table_qualified_name e = (case split_table (tp_table e) of (schema, table) \<Rightarrow> schema @ [46] @ table)"

lemma check_identifiers_Ok: "check_identifiers name schema table column = Ok () \<longleftrightarrow> idents_ok schema table column"
  by (auto simp: check_identifiers_def idents_ok_def MAX_IDENTIFIER_BYTES_def)

lemma validate_columns_step:
  "validate_columns seen (c # r) = Ok () \<longleftrightarrow>
     column_qualified_name c \<notin> set seen \<and> column_ok c
     \<and> validate_columns (column_qualified_name c # seen) r = Ok ()"
  by (cases "split_table (cp_table c)") (auto simp: column_ok_def res_simps check_identifiers_Ok Let_def)

lemma validate_columns_Ok:
  "validate_columns seen cs = Ok () \<longleftrightarrow>
     distinct (map column_qualified_name cs) \<and> set (map column_qualified_name cs) \<inter> set seen = {}
     \<and> (\<forall>c \<in> set cs. column_ok c)"
  by (induction cs arbitrary: seen) (auto simp: validate_columns_step simp del: validate_columns.simps(2))

lemma validate_tables_step:
  "validate_tables all seen (e # r) = Ok () \<longleftrightarrow>
     table_qualified_name e \<notin> set seen \<and> table_ok all e
     \<and> validate_tables all (table_qualified_name e # seen) r = Ok ()"
  by (cases "split_table (tp_table e)")
    (auto simp: table_ok_def table_qualified_name_def res_simps check_identifiers_Ok Let_def list_ex_iff
      filter_empty_conv)

lemma validate_tables_Ok:
  "validate_tables all seen ts = Ok () \<longleftrightarrow>
     distinct (map table_qualified_name ts) \<and> set (map table_qualified_name ts) \<inter> set seen = {}
     \<and> (\<forall>e \<in> set ts. table_ok all e)"
  by (induction ts arbitrary: seen) (auto simp: validate_tables_step simp del: validate_tables.simps(2))

text \<open>
  C14. Validation accepts a policy exactly when it protects what it declares: no column and no
  table is declared twice, only encrypted columns are searchable, only format-preserving ones
  may refuse to detokenize, a column without a transform has a mask, every identifier is one
  PostgreSQL can carry, and every declared row key has an encrypted column to bind and is not
  itself transformed.
\<close>

theorem validate_iff:
  "validate p = Ok () \<longleftrightarrow>
     distinct (map column_qualified_name (columns p)) \<and> (\<forall>c \<in> set (columns p). column_ok c)
     \<and> distinct (map table_qualified_name (tables p)) \<and> (\<forall>e \<in> set (tables p). table_ok (columns p) e)"
  by (auto simp: validate_def validate_row_keys_def res_simps validate_columns_Ok validate_tables_Ok)


text \<open>A policy with a row-bound searchable column, and the key column itself left alone.\<close>

definition sample_policy :: policy where
  "sample_policy =
     \<lparr>columns = [set_searchable True (column_new (bs ''users'') (bs ''ssn'')),
                 set_transform KFpe (column_new (bs ''users'') (bs ''card''))],
      tables = [table_new (bs ''users'') (bs ''id'')]\<rparr>"

theorem validate_iff_witness: "validate sample_policy = Ok ()"
proof -
  have "distinct (map column_qualified_name (columns sample_policy))" by code_simp
  moreover have "list_all column_ok (columns sample_policy)" by code_simp
  moreover have "distinct (map table_qualified_name (tables sample_policy))" by code_simp
  moreover have "list_all (table_ok (columns sample_policy)) (tables sample_policy)" by code_simp
  ultimately show ?thesis using validate_iff [of sample_policy] by (simp add: list_all_iff)
qed


section \<open>What \<open>build\<close> wires\<close>

lemma split_once_dot_Some:
  assumes "split_once_dot s = Some (a, b)"
  shows "s = a @ [46] @ b \<and> 46 \<notin> set a"
proof -
  have a: "a = takeWhile (\<lambda>b. b \<noteq> 46) s" and lt: "length a < length s" and b: "b = drop (Suc (length a)) s"
    using assms by (auto simp: split_once_dot_def Let_def split: if_splits)
  have "s ! length a = 46"
    using nth_length_takeWhile [of "\<lambda>b. b \<noteq> 46" s] lt a by simp
  then have "drop (length a) s = 46 # b"
    using lt b by (simp add: Cons_nth_drop_Suc [symmetric])
  moreover have "take (length a) s = a"
    using a by (simp add: takeWhile_eq_take [symmetric])
  ultimately have "s = a @ [46] @ b" by (metis append_Cons append_Nil append_take_drop_id)
  then show ?thesis using a by (auto dest: set_takeWhileD)
qed

lemma protected_name_build_column [simp]:
  "protected_qualified_name (build_column p cell c) = column_qualified_name c"
  by (auto simp: build_column_def protected_qualified_name_def column_qualified_name_def Let_def
      split: prod.splits)

lemma build_names: "map protected_qualified_name (build p) = map column_qualified_name (columns p)"
proof -
  have "map protected_qualified_name (build p) = map (column_qualified_name \<circ> snd) (enumerate 0 (columns p))"
    by (simp add: build_def case_prod_beta)
  then show ?thesis by (metis map_map map_snd_enumerate)
qed

lemma length_build [simp]: "length (build p) = length (columns p)"
  by (simp add: build_def)

lemma nth_build: "j < length (columns p) \<Longrightarrow> build p ! j = build_column p j (columns p ! j)"
  by (simp add: build_def nth_enumerate_eq)

text \<open>The name each cell's owner uses.\<close>

definition cell_name :: "policy \<Rightarrow> nat \<Rightarrow> rstr" where
  "cell_name p cell = column_qualified_name (columns p ! cell)"

lemma build_transform_wf:
  assumes "c \<in> set (build p)" and "pc_transform c = Some t"
  shows "tr_wf (cell_name p) t"
proof -
  obtain j where "j < length (columns p)" "c = build_column p j (columns p ! j)"
    using assms(1) by (metis in_set_conv_nth length_build nth_build)
  then show ?thesis
    using assms(2)
    by (auto simp: build_column_def Let_def cell_name_def encrypt_new_def strict_row_binding_def
        split: prod.splits transform_kind.splits if_splits)
qed

lemma build_encrypt:
  assumes "c \<in> set (build p)" and "pc_transform c = Some (EncryptT t)"
  shows "et_context t = protected_qualified_name c"
    and "et_index_key_name t = (if pc_searchable c then Some (protected_qualified_name c) else None)"
    and "et_strict t = table_strict p (pc_schema c) (pc_table c)" and "pc_readable c"
proof -
  obtain j where c: "c = build_column p j (columns p ! j)"
    using assms(1) by (metis in_set_conv_nth length_build nth_build)
  have "et_context t = column_qualified_name (columns p ! j)
      \<and> et_index_key_name t = (if cp_searchable (columns p ! j) then Some (column_qualified_name (columns p ! j)) else None)
      \<and> et_strict t = table_strict p (pc_schema c) (pc_table c) \<and> pc_readable c
      \<and> pc_searchable c = cp_searchable (columns p ! j)"
    using assms(2) unfolding c
    by (auto simp: build_column_def Let_def encrypt_new_def strict_row_binding_def
        split: prod.splits transform_kind.splits)
  then show "et_context t = protected_qualified_name c"
    and "et_index_key_name t = (if pc_searchable c then Some (protected_qualified_name c) else None)"
    and "et_strict t = table_strict p (pc_schema c) (pc_table c)" and "pc_readable c"
    unfolding c by simp_all
qed

lemma build_readable:
  assumes "c \<in> set (build p)" and "pc_transform c = Some t"
  shows "pc_readable c \<longleftrightarrow> (case t of EncryptT _ \<Rightarrow> True | FpeT f \<Rightarrow> ft_detokenize f | TokenT _ \<Rightarrow> False)"
proof -
  obtain j where c: "c = build_column p j (columns p ! j)"
    using assms(1) by (metis in_set_conv_nth length_build nth_build)
  show ?thesis
    using assms(2) unfolding c
    by (auto simp: build_column_def Let_def split: prod.splits transform_kind.splits)
qed

lemma validate_names: "validate p = Ok () \<Longrightarrow> distinct (map protected_qualified_name (build p))"
  by (auto simp: validate_def res_simps validate_columns_Ok build_names)

text \<open>A validated column's context is at most three identifiers and two dots.\<close>

lemma validate_context_length:
  assumes "validate p = Ok ()" and "c \<in> set (build p)"
  shows "length (protected_qualified_name c) \<le> 191"
proof -
  have "\<forall>c \<in> set (columns p). column_ok c"
    using assms(1) by (auto simp: validate_def res_simps validate_columns_Ok)
  moreover obtain j where "j < length (columns p)" "c = build_column p j (columns p ! j)"
    using assms(2) by (metis in_set_conv_nth length_build nth_build)
  ultimately have "column_ok (columns p ! j)" "protected_qualified_name c = column_qualified_name (columns p ! j)"
    by simp_all
  then show ?thesis
    by (auto simp: column_ok_def idents_ok_def column_qualified_name_def qualify_def split: prod.splits)
qed

lemma build_world_inv: "ok k \<Longrightarrow> world_inv ok dek ikey nm (build_world k)"
  by (simp add: world_inv_def build_world_def ciphers_new_def ciphers_inv_new)

end
