(* ===== verification/Protect.thy ===== *)
theory Protect
  imports Policies
begin

text \<open>
  The library facade (\<open>crates/core/src/protector.rs\<close>): sealing, opening, searching and masking
  by column name over a validated policy.
\<close>

record column =
  spec :: protected_column
  row_bound :: bool

text \<open>The column map of a \<open>Protector\<close>.\<close>

type_synonym protector = "rstr \<rightharpoonup> column"

datatype opened =
    Value bytes
  | Unprotected bytes

fun into_bytes :: "opened \<Rightarrow> bytes" where
  "into_bytes (Value b) = b"
| "into_bytes (Unprotected b) = b"

fun into_value :: "opened \<Rightarrow> rstr \<Rightarrow> core_error + bytes" where
  "into_value (Value b) name = Ok b"
| "into_value (Unprotected _) name = Err (UnprotectedValue name)"

text \<open>Collecting into a map keeps the last entry of a name.\<close>

definition protector_new :: "policy \<Rightarrow> core_error + protector" where
  "protector_new p =
     res_bind (validate p) (\<lambda>_.
       let bound = map (\<lambda>e. split_table (tp_table e)) (tables p) in
       Ok (map_of (rev (map (\<lambda>s. (protected_qualified_name s,
                \<lparr>spec = s, row_bound = ((pc_schema s, pc_table s) \<in> set bound)\<rparr>)) (build p)))))"

definition lookup_key :: "rstr \<Rightarrow> rstr" where
  "lookup_key name =
     (if length (filter (\<lambda>b. b = 46) name) = 1 then
        (case split_once_dot name of
           Some (table, col) \<Rightarrow> (case split_table table of (schema, table) \<Rightarrow> qualify schema table col)
         | None \<Rightarrow> name)
      else name)"

definition lookup :: "protector \<Rightarrow> rstr \<Rightarrow> core_error + column" where
  "lookup pr name = ok_or (pr (lookup_key name)) (UnknownColumn name)"

definition check_row :: "column \<Rightarrow> rstr \<Rightarrow> row_key option \<Rightarrow> core_error + unit" where
  "check_row c name r =
     (if row_bound c \<and> r = None then Err (RowKeyRequired name)
      else if \<not> row_bound c \<and> r \<noteq> None then Err (RowKeyNotDeclared name)
      else Ok ())"

definition pr_column :: "protector \<Rightarrow> rstr \<Rightarrow> core_error + protected_column" where
  "pr_column pr name = map_ok spec (lookup pr name)"

definition pr_wire :: "protector \<Rightarrow> rstr \<Rightarrow> core_error + wire_form option" where
  "pr_wire pr name = map_ok (\<lambda>c. map_option tr_wire (pc_transform c)) (pr_column pr name)"

definition pr_binds_row :: "protector \<Rightarrow> rstr \<Rightarrow> core_error + bool" where
  "pr_binds_row pr name = map_ok row_bound (lookup pr name)"

definition pr_seal :: "externs \<Rightarrow> 'k key_source \<Rightarrow> protector \<Rightarrow> rstr \<Rightarrow> bytes \<Rightarrow> row_key option
    \<Rightarrow> ('k world, core_error, bytes) comp" where
  "pr_seal x ks pr name plaintext r =
     comp_bind (comp_of (lookup pr name)) (\<lambda>entry.
     comp_bind (comp_of (check_row entry name r)) (\<lambda>_.
       case pc_transform (spec entry) of
         Some t \<Rightarrow> tr_seal x ks t plaintext r
       | None \<Rightarrow> comp_ret plaintext))"

definition pr_open :: "externs \<Rightarrow> 'k key_source \<Rightarrow> protector \<Rightarrow> rstr \<Rightarrow> bytes \<Rightarrow> row_key option
    \<Rightarrow> ('k world, core_error, opened) comp" where
  "pr_open x ks pr name stored r =
     comp_bind (comp_of (lookup pr name)) (\<lambda>entry.
     comp_bind (comp_of (check_row entry name r)) (\<lambda>_.
       case pc_transform (spec entry) of
         None \<Rightarrow> comp_ret (Unprotected stored)
       | Some t \<Rightarrow>
           if \<not> pc_readable (spec entry) then comp_of (Err (NotReadable name))
           else comp_bind (tr_open x ks t stored r) (\<lambda>v.
             comp_ret (case v of Some b \<Rightarrow> Value b | None \<Rightarrow> Unprotected stored))))"

definition pr_search_term :: "externs \<Rightarrow> 'k key_source \<Rightarrow> protector \<Rightarrow> rstr \<Rightarrow> bytes
    \<Rightarrow> ('k world, core_error, bytes option) comp" where
  "pr_search_term x ks pr name plaintext =
     comp_bind (comp_of (lookup pr name)) (\<lambda>entry.
       case pc_transform (spec entry) of
         Some t \<Rightarrow> tr_search_index x ks t plaintext
       | None \<Rightarrow> comp_ret None)"

definition pr_mask :: "protector \<Rightarrow> rstr \<Rightarrow> bytes \<Rightarrow> core_error + bytes" where
  "pr_mask pr name value =
     map_ok (\<lambda>c. case pc_mask c of Some m \<Rightarrow> mask_apply m value | None \<Rightarrow> value) (pr_column pr name)"


section \<open>The columns of a protector\<close>

lemma protector_new_Ok: "protector_new p = Ok pr \<Longrightarrow> validate p = Ok ()"
  by (auto simp: protector_new_def res_simps)

lemma lookup_built:
  assumes "protector_new p = Ok pr" and "lookup pr name = Ok c"
  shows "spec c \<in> set (build p) \<and> protected_qualified_name (spec c) = lookup_key name
    \<and> row_bound c = ((pc_schema (spec c), pc_table (spec c)) \<in> set (map (\<lambda>e. split_table (tp_table e)) (tables p)))"
proof -
  have "pr (lookup_key name) = Some c"
    using assms(2) by (simp add: lookup_def res_simps)
  then have "(lookup_key name, c) \<in> set (map (\<lambda>s. (protected_qualified_name s,
      \<lparr>spec = s, row_bound = ((pc_schema s, pc_table s) \<in> set (map (\<lambda>e. split_table (tp_table e)) (tables p)))\<rparr>)) (build p))"
    using assms(1) by (auto simp: protector_new_def res_simps Let_def dest!: map_of_SomeD)
  then show ?thesis by auto
qed

lemma pr_seal_Ok:
  assumes "pr_seal x ks pr name pt r w = (Ok s, v)"
  obtains c where "lookup pr name = Ok c" "check_row c name r = Ok ()"
    "case pc_transform (spec c) of Some t \<Rightarrow> tr_seal x ks t pt r w = (Ok s, v) | None \<Rightarrow> s = pt \<and> v = w"
  using assms by (auto simp: pr_seal_def comp_bind_eq_Ok split: option.splits)

lemma pr_open_Ok:
  assumes "fst (pr_open x ks pr name s r w) = Ok q"
  obtains c where "lookup pr name = Ok c" "check_row c name r = Ok ()"
    "case pc_transform (spec c) of
       Some t \<Rightarrow> pc_readable (spec c) \<and> (\<exists>p. fst (tr_open x ks t s r w) = Ok p
         \<and> q = (case p of Some b \<Rightarrow> Value b | None \<Rightarrow> Unprotected s))
     | None \<Rightarrow> q = Unprotected s"
proof -
  obtain u where "pr_open x ks pr name s r w = (Ok q, u)" using assms by (metis prod.collapse)
  then obtain c where c: "lookup pr name = Ok c" "check_row c name r = Ok ()"
    and o: "(case pc_transform (spec c) of
         None \<Rightarrow> comp_ret (Unprotected s)
       | Some t \<Rightarrow>
           if \<not> pc_readable (spec c) then comp_of (Err (NotReadable name))
           else comp_bind (tr_open x ks t s r) (\<lambda>v.
             comp_ret (case v of Some b \<Rightarrow> Value b | None \<Rightarrow> Unprotected s))) w = (Ok q, u)"
    by (auto simp: pr_open_def comp_bind_eq_Ok)
  show thesis
  proof (cases "pc_transform (spec c)")
    case None
    then show ?thesis using that [OF c] o by simp
  next
    case (Some t)
    then show ?thesis
      using that [OF c] o by (auto simp: comp_bind_eq_Ok split: if_splits)
  qed
qed

lemma check_row_Ok: "check_row c name r = Ok () \<longleftrightarrow> (row_bound c \<longleftrightarrow> r \<noteq> None)"
  by (auto simp: check_row_def)



section \<open>Properties\<close>

context available_source
begin

text \<open>What an encrypted column stores, and the envelope the read path finds in it.\<close>

lemma pr_seal_encrypt:
  assumes "aead_laws x" and "hmac_sized x"
    and "protector_new p = Ok pr" and "world_inv ok dek ikey (cell_name p) w"
    and "pr_seal x ks pr name pt r w = (Ok s, v)" and "lookup pr name = Ok c"
    and "pc_transform (spec c) = Some (EncryptT t)"
  obtains env where "sealed_for x dek (et_context t) r pt env"
    "s = (if pc_searchable (spec c)
          then compute x (the (ikey (protected_qualified_name (spec c)))) pt @ env else env)"
    "pc_searchable (spec c) \<or> split s = None \<Longrightarrow>
       (case split s of Some (_, enveloped) \<Rightarrow> Some enveloped
            | None \<Rightarrow> if is_enveloped s then Some s else None) = Some env"
proof -
  have built: "spec c \<in> set (build p)" using lookup_built [OF assms(3,6)] by simp
  have seal: "encrypt_seal x ks t pt r w = (Ok s, v)"
    using assms(5) by (rule pr_seal_Ok) (use assms(6,7) in auto)
  obtain env where env: "sealed_for x dek (et_context t) r pt env"
    and s: "s = (case et_index_key_name t of None \<Rightarrow> env | Some nm \<Rightarrow> prepend (compute x (the (ikey nm)) pt) env)"
    using encrypt_seal_inv(2) [OF assms(4) build_transform_wf [OF built assms(7)] seal refl] by blast
  have en: "is_enveloped env" by (rule sealed_for_enveloped [OF assms(1) env])
  have name: "et_index_key_name t = (if pc_searchable (spec c) then Some (protected_qualified_name (spec c)) else None)"
    by (rule build_encrypt(2) [OF built assms(7)])
  have "length (compute x k pt) = 32" for k using assms(2) by (simp add: compute_def)
  then have "(case split s of Some (_, enveloped) \<Rightarrow> Some enveloped
            | None \<Rightarrow> if is_enveloped s then Some s else None) = Some env"
    if "pc_searchable (spec c) \<or> split s = None"
    using that en by (cases "pc_searchable (spec c)") (simp_all add: s name split_prepend)
  then show thesis using that env s by (simp add: name prepend_def split: if_splits)
qed

end

text \<open>The sample policy over the sample keyfile.\<close>

lemma sample_policy_valid: "validate sample_policy = Ok ()"
  by code_simp

definition sample_pr :: protector where
  "sample_pr = (case protector_new sample_policy of Ok pr \<Rightarrow> pr | Err _ \<Rightarrow> Map.empty)"

definition sample_name :: rstr where
  "sample_name = bs ''users.ssn''"

lemma sample_protector: "protector_new sample_policy = Ok sample_pr"
  by (simp add: sample_pr_def protector_new_def sample_policy_valid)

lemma sample_lookup:
  obtains c t where "lookup sample_pr sample_name = Ok c" "row_bound c" "pc_transform (spec c) = Some (EncryptT t)"
    "pc_searchable (spec c)" "et_context t = sample_column" "et_index_key_name t = Some sample_column"
proof -
  have "(case lookup sample_pr sample_name of Ok c \<Rightarrow> row_bound c \<and>
      (case pc_transform (spec c) of
         Some (EncryptT t) \<Rightarrow> pc_searchable (spec c) \<and> et_context t = sample_column \<and> et_index_key_name t = Some sample_column
       | _ \<Rightarrow> False)
    | Err _ \<Rightarrow> False)"
    by code_simp
  then show thesis using that by (auto split: sum.splits option.splits field_transform.splits)
qed

lemma sample_seal:
  obtains s v where "pr_seal sample (file_source sample) sample_pr sample_name [9] (Some [52]) (build_world sample_file) = (Ok s, v)"
proof -
  obtain c t where c: "lookup sample_pr sample_name = Ok c" "row_bound c" "pc_transform (spec c) = Some (EncryptT t)"
    and t: "et_context t = sample_column" "et_index_key_name t = Some sample_column"
    by (rule sample_lookup)
  have "is_ok (aad_with_row sample_column sample_id [52])"
    by (simp add: aad_with_row_def aad_prefix_def)
  then obtain a where a: "aad_with_row sample_column sample_id [52] = Ok a" by (meson is_ok_iff)
  have "\<exists>s v. encrypt_seal sample (file_source sample) t [9] (Some [52]) (build_world sample_file) = (Ok s, v)"
    by (simp add: encrypt_seal_def t a build_world_def on_ciphers_def ciphers_seal_def
        ciphers_active_def ciphers_new_def ciphers_with_budget_def comp_bind_def ask_def file_source_def
        fks_active_key_def fks_index_key_def once_key_def sample_file_def install_active_def alloc_def encrypt_at_def cipher_encrypt_def
        cipher_with_budget_def seal_with_def MAX_ENCRYPTIONS_PER_KEY_def blind_index_def index_key_def)
  then show thesis using that c by (auto simp: pr_seal_def check_row_def)
qed

lemma sample_search:
  obtains t v where "pr_search_term sample (file_source sample) sample_pr sample_name [9] (build_world sample_file) = (Ok (Some t), v)"
proof -
  obtain c t where c: "lookup sample_pr sample_name = Ok c" "pc_transform (spec c) = Some (EncryptT t)"
    and t: "et_index_key_name t = Some sample_column"
    by (rule sample_lookup)
  have "\<exists>v. once_key (file_source sample) sample_column (et_cell t) (build_world sample_file) = (Ok sample_key, v)"
    using sample_once_key [of sample "et_cell t"] by (simp add: sample_world_def build_world_def)
  then show thesis
    using that c by (auto simp: pr_search_term_def blind_index_def index_key_def t comp_bind_def)
qed

lemma sample_aead_laws: "aead_laws sample"
  using sample_laws by (simp add: aead_laws_def)

lemma sample_policy_world:
  "world_inv sample_src (fkeys sample_file) (index_keys sample_file) nm (build_world sample_file)"
  by (rule build_world_inv) (simp add: sample_file_wf)

text \<open>
  C2. A protected value opens only in its own cell. Whatever encrypted column and row a value
  sealed through a protector is read under, and whatever was sealed and opened in between, the
  protector returns something only for the column and the row the value was sealed for, and
  then it returns the value; it never passes the ciphertext through. For a column without a
  blind index this needs its ciphertext not to look like an envelope.
\<close>

theorem protector_opens_only_own_cell:
  assumes "available_source ks ok dek ikey" and "aead_laws x" and "hmac_sized x"
    and "protector_new p = Ok pr"
    and "world_inv ok dek ikey (cell_name p) w" and "world_inv ok dek ikey (cell_name p) u"
    and "lookup pr a = Ok ca" and "pc_transform (spec ca) = Some (EncryptT ta)"
    and "lookup pr b = Ok cb" and "pc_transform (spec cb) = Some (EncryptT tb)"
    and "pr_seal x ks pr a pt ra w = (Ok s, v)" and "pc_searchable (spec ca) \<or> split s = None"
    and "fst (pr_open x ks pr b s rb u) = Ok q"
  shows "q = Value pt \<and> lookup_key b = lookup_key a \<and> rb = ra"
proof -
  note built = lookup_built [OF assms(4,7)] lookup_built [OF assms(4,9)]
  obtain env where env: "sealed_for x dek (et_context ta) ra pt env"
    and found: "(case split s of Some (_, enveloped) \<Rightarrow> Some enveloped
            | None \<Rightarrow> if is_enveloped s then Some s else None) = Some env"
    using available_source.pr_seal_encrypt [OF assms(1-5,11,7,8)] assms(12) by blast
  have rows: "row_bound ca \<longleftrightarrow> ra \<noteq> None" "row_bound cb \<longleftrightarrow> rb \<noteq> None"
    using assms(11,13) by (auto elim!: pr_seal_Ok pr_open_Ok simp: assms(7,9) check_row_Ok)
  obtain m where m: "fst (encrypt_open x ks tb s rb u) = Ok m"
    and q: "q = (case m of Some b \<Rightarrow> Value b | None \<Rightarrow> Unprotected s)"
    using assms(13) by (rule pr_open_Ok) (use assms(9,10) in auto)
  note only = available_source.encrypt_open_only [OF assms(1,2) env assms(6) found m]
  have name: "lookup_key b = lookup_key a"
    using only build_encrypt(1) [of "spec ca" p ta] build_encrypt(1) [of "spec cb" p tb] built assms(8,10) by simp
  then have "ca = cb" using assms(7,9) by (simp add: lookup_def res_simps)
  then have "rb = ra" using rows only by (cases ra) auto
  then show ?thesis using only q name by simp
qed

theorem protector_opens_only_own_cell_witness:
  "\<exists>s v. pr_seal sample (file_source sample) sample_pr sample_name [9] (Some [52]) (build_world sample_file) = (Ok s, v)
     \<and> fst (pr_open sample (file_source sample) sample_pr sample_name s (Some [52]) (build_world sample_file)) \<noteq> Ok (Value [8])
     \<and> \<not> is_ok (fst (pr_open sample (file_source sample) sample_pr sample_name s (Some [53]) (build_world sample_file)))"
proof -
  obtain s v where s: "pr_seal sample (file_source sample) sample_pr sample_name [9] (Some [52]) (build_world sample_file) = (Ok s, v)"
    by (rule sample_seal)
  obtain c t where c: "lookup sample_pr sample_name = Ok c" "pc_transform (spec c) = Some (EncryptT t)"
    and se: "pc_searchable (spec c)"
    by (rule sample_lookup)
  note only = protector_opens_only_own_cell [OF fks.available_source_axioms [of sample] sample_aead_laws sample_hmac_sized
      sample_protector sample_policy_world sample_policy_world c c s]
  show ?thesis
    using s only [where rb = "Some [52]"] only [where rb = "Some [53]"] se by (auto simp: is_ok_iff)
qed

text \<open>
  C3. A protector opens what it sealed: for every readable column the value comes back, in the
  same process or in another one over the same keys.
\<close>

theorem protector_round_trip:
  assumes "available_source ks ok dek ikey" and "protector_new p = Ok pr"
    and "world_inv ok dek ikey (cell_name p) w" and "world_inv ok dek ikey (cell_name p) u"
    and "lookup pr name = Ok c" and "pc_transform (spec c) = Some t" and "tr_good x t s"
    and "pr_seal x ks pr name pt r w = (Ok s, v)"
  shows "fst (pr_open x ks pr name s r u) = Ok (Value pt)"
proof -
  have built: "spec c \<in> set (build p)" using lookup_built [OF assms(2,5)] by simp
  have wf: "tr_wf (cell_name p) t" by (rule build_transform_wf [OF built assms(6)])
  have "tr_seal x ks t pt r w = (Ok s, v)" and row: "check_row c name r = Ok ()"
    using assms(8) by (auto elim!: pr_seal_Ok simp: assms(5,6))
  then have "fst (tr_open x ks t s r u) = Ok (Some pt)"
    using available_source.tr_open_seal [OF assms(1)] assms(3,4,7) wf by blast
  then obtain u' where "tr_open x ks t s r u = (Ok (Some pt), u')" by (metis prod.collapse)
  moreover have "pc_readable (spec c)"
    using build_readable [OF built assms(6)] assms(7) by (cases t) auto
  ultimately show ?thesis
    using row by (simp add: pr_open_def assms(5,6))
qed

theorem protector_round_trip_witness:
  "\<exists>s v. pr_seal sample (file_source sample) sample_pr sample_name [9] (Some [52]) (build_world sample_file) = (Ok s, v)
     \<and> fst (pr_open sample (file_source sample) sample_pr sample_name s (Some [52]) (build_world sample_file)) = Ok (Value [9])"
proof -
  obtain s v where s: "pr_seal sample (file_source sample) sample_pr sample_name [9] (Some [52]) (build_world sample_file) = (Ok s, v)"
    by (rule sample_seal)
  obtain c t where c: "lookup sample_pr sample_name = Ok c" "pc_transform (spec c) = Some (EncryptT t)"
    and t: "et_index_key_name t = Some sample_column"
    by (rule sample_lookup)
  have "tr_good sample (EncryptT t) s" using sample_aead_laws sample_hmac_sized t by simp
  then show ?thesis
    using s protector_round_trip [OF fks.available_source_axioms [of sample] sample_protector sample_policy_world
        sample_policy_world c _ s] by blast
qed

text \<open>
  C4. The equality predicate the proxy and library callers build compares HMACs under the
  column's index key: every stored form of a plaintext begins with its HMAC, and the search term
  of a plaintext is its HMAC under the same key, whatever states the two were computed in. So a
  search finds every row with that plaintext, and only rows whose plaintext has the same HMAC.
\<close>

theorem search_term_matches:
  assumes "available_source ks ok dek ikey" and "aead_laws x" and "hmac_sized x" and "protector_new p = Ok pr"
    and "world_inv ok dek ikey (cell_name p) w" and "world_inv ok dek ikey (cell_name p) u"
    and "pr_seal x ks pr name pt r w = (Ok s, v)" and "pr_search_term x ks pr name pt' u = (Ok (Some trm), u')"
  shows "\<exists>k. ikey (lookup_key name) = Some k \<and> take BLIND_INDEX_LEN s = compute x k pt \<and> trm = compute x k pt'"
proof -
  obtain c where c: "lookup pr name = Ok c" using assms(7) by (rule pr_seal_Ok)
  have built: "spec c \<in> set (build p)" using lookup_built [OF assms(4) c] by simp
  obtain t' where t': "pc_transform (spec c) = Some t'" and ix': "tr_search_index x ks t' pt' u = (Ok (Some trm), u')"
    using assms(8) c by (auto simp: pr_search_term_def split: option.splits)
  obtain t where t: "pc_transform (spec c) = Some (EncryptT t)" and ix: "blind_index x ks t pt' u = (Ok (Some trm), u')"
    using t' ix' by (cases t') auto
  have wf: "tr_wf (cell_name p) (EncryptT t)" by (rule build_transform_wf [OF built t])
  note ixv = key_source_laws.blind_index_inv(2) [OF available_source.axioms(1) [OF assms(1)] assms(6) wf ix refl]
  have name: "et_index_key_name t = Some (protected_qualified_name (spec c))" "pc_searchable (spec c)"
    using ixv build_encrypt(2) [OF built t] by (auto split: if_splits)
  then obtain k where k: "ikey (protected_qualified_name (spec c)) = Some k" "trm = compute x k pt'"
    using ixv by (cases "ikey (protected_qualified_name (spec c))") auto
  obtain env where "s = compute x k pt @ env"
    using available_source.pr_seal_encrypt [OF assms(1-5,7) c t] name(2) k(1) by auto
  then show ?thesis using k assms(3) lookup_built [OF assms(4) c] by (auto simp: compute_def BLIND_INDEX_LEN_def)
qed

theorem search_term_matches_witness:
  "\<exists>s v trm u k. pr_seal sample (file_source sample) sample_pr sample_name [9] (Some [52]) (build_world sample_file) = (Ok s, v)
     \<and> pr_search_term sample (file_source sample) sample_pr sample_name [9] (build_world sample_file) = (Ok (Some trm), u)
     \<and> index_keys sample_file (lookup_key sample_name) = Some k \<and> take BLIND_INDEX_LEN s = trm"
proof -
  obtain s v where s: "pr_seal sample (file_source sample) sample_pr sample_name [9] (Some [52]) (build_world sample_file) = (Ok s, v)"
    by (rule sample_seal)
  obtain trm u where u: "pr_search_term sample (file_source sample) sample_pr sample_name [9] (build_world sample_file) = (Ok (Some trm), u)"
    by (rule sample_search)
  show ?thesis
    using s u search_term_matches [OF fks.available_source_axioms [of sample] sample_aead_laws sample_hmac_sized
      sample_protector sample_policy_world sample_policy_world s u] by auto
qed

text \<open>
  C13. A protector fails closed on names and rows: an unknown column is refused on both paths, a
  row key is required exactly where the table declares one, an irreversible column cannot be
  opened, and a bare table name means the default schema. None of these refusals touches the
  process state.
\<close>

theorem protector_refusals:
  "(pr (lookup_key name) = None \<longrightarrow>
      pr_seal x ks pr name b r w = (Err (UnknownColumn name), w)
      \<and> pr_open x ks pr name b r w = (Err (UnknownColumn name), w))
   \<and> (\<forall>c. pr (lookup_key name) = Some c \<longrightarrow>
        (row_bound c \<and> r = None \<longrightarrow> pr_seal x ks pr name b r w = (Err (RowKeyRequired name), w)
           \<and> pr_open x ks pr name b r w = (Err (RowKeyRequired name), w))
        \<and> (\<not> row_bound c \<and> r \<noteq> None \<longrightarrow> pr_seal x ks pr name b r w = (Err (RowKeyNotDeclared name), w)
           \<and> pr_open x ks pr name b r w = (Err (RowKeyNotDeclared name), w))
        \<and> ((row_bound c \<longleftrightarrow> r \<noteq> None) \<and> pc_transform (spec c) \<noteq> None \<and> \<not> pc_readable (spec c) \<longrightarrow>
             pr_open x ks pr name b r w = (Err (NotReadable name), w)))
   \<and> (46 \<notin> set tbl \<and> 46 \<notin> set col \<longrightarrow> lookup_key (tbl @ [46] @ col) = qualify DEFAULT_SCHEMA tbl col)"
proof -
  have "lookup_key (tbl @ [46] @ col) = qualify DEFAULT_SCHEMA tbl col" if "46 \<notin> set tbl" "46 \<notin> set col"
  proof -
    have none: "filter (\<lambda>b. b = 46) tbl = []" "filter (\<lambda>b. b = 46) col = []"
      using that by (auto simp: filter_empty_conv)
    have tw: "takeWhile (\<lambda>b. b \<noteq> 46) (tbl @ 46 # col) = tbl" "takeWhile (\<lambda>b. b \<noteq> 46) tbl = tbl"
      by (subst takeWhile_append2, use that(1) in \<open>auto simp: takeWhile_eq_all_conv\<close>)
    show ?thesis
      by (simp add: lookup_key_def none split_once_dot_def tw split_table_def)
  qed
  then show ?thesis
    by (auto simp: pr_seal_def pr_open_def lookup_def check_row_def)
qed

theorem protector_refusals_witness:
  "pr_seal sample (file_source sample) sample_pr (bs ''users.pin'') [9] None (build_world sample_file)
      = (Err (UnknownColumn (bs ''users.pin'')), build_world sample_file)
   \<and> pr_open sample (file_source sample) sample_pr sample_name [9] None (build_world sample_file)
      = (Err (RowKeyRequired sample_name), build_world sample_file)
   \<and> lookup_key ([117, 115] @ [46] @ [99]) = qualify DEFAULT_SCHEMA [117, 115] [99]"
proof -
  have "Option.is_none (sample_pr (lookup_key (bs ''users.pin'')))"
    by code_simp
  then have none: "sample_pr (lookup_key (bs ''users.pin'')) = None"
    by (simp add: Option.is_none_def)
  obtain c where c: "lookup sample_pr sample_name = Ok c" "row_bound c"
    by (rule sample_lookup)
  have "sample_pr (lookup_key sample_name) = Some c" using c by (simp add: lookup_def res_simps)
  then show ?thesis
    using protector_refusals [of sample_pr "bs ''users.pin''" sample "file_source sample" "[9]" None "build_world sample_file" "[117, 115]" "[99]"]
      protector_refusals [of sample_pr sample_name sample "file_source sample" "[9]" None "build_world sample_file" "[117, 115]" "[99]"] none c(2)
    by simp
qed

end
