(* ===== verification/Pgwire.thy ===== *)
theory Pgwire
  imports RustText
begin

text \<open>
  Framing of the PostgreSQL wire protocol (\<open>crates/pgwire/src/lib.rs\<close>): length fields of startup
  and regular messages, and the bodies of RowDescription, DataRow, Parse and Bind. A reader
  (\<open>take\<close> and its relatives) returns the field and the rest of the buffer; a writer returns the
  bytes it appends.
\<close>

datatype wire_error =
    BadMessageLength i32
  | StartupMessageTooLarge nat nat
  | WireFieldOverflow
  | MalformedBackend

definition PROTOCOL_V3 :: i32 where
  "PROTOCOL_V3 = push_bit 16 3"

definition SSL_REQUEST :: i32 where
  "SSL_REQUEST = 80877103"

definition GSSENC_REQUEST :: i32 where
  "GSSENC_REQUEST = 80877104"

definition CANCEL_REQUEST :: i32 where
  "CANCEL_REQUEST = 80877102"

definition STARTUP_HEADER_LEN :: nat where
  "STARTUP_HEADER_LEN = 8"

definition FRAME_HEADER_LEN :: nat where
  "FRAME_HEADER_LEN = 5"

definition MAX_MESSAGE_LEN :: nat where
  "MAX_MESSAGE_LEN = 2 ^ 30"

definition MAX_STARTUP_MESSAGE_LEN :: nat where
  "MAX_STARTUP_MESSAGE_LEN = 16 * 1024"

definition MAX_PRE_AUTH_MESSAGE_LEN :: nat where
  "MAX_PRE_AUTH_MESSAGE_LEN = MAX_STARTUP_MESSAGE_LEN"

datatype startup =
    Tls
  | GssEnc
  | Cancel
  | Protocol i32

definition startup_kind :: "i32 \<Rightarrow> startup" where
  "startup_kind code =
     (if code = SSL_REQUEST then Tls
      else if code = GSSENC_REQUEST then GssEnc
      else if code = CANCEL_REQUEST then Cancel
      else Protocol code)"

text \<open>
  A positive \<open>i32\<close> cast to \<open>usize\<close> keeps its value; the guard before each cast makes it positive.
\<close>

definition startup_body_len :: "bytes \<Rightarrow> wire_error + nat" where
  "startup_body_len len_field =
     (let len = be_word len_field :: i32 in
      if sint len < int STARTUP_HEADER_LEN then Err (BadMessageLength len)
      else if nat (sint len) > MAX_STARTUP_MESSAGE_LEN
      then Err (StartupMessageTooLarge (nat (sint len)) MAX_STARTUP_MESSAGE_LEN)
      else Ok (nat (sint len) - 4))"

definition frame_body_len :: "bytes \<Rightarrow> wire_error + byte \<times> nat" where
  "frame_body_len header =
     (let len = be_word (tl header) :: i32 in
      if sint len < 4 \<or> nat (sint len) > MAX_MESSAGE_LEN then Err (BadMessageLength len)
      else Ok (hd header, nat (sint len) - 4))"


section \<open>Fields\<close>

definition take_cstr :: "bytes \<Rightarrow> wire_error + bytes \<times> bytes" where
  "take_cstr buf =
     (let head = takeWhile (\<lambda>b. b \<noteq> 0) buf in
      if length head = length buf then Err MalformedBackend
      else Ok (head, drop (length head + 1) buf))"

definition take_bytes :: "nat \<Rightarrow> bytes \<Rightarrow> wire_error + bytes \<times> bytes" where
  "take_bytes n buf = ok_or (split_at_checked n buf) MalformedBackend"

definition take_i16 :: "bytes \<Rightarrow> wire_error + i16 \<times> bytes" where
  "take_i16 buf = map_ok (\<lambda>(b, rest). (be_word b, rest)) (take_bytes 2 buf)"

definition take_u32 :: "bytes \<Rightarrow> wire_error + u32 \<times> bytes" where
  "take_u32 buf = map_ok (\<lambda>(b, rest). (be_word b, rest)) (take_bytes 4 buf)"

definition take_nullable :: "bytes \<Rightarrow> wire_error + bytes option \<times> bytes" where
  "take_nullable buf =
     res_bind (take_bytes 4 buf) (\<lambda>(b, rest).
       let len = be_word b :: i32 in
       if len = -1 then Ok (None, rest)
       else if 0 \<le> sint len then map_ok (\<lambda>(v, rest). (Some v, rest)) (take_bytes (nat (sint len)) rest)
       else Err MalformedBackend)"

fun push_nullable :: "bytes option \<Rightarrow> wire_error + bytes" where
  "push_nullable None = Ok (word_be 4 (-1 :: i32))"
| "push_nullable (Some v) =
     (if length v < 2 ^ 31 then Ok (word_be 4 (of_nat (length v) :: i32) @ v) else Err WireFieldOverflow)"

definition wire_count :: "nat \<Rightarrow> wire_error + i16" where
  "wire_count len = (if len < 2 ^ 15 then Ok (of_nat len) else Err WireFieldOverflow)"

text \<open>\<open>for _ in 0..count\<close>: a negative count makes no turn.\<close>

definition count_turns :: "i16 \<Rightarrow> nat" where
  "count_turns count = nat (sint count)"


section \<open>Messages\<close>

record row_field =
  rf_name :: bytes
  table_oid :: u32
  attnum :: i16
  type_oid :: u32
  rf_format :: i16

definition take_row_field :: "bytes \<Rightarrow> wire_error + row_field \<times> bytes" where
  "take_row_field body =
     res_bind (take_cstr body) (\<lambda>(name, body).
     res_bind (take_u32 body) (\<lambda>(toid, body).
     res_bind (take_i16 body) (\<lambda>(att, body).
     res_bind (take_u32 body) (\<lambda>(tyoid, body).
     res_bind (take_bytes 6 body) (\<lambda>(_, body).
     res_bind (take_i16 body) (\<lambda>(fmt, body).
       Ok (\<lparr>rf_name = name, table_oid = toid, attnum = att, type_oid = tyoid, rf_format = fmt\<rparr>, body)))))))"

definition parse_row_description :: "bytes \<Rightarrow> wire_error + row_field list" where
  "parse_row_description body =
     res_bind (take_i16 body) (\<lambda>(count, body).
     res_bind (take_n take_row_field (count_turns count) body) (\<lambda>(fields, body).
       if body \<noteq> [] then Err MalformedBackend else Ok fields))"

definition parse_data_row :: "bytes \<Rightarrow> wire_error + bytes option list" where
  "parse_data_row body =
     res_bind (take_i16 body) (\<lambda>(count, body).
     res_bind (take_n take_nullable (count_turns count) body) (\<lambda>(values, body).
       if body \<noteq> [] then Err MalformedBackend else Ok values))"

definition encode_data_row :: "bytes option list \<Rightarrow> wire_error + bytes" where
  "encode_data_row values =
     res_bind (wire_count (length values)) (\<lambda>count.
     res_bind (push_all push_nullable values) (\<lambda>out. Ok (word_be 2 count @ out)))"

record parse_message =
  pm_statement :: bytes
  pm_query :: bytes
  pm_param_types :: bytes

definition parse_parse :: "bytes \<Rightarrow> wire_error + parse_message" where
  "parse_parse body =
     res_bind (take_cstr body) (\<lambda>(statement, body).
     res_bind (take_cstr body) (\<lambda>(query, body).
       Ok \<lparr>pm_statement = statement, pm_query = query, pm_param_types = body\<rparr>))"

definition encode_parse :: "bytes \<Rightarrow> bytes \<Rightarrow> bytes \<Rightarrow> bytes" where
  "encode_parse statement query param_types = statement @ [0] @ query @ [0] @ param_types"

record bind_message =
  bm_portal :: bytes
  bm_statement :: bytes
  bm_param_formats :: "i16 list"
  bm_params :: "bytes option list"
  bm_result_formats :: bytes

fun format_code :: "i16 list \<Rightarrow> nat \<Rightarrow> i16" where
  "format_code [] index = 0"
| "format_code [only] index = only"
| "format_code codes index = (if index < length codes then codes ! index else 0)"

definition param_format :: "bind_message \<Rightarrow> nat \<Rightarrow> i16" where
  "param_format m index = format_code (bm_param_formats m) index"

definition result_format_codes :: "bind_message \<Rightarrow> wire_error + i16 list" where
  "result_format_codes m =
     res_bind (take_i16 (bm_result_formats m)) (\<lambda>(count, raw).
     res_bind (take_n take_i16 (count_turns count) raw) (\<lambda>(codes, _). Ok codes))"

definition parse_bind :: "bytes \<Rightarrow> wire_error + bind_message" where
  "parse_bind body =
     res_bind (take_cstr body) (\<lambda>(portal, body).
     res_bind (take_cstr body) (\<lambda>(statement, body).
     res_bind (take_i16 body) (\<lambda>(format_count, body).
     res_bind (take_n take_i16 (count_turns format_count) body) (\<lambda>(param_formats, body).
     res_bind (take_i16 body) (\<lambda>(param_count, body).
     res_bind (take_n take_nullable (count_turns param_count) body) (\<lambda>(params, body).
       Ok \<lparr>bm_portal = portal, bm_statement = statement, bm_param_formats = param_formats,
           bm_params = params, bm_result_formats = body\<rparr>))))))"

definition encode_bind :: "bytes \<Rightarrow> bytes \<Rightarrow> i16 list \<Rightarrow> bytes option list \<Rightarrow> bytes \<Rightarrow> wire_error + bytes" where
  "encode_bind portal statement param_formats params result_formats =
     res_bind (wire_count (length param_formats)) (\<lambda>format_count.
     res_bind (wire_count (length params)) (\<lambda>param_count.
     res_bind (push_all push_nullable params) (\<lambda>encoded.
       Ok (portal @ [0] @ statement @ [0]
           @ word_be 2 format_count @ concat (map (word_be 2) param_formats)
           @ word_be 2 param_count @ encoded @ result_formats))))"


section \<open>Reading back what was written\<close>

text \<open>Signed reading of a small count.\<close>

lemma sint_of_small:
  assumes "n < 2 ^ (LENGTH('a::len) - 1)"
  shows "sint (of_nat n :: 'a word) = int n"
proof -
  have "int n < int (2 ^ (LENGTH('a) - 1))" using assms by (rule of_nat_less_iff [THEN iffD2])
  then have "int n < 2 ^ (LENGTH('a) - 1)" by simp
  moreover have "- (2 ^ (LENGTH('a) - 1)) \<le> int n" by (rule order_trans [of _ 0]) simp_all
  ultimately have "signed_take_bit (LENGTH('a) - 1) (int n) = int n" by (rule signed_take_bit_int_eq_self [rotated])
  then show ?thesis by (simp add: signed_of_nat)
qed

lemma wire_count_Ok: "wire_count n = Ok c \<longleftrightarrow> n < 2 ^ 15 \<and> c = of_nat n"
  by (auto simp: wire_count_def)

lemma count_turns_of_nat [simp]: "n < 2 ^ 15 \<Longrightarrow> count_turns (of_nat n) = n"
  by (simp add: count_turns_def sint_of_small)

lemma of_nat_count_turns: "0 \<le> sint c \<Longrightarrow> of_nat (count_turns c) = c \<and> count_turns c < 2 ^ 15"
proof -
  assume c: "0 \<le> sint c"
  have lt: "count_turns c < 2 ^ 15" using c sint_lt [of c] by (simp add: count_turns_def)
  have "sint (of_nat (count_turns c) :: i16) = int (count_turns c)" by (rule sint_of_small) (use lt in simp)
  also have "\<dots> = sint c" using c by (simp add: count_turns_def)
  finally show ?thesis using lt word_eq_iff_signed by blast
qed

text \<open>The counts a message may carry for \<open>n\<close> entries: the count itself, or a negative one for none.\<close>

definition counts_for :: "nat \<Rightarrow> i16 \<Rightarrow> bool" where
  "counts_for n c = (n < 2 ^ 15 \<and> c = of_nat n \<or> n = 0 \<and> sint c < 0)"

lemma count_turns_eq: "count_turns c = n \<longleftrightarrow> counts_for n c"
proof (cases "0 \<le> sint c")
  case True
  then show ?thesis using of_nat_count_turns [OF True] by (auto simp: counts_for_def)
next
  case False
  have "counts_for n c \<longleftrightarrow> n = 0"
  proof (cases "n < 2 ^ 15 \<and> c = of_nat n")
    case True
    then have "sint c = int n" using sint_of_small [of n, where 'a = 16] by simp
    then show ?thesis using False by simp
  next
    case False2: False
    then show ?thesis using False by (auto simp: counts_for_def)
  qed
  then show ?thesis using False by (auto simp: count_turns_def)
qed

lemma counts_for_turns [simp]: "counts_for (count_turns c) c"
  using count_turns_eq by blast

lemma take_bytes_eq_Ok: "take_bytes n buf = Ok (a, r) \<longleftrightarrow> buf = a @ r \<and> length a = n"
  by (simp add: take_bytes_def res_simps split_at_checked_eq_Some)

lemma take_cstr_append: "0 \<notin> set s \<Longrightarrow> take_cstr (s @ 0 # r) = Ok (s, r)"
proof -
  assume "0 \<notin> set s"
  then have "takeWhile (\<lambda>b. b \<noteq> 0) (s @ 0 # r) = s"
    by (induction s) auto
  then show ?thesis by (simp add: take_cstr_def)
qed

lemma take_cstr_none: "0 \<notin> set s \<Longrightarrow> take_cstr s = Err MalformedBackend"
proof -
  assume "0 \<notin> set s"
  then have "takeWhile (\<lambda>b. b \<noteq> 0) s = s"
    by (induction s) auto
  then show ?thesis by (simp only: take_cstr_def Let_def refl if_True)
qed

lemma take_cstr_eq_Ok: "take_cstr buf = Ok (s, r) \<longleftrightarrow> buf = s @ [0] @ r \<and> 0 \<notin> set s"
proof (cases "0 \<in> set buf")
  case True
  then obtain a b where ab: "buf = a @ 0 # b" "0 \<notin> set a" by (metis split_list_first)
  have "a @ 0 # b = s @ 0 # r \<and> 0 \<notin> set s \<longleftrightarrow> a = s \<and> b = r"
    using ab(2) by (auto simp: append_eq_append_conv2 append_eq_Cons_conv Cons_eq_append_conv)
  then show ?thesis unfolding ab(1) by (simp add: take_cstr_append [OF ab(2)])
next
  case False
  then show ?thesis by (auto simp: take_cstr_none)
qed

lemma word_be_split:
  assumes "LENGTH('a) = 8 * n"
  shows "(\<exists>a. buf = a @ r \<and> length a = n \<and> w = be_word a) \<longleftrightarrow> buf = word_be n (w :: 'a::len word) @ r"
  using be_word_inverse [OF assms] word_be_inverse [OF assms, of w] length_word_be [of n w] by metis

lemma take_i16_eq_Ok: "take_i16 buf = Ok (w, r) \<longleftrightarrow> buf = word_be 2 w @ r"
proof -
  have "take_i16 buf = Ok (w, r) \<longleftrightarrow> (\<exists>a. buf = a @ r \<and> length a = 2 \<and> w = be_word a)"
    by (auto simp: take_i16_def res_simps take_bytes_eq_Ok)
  then show ?thesis using word_be_split [of 2 buf r w] by simp
qed

lemma take_u32_eq_Ok: "take_u32 buf = Ok (w, r) \<longleftrightarrow> buf = word_be 4 w @ r"
proof -
  have "take_u32 buf = Ok (w, r) \<longleftrightarrow> (\<exists>a. buf = a @ r \<and> length a = 4 \<and> w = be_word a)"
    by (auto simp: take_u32_def res_simps take_bytes_eq_Ok)
  then show ?thesis using word_be_split [of 4 buf r w] by simp
qed

lemma of_nat_not_minus_one:
  assumes "n < 2 ^ 31"
  shows "(of_nat n :: i32) \<noteq> -1" and "sint (of_nat n :: i32) = int n"
proof -
  show si: "sint (of_nat n :: i32) = int n" by (rule sint_of_small) (use assms in simp)
  show "(of_nat n :: i32) \<noteq> -1"
  proof
    assume "(of_nat n :: i32) = -1"
    then have "sint (of_nat n :: i32) = -1" by simp
    then show False using si by linarith
  qed
qed

lemma push_take_nullable:
  assumes "take_nullable buf = Ok (v, r)"
  shows "\<exists>p. push_nullable v = Ok p \<and> buf = p @ r"
proof -
  from assms obtain a rest where a: "buf = a @ rest" "length a = 4"
    and v: "(let len = be_word a :: i32 in
       if len = -1 then Ok (None, rest)
       else if 0 \<le> sint len then map_ok (\<lambda>(v, rest). (Some v, rest)) (take_bytes (nat (sint len)) rest)
       else Err MalformedBackend) = Ok (v, r)"
    by (auto simp: take_nullable_def res_simps take_bytes_eq_Ok)
  let ?len = "be_word a :: i32"
  have wback: "word_be 4 ?len = a" using a by (simp add: be_simps)
  show ?thesis
  proof (cases "?len = -1")
    case True
    then show ?thesis using v a wback by auto
  next
    case False
    then obtain w where w: "0 \<le> sint ?len" "v = Some w" "rest = w @ r" "length w = nat (sint ?len)"
      using v by (auto simp: Let_def res_simps take_bytes_eq_Ok split: if_splits)
    have len: "length w < 2 ^ 31" using w(1,4) sint_lt [of ?len] by simp
    have "sint (of_nat (length w) :: i32) = sint ?len"
      using of_nat_not_minus_one(2) [OF len] w(1,4) by simp
    then have "(of_nat (length w) :: i32) = ?len" by (rule word_eq_iff_signed [THEN iffD2])
    then show ?thesis using a wback len w by simp
  qed
qed

lemma take_push_nullable:
  assumes "push_nullable v = Ok p"
  shows "take_nullable (p @ r) = Ok (v, r)"
proof (cases v)
  case None
  then have "p = word_be 4 (-1 :: i32)" using assms by auto
  then show ?thesis using None by (simp add: take_nullable_def take_bytes_def be_simps)
next
  case (Some w)
  then have l: "length w < 2 ^ 31" "p = word_be 4 (of_nat (length w) :: i32) @ w"
    using assms by (auto split: if_splits)
  have "take_bytes 4 (p @ r) = Ok (word_be 4 (of_nat (length w) :: i32), w @ r)"
    unfolding l(2) take_bytes_def by simp
  moreover have "take_bytes (length w) (w @ r) = Ok (w, r)" by (simp add: take_bytes_def)
  ultimately show ?thesis
    unfolding take_nullable_def Some using of_nat_not_minus_one [OF l(1)] by (simp add: be_simps)
qed

interpretation nullable: prefix_codec push_nullable take_nullable
  by unfold_locales (simp_all add: take_push_nullable push_take_nullable)

interpretation int16: prefix_codec "\<lambda>w. Ok (word_be 2 w)" take_i16
  by unfold_locales (auto simp: take_i16_eq_Ok)


lemma push_all_word_be [simp]: "push_all (\<lambda>w. Ok (word_be 2 w)) ws = Ok (concat (map (word_be 2) ws))"
  by (induction ws) simp_all

lemma take_n_i16: "take_n take_i16 (length ws) (concat (map (word_be 2) ws) @ r) = Ok (ws, r)"
  using int16.take_n_push_all [of ws _ r] by simp

lemma take_n_i16_eq_Ok:
  "take_n take_i16 n b = Ok (ws, r) \<longleftrightarrow> length ws = n \<and> b = concat (map (word_be 2) ws) @ r"
  using int16.push_all_take_n [of n b ws r] take_n_i16 [of ws r] by auto

lemma take_n_nullable_eq_Ok:
  "take_n take_nullable n b = Ok (vs, r) \<longleftrightarrow> length vs = n \<and> (\<exists>p. push_all push_nullable vs = Ok p \<and> b = p @ r)"
  using nullable.push_all_take_n [of n b vs r] nullable.take_n_push_all [of vs _ r] by auto

text \<open>One field of a RowDescription as it stands on the wire, with the six bytes the parser skips.\<close>

definition field_wire :: "bytes \<times> row_field \<Rightarrow> bytes" where
  "field_wire sf = (case sf of (skip, f) \<Rightarrow>
     rf_name f @ [0] @ word_be 4 (table_oid f) @ word_be 2 (attnum f) @ word_be 4 (type_oid f)
       @ skip @ word_be 2 (rf_format f))"

definition field_ok :: "bytes \<times> row_field \<Rightarrow> bool" where
  "field_ok sf = (length (fst sf) = 6 \<and> 0 \<notin> set (rf_name (snd sf)))"

lemma take_row_field_eq_Ok:
  "take_row_field b = Ok (f, r) \<longleftrightarrow> (\<exists>skip. field_ok (skip, f) \<and> b = field_wire (skip, f) @ r)"
proof
  assume "take_row_field b = Ok (f, r)"
  then obtain name b1 toid b2 att b3 ty b4 skip b5 fmt where
    f: "f = \<lparr>rf_name = name, table_oid = toid, attnum = att, type_oid = ty, rf_format = fmt\<rparr>"
    and b: "b = name @ [0] @ b1" "0 \<notin> set name" "b1 = word_be 4 toid @ b2" "b2 = word_be 2 att @ b3"
      "b3 = word_be 4 ty @ b4" "b4 = skip @ b5" "length skip = 6" "b5 = word_be 2 fmt @ r"
    unfolding take_row_field_def
    by (auto simp: res_bind_eq_Ok take_cstr_eq_Ok take_u32_eq_Ok take_i16_eq_Ok take_bytes_eq_Ok)
  then have "field_ok (skip, f)" "b = field_wire (skip, f) @ r"
    by (simp_all add: field_ok_def field_wire_def)
  then show "\<exists>skip. field_ok (skip, f) \<and> b = field_wire (skip, f) @ r" by blast
next
  assume "\<exists>skip. field_ok (skip, f) \<and> b = field_wire (skip, f) @ r"
  then obtain skip where ok: "length skip = 6" "0 \<notin> set (rf_name f)"
    and b: "b = rf_name f @ [0] @ word_be 4 (table_oid f) @ word_be 2 (attnum f) @ word_be 4 (type_oid f)
       @ skip @ word_be 2 (rf_format f) @ r"
    by (auto simp: field_ok_def field_wire_def)
  have "take_cstr b = Ok (rf_name f, word_be 4 (table_oid f) @ word_be 2 (attnum f) @ word_be 4 (type_oid f)
       @ skip @ word_be 2 (rf_format f) @ r)"
    using take_cstr_append [OF ok(2)] unfolding b by simp
  moreover have "take_u32 (word_be 4 w @ q) = Ok (w, q)" "take_i16 (word_be 2 v @ q) = Ok (v, q)"
    "take_bytes 6 (skip @ q) = Ok (skip, q)" for w v q
    using ok(1) by (simp_all add: take_u32_eq_Ok take_i16_eq_Ok take_bytes_eq_Ok)
  ultimately show "take_row_field b = Ok (f, r)"
    by (simp add: take_row_field_def)
qed

lemma take_n_row_field_wire:
  "\<forall>sf \<in> set sfs. field_ok sf \<Longrightarrow>
     take_n take_row_field (length sfs) (concat (map field_wire sfs) @ r) = Ok (map snd sfs, r)"
proof (induction sfs)
  case Nil
  then show ?case by simp
next
  case (Cons sf sfs)
  obtain skip f where sf: "sf = (skip, f)" by force
  have "take_row_field (field_wire sf @ q) = Ok (f, q)" for q
    using Cons.prems sf take_row_field_eq_Ok by fastforce
  then show ?case using Cons sf by simp
qed

lemma row_field_wire_take_n:
  "take_n take_row_field n b = Ok (fs, r) \<Longrightarrow>
     \<exists>sfs. map snd sfs = fs \<and> length sfs = n \<and> (\<forall>sf \<in> set sfs. field_ok sf) \<and> b = concat (map field_wire sfs) @ r"
proof (induction n arbitrary: b fs)
  case 0
  then show ?case by simp
next
  case (Suc n)
  then obtain f b' fs' where f: "take_row_field b = Ok (f, b')" "take_n take_row_field n b' = Ok (fs', r)" "fs = f # fs'"
    by (auto simp: res_bind_eq_Ok)
  obtain skip where sk: "field_ok (skip, f)" "b = field_wire (skip, f) @ b'"
    using f(1) by (auto simp: take_row_field_eq_Ok)
  obtain sfs where "map snd sfs = fs'" "length sfs = n" "\<forall>sf \<in> set sfs. field_ok sf" "b' = concat (map field_wire sfs) @ r"
    using Suc.IH [OF f(2)] by blast
  then show ?case using sk f(3) by (intro exI [of _ "(skip, f) # sfs"]) simp
qed


lemma parse_encode_data_row: "encode_data_row vs = Ok b \<Longrightarrow> parse_data_row b = Ok vs"
proof -
  assume "encode_data_row vs = Ok b"
  then obtain p where n: "length vs < 2 ^ 15" and p: "push_all push_nullable vs = Ok p"
    and b: "b = word_be 2 (of_nat (length vs) :: i16) @ p"
    by (auto simp: encode_data_row_def res_bind_eq_Ok wire_count_Ok)
  have "take_i16 b = Ok (of_nat (length vs), p)" by (simp add: b take_i16_eq_Ok)
  then show ?thesis
    using nullable.take_n_push_all [OF p, of "[]"] n by (simp add: parse_data_row_def)
qed


section \<open>Properties\<close>

text \<open>
  C11. DataRow bodies round trip in both directions: parsing accepts exactly the bodies that
  encoding writes, and returns the values that were encoded, so re-encoding an untouched row is
  byte for byte the row that came in. The one further body accepted is a bare negative column
  count, which is read as a row of no columns.
\<close>

theorem data_row_wire:
  "parse_data_row b = Ok vs \<longleftrightarrow>
     encode_data_row vs = Ok b \<or> vs = [] \<and> (\<exists>c :: i16. sint c < 0 \<and> b = word_be 2 c)"
proof -
  have "parse_data_row b = Ok vs \<longleftrightarrow> (\<exists>c p. b = word_be 2 c @ p \<and> length vs = count_turns c \<and> push_all push_nullable vs = Ok p)"
    by (auto simp: parse_data_row_def res_bind_eq_Ok take_i16_eq_Ok take_n_nullable_eq_Ok split: if_splits)
  also have "\<dots> \<longleftrightarrow> (\<exists>p. length vs < 2 ^ 15 \<and> b = word_be 2 (of_nat (length vs) :: i16) @ p \<and> push_all push_nullable vs = Ok p)
      \<or> vs = [] \<and> (\<exists>c :: i16. sint c < 0 \<and> b = word_be 2 c)"
    unfolding eq_commute [of "length vs"] count_turns_eq counts_for_def by auto
  finally show ?thesis
    by (simp add: encode_data_row_def res_bind_eq_Ok wire_count_Ok) blast
qed


lemma parse_bind_eq_Ok:
  "parse_bind b = Ok m \<longleftrightarrow> (\<exists>fc pc enc. counts_for (length (bm_param_formats m)) fc \<and> counts_for (length (bm_params m)) pc
     \<and> push_all push_nullable (bm_params m) = Ok enc \<and> 0 \<notin> set (bm_portal m) \<and> 0 \<notin> set (bm_statement m)
     \<and> b = bm_portal m @ [0] @ bm_statement m @ [0] @ word_be 2 fc @ concat (map (word_be 2) (bm_param_formats m))
           @ word_be 2 pc @ enc @ bm_result_formats m)"
proof
  assume "parse_bind b = Ok m"
  then obtain po st fc fs pc ps enc rf where
    m: "m = \<lparr>bm_portal = po, bm_statement = st, bm_param_formats = fs, bm_params = ps, bm_result_formats = rf\<rparr>"
    and b: "0 \<notin> set po" "0 \<notin> set st" "length fs = count_turns fc" "length ps = count_turns pc"
      "push_all push_nullable ps = Ok enc"
      "b = po @ [0] @ st @ [0] @ word_be 2 fc @ concat (map (word_be 2) fs) @ word_be 2 pc @ enc @ rf"
    unfolding parse_bind_def
    by (auto simp: res_bind_eq_Ok take_cstr_eq_Ok take_i16_eq_Ok take_n_i16_eq_Ok take_n_nullable_eq_Ok)
  moreover have "counts_for (length fs) fc" "counts_for (length ps) pc"
    using b(3,4) by simp_all
  ultimately show "\<exists>fc pc enc. counts_for (length (bm_param_formats m)) fc \<and> counts_for (length (bm_params m)) pc
     \<and> push_all push_nullable (bm_params m) = Ok enc \<and> 0 \<notin> set (bm_portal m) \<and> 0 \<notin> set (bm_statement m)
     \<and> b = bm_portal m @ [0] @ bm_statement m @ [0] @ word_be 2 fc @ concat (map (word_be 2) (bm_param_formats m))
           @ word_be 2 pc @ enc @ bm_result_formats m"
    by (intro exI [of _ fc] exI [of _ pc] exI [of _ enc]) simp
next
  assume "\<exists>fc pc enc. counts_for (length (bm_param_formats m)) fc \<and> counts_for (length (bm_params m)) pc
     \<and> push_all push_nullable (bm_params m) = Ok enc \<and> 0 \<notin> set (bm_portal m) \<and> 0 \<notin> set (bm_statement m)
     \<and> b = bm_portal m @ [0] @ bm_statement m @ [0] @ word_be 2 fc @ concat (map (word_be 2) (bm_param_formats m))
           @ word_be 2 pc @ enc @ bm_result_formats m"
  then obtain fc pc enc where c: "count_turns fc = length (bm_param_formats m)" "count_turns pc = length (bm_params m)"
    and enc: "push_all push_nullable (bm_params m) = Ok enc" and z: "0 \<notin> set (bm_portal m)" "0 \<notin> set (bm_statement m)"
    and b: "b = bm_portal m @ [0] @ bm_statement m @ [0] @ word_be 2 fc @ concat (map (word_be 2) (bm_param_formats m))
           @ word_be 2 pc @ enc @ bm_result_formats m"
    by (auto simp: count_turns_eq)
  have "take_i16 (word_be 2 w @ q) = Ok (w, q)" for w q by (simp add: take_i16_eq_Ok)
  then show "parse_bind b = Ok m"
    unfolding b parse_bind_def using take_cstr_append [OF z(1)] take_cstr_append [OF z(2)]
    by (simp add: c take_n_i16 nullable.take_n_push_all [OF enc])
qed

lemma encode_bind_eq_Ok:
  "encode_bind po st fs ps rf = Ok b \<longleftrightarrow> length fs < 2 ^ 15 \<and> length ps < 2 ^ 15
     \<and> (\<exists>enc. push_all push_nullable ps = Ok enc \<and> b = po @ [0] @ st @ [0] @ word_be 2 (of_nat (length fs) :: i16)
          @ concat (map (word_be 2) fs) @ word_be 2 (of_nat (length ps) :: i16) @ enc @ rf)"
  by (auto simp: encode_bind_def res_bind_eq_Ok wire_count_Ok)

text \<open>Where a Bind announces its format codes and its parameters: after the two names, and after the codes.\<close>

definition format_count :: "bind_message \<Rightarrow> bytes \<Rightarrow> i16" where
  "format_count m b = be_word (take 2 (drop (length (bm_portal m) + length (bm_statement m) + 2) b))"

definition param_count :: "bind_message \<Rightarrow> bytes \<Rightarrow> i16" where
  "param_count m b =
     be_word (take 2 (drop (length (bm_portal m) + length (bm_statement m) + 2 + 2 + 2 * length (bm_param_formats m)) b))"

lemma counts_in_place:
  assumes "b = bm_portal m @ [0] @ bm_statement m @ [0] @ word_be 2 fc @ concat (map (word_be 2) (bm_param_formats m)) @ word_be 2 pc @ rest"
  shows "format_count m b = fc" "param_count m b = pc"
proof -
  have codes: "length (concat (map (word_be 2) fs)) = 2 * length fs" for fs :: "i16 list" by (induction fs) simp_all
  show "format_count m b = fc" unfolding assms format_count_def by simp
  let ?pre = "bm_portal m @ [0] @ bm_statement m @ [0] @ word_be 2 fc @ concat (map (word_be 2) (bm_param_formats m))"
  have "length ?pre = length (bm_portal m) + length (bm_statement m) + 2 + 2 + 2 * length (bm_param_formats m)" by (simp add: codes)
  moreover have "b = ?pre @ word_be 2 pc @ rest" using assms by simp
  ultimately show "param_count m b = pc" unfolding param_count_def using append_eq_conv_conj [of ?pre "word_be 2 pc @ rest" b] by simp
qed

text \<open>
  C10. Bind messages round trip. What is encoded from names without a NUL parses back to exactly
  the same message; what parses can always be encoded again, and the re-encoded message parses to
  the same one and is byte for byte the received one, with any number of format codes and parameters,
  none included, unless the received one announced one of its lists by a negative count.
\<close>

theorem bind_wire:
  "(\<forall>b. encode_bind (bm_portal m) (bm_statement m) (bm_param_formats m) (bm_params m) (bm_result_formats m) = Ok b
      \<and> 0 \<notin> set (bm_portal m) \<and> 0 \<notin> set (bm_statement m) \<longrightarrow> parse_bind b = Ok m)
   \<and> (\<forall>b. parse_bind b = Ok m \<longrightarrow>
        (\<exists>b'. encode_bind (bm_portal m) (bm_statement m) (bm_param_formats m) (bm_params m) (bm_result_formats m) = Ok b'
          \<and> parse_bind b' = Ok m \<and> (0 \<le> sint (format_count m b) \<and> 0 \<le> sint (param_count m b) \<longrightarrow> b' = b)))"
proof -
  have small: "counts_for n c \<Longrightarrow> n < 2 ^ 15" and self: "n < 2 ^ 15 \<Longrightarrow> counts_for n (of_nat n)"
    and det: "counts_for n c \<Longrightarrow> 0 \<le> sint c \<Longrightarrow> c = of_nat n" for n c
    by (auto simp: counts_for_def signed_eq_0_iff)
  show ?thesis
  proof (intro conjI allI impI)
    fix b assume "encode_bind (bm_portal m) (bm_statement m) (bm_param_formats m) (bm_params m) (bm_result_formats m) = Ok b
      \<and> 0 \<notin> set (bm_portal m) \<and> 0 \<notin> set (bm_statement m)"
    then show "parse_bind b = Ok m"
      unfolding parse_bind_eq_Ok encode_bind_eq_Ok using self by blast
  next
    fix b assume "parse_bind b = Ok m"
    then obtain fc pc enc where b: "counts_for (length (bm_param_formats m)) fc" "counts_for (length (bm_params m)) pc"
      "push_all push_nullable (bm_params m) = Ok enc" "0 \<notin> set (bm_portal m)" "0 \<notin> set (bm_statement m)"
      "b = bm_portal m @ [0] @ bm_statement m @ [0] @ word_be 2 fc @ concat (map (word_be 2) (bm_param_formats m))
           @ word_be 2 pc @ enc @ bm_result_formats m"
      by (auto simp: parse_bind_eq_Ok)
    obtain b' where b': "encode_bind (bm_portal m) (bm_statement m) (bm_param_formats m) (bm_params m) (bm_result_formats m) = Ok b'"
      using b(3) small [OF b(1)] small [OF b(2)] by (simp add: encode_bind_eq_Ok)
    moreover have "parse_bind b' = Ok m"
      using b' b(4,5) unfolding parse_bind_eq_Ok encode_bind_eq_Ok using self by blast
    moreover have "b' = b" if "0 \<le> sint (format_count m b) \<and> 0 \<le> sint (param_count m b)"
      using b' b(3,6) det [OF b(1)] det [OF b(2)] that counts_in_place [OF b(6)] by (simp add: encode_bind_eq_Ok)
    ultimately show "\<exists>b'. encode_bind (bm_portal m) (bm_statement m) (bm_param_formats m) (bm_params m) (bm_result_formats m) = Ok b'
          \<and> parse_bind b' = Ok m \<and> (0 \<le> sint (format_count m b) \<and> 0 \<le> sint (param_count m b) \<longrightarrow> b' = b)"
      by blast
  qed
qed

theorem bind_wire_witness:
  "\<exists>b. encode_bind [97] [98] [1] [Some [7], None] [0, 0] = Ok b
     \<and> parse_bind b = Ok \<lparr>bm_portal = [97], bm_statement = [98], bm_param_formats = [1],
           bm_params = [Some [7], None], bm_result_formats = [0, 0]\<rparr>"
proof -
  let ?m = "\<lparr>bm_portal = [97], bm_statement = [98], bm_param_formats = [1],
           bm_params = [Some [7], None], bm_result_formats = [0, 0]\<rparr>"
  obtain b where b: "encode_bind [97] [98] [1] [Some [7], None] [0, 0] = Ok b"
    by (simp add: encode_bind_eq_Ok)
  then have "parse_bind b = Ok ?m"
    using bind_wire [of ?m] by simp
  then show ?thesis using b by blast
qed

text \<open>
  Parse messages round trip: a body parses exactly when it is the encoding of what it parses
  to, with names free of NUL bytes, and the parameter types are relayed as they came.
\<close>

theorem parse_wire:
  "parse_parse b = Ok m \<longleftrightarrow>
     b = encode_parse (pm_statement m) (pm_query m) (pm_param_types m)
     \<and> 0 \<notin> set (pm_statement m) \<and> 0 \<notin> set (pm_query m)"
proof -
  have "parse_parse b = Ok m \<longleftrightarrow> (\<exists>s r q t. take_cstr b = Ok (s, r) \<and> take_cstr r = Ok (q, t)
      \<and> m = \<lparr>pm_statement = s, pm_query = q, pm_param_types = t\<rparr>)"
    by (auto simp: parse_parse_def res_bind_eq_Ok)
  then show ?thesis
    by (cases m) (auto simp: take_cstr_eq_Ok encode_parse_def)
qed

text \<open>
  A RowDescription parses exactly when it is the announced number of fields and nothing else,
  each a name, a table, an attribute number, a type, six bytes that are skipped, and a format;
  the fields are returned in order.
\<close>

theorem row_description_wire:
  "parse_row_description b = Ok fs \<longleftrightarrow>
     (\<exists>c sfs. counts_for (length sfs) c \<and> map snd sfs = fs \<and> list_all field_ok sfs
        \<and> b = word_be 2 c @ concat (map field_wire sfs))"
proof
  assume "parse_row_description b = Ok fs"
  then obtain c r where b: "b = word_be 2 c @ r" "take_n take_row_field (count_turns c) r = Ok (fs, [])"
    by (auto simp: parse_row_description_def res_bind_eq_Ok take_i16_eq_Ok split: if_splits)
  obtain sfs where "map snd sfs = fs" "length sfs = count_turns c" "list_all field_ok sfs" "r = concat (map field_wire sfs)"
    using row_field_wire_take_n [OF b(2)] by (auto simp: list_all_iff)
  then show "\<exists>c sfs. counts_for (length sfs) c \<and> map snd sfs = fs \<and> list_all field_ok sfs
        \<and> b = word_be 2 c @ concat (map field_wire sfs)"
    using b(1) by (intro exI [of _ c] exI [of _ sfs]) simp
next
  assume "\<exists>c sfs. counts_for (length sfs) c \<and> map snd sfs = fs \<and> list_all field_ok sfs
        \<and> b = word_be 2 c @ concat (map field_wire sfs)"
  then obtain c sfs where c: "count_turns c = length sfs" and sfs: "map snd sfs = fs" "\<forall>sf \<in> set sfs. field_ok sf"
    and b: "b = word_be 2 c @ concat (map field_wire sfs)"
    by (auto simp: count_turns_eq list_all_iff)
  have "take_i16 b = Ok (c, concat (map field_wire sfs))" by (simp add: b take_i16_eq_Ok)
  then show "parse_row_description b = Ok fs"
    using take_n_row_field_wire [OF sfs(2), of "[]"] sfs(1) by (simp add: parse_row_description_def c)
qed

text \<open>
  Length fields are accepted exactly within bounds: a message body is at most 1 GiB less the
  length field, a startup body between its code and 16 KiB, and the length returned is the length
  announced.
\<close>

theorem length_fields:
  "(frame_body_len header = Ok (t, n) \<longleftrightarrow>
      t = hd header \<and> sint (be_word (tl header) :: i32) = int n + 4 \<and> n + 4 \<le> MAX_MESSAGE_LEN)
   \<and> (startup_body_len field = Ok k \<longleftrightarrow>
      sint (be_word field :: i32) = int k + 4 \<and> 4 \<le> k \<and> k + 4 \<le> MAX_STARTUP_MESSAGE_LEN)"
  by (auto simp: frame_body_len_def startup_body_len_def Let_def STARTUP_HEADER_LEN_def nat_le_iff nat_diff_distrib
      split: if_splits)

end
