(* ===== verification/ProxyTypes.thy ===== *)
theory ProxyTypes
  imports CoreTypes Pgwire
begin

text \<open>
  The error type of the proxy (\<open>crates/proxy/src/main.rs\<close>), the policy switch of its configuration
  and what a relay does with a frame. Errors of other crates (\<open>std::io\<close>, \<open>tokio_postgres\<close>) are
  represented by their rendered text, durations by seconds.
\<close>

datatype (plugins only: code size) proxy_error =
    Usage rstr
  | NoConfig rstr
  | ConfigRead rstr rstr
  | ConfigParse rstr rstr
  | Hardening rstr rstr
  | ConnectTimeout rstr
  | StartupTimeout nat
  | TlsHandshakeTimeout nat
  | FrameTooLarge byte nat nat
  | TlsConfig rstr
  | PlaintextRejected
  | UpstreamTlsRefused rstr
  | InvalidConfig rstr
  | Listen rstr rstr
  | VaultToken rstr rstr
  | Control rstr rstr
  | ControlTimeout rstr nat
  | ColumnNotFound rstr rstr
  | RewriteDiverged
  | NameTooLong rstr nat nat
  | SessionLimit rstr nat
  | ConflictingParameter nat
  | UndescribedRow
  | StaleColumnMap bytes u32
  | ProtectedValueTooLarge nat nat nat
  | PreAuthFrameTooLarge byte nat nat
  | ComputedProtectedColumn bytes
  | FunctionCallResult
  | RowBindingFailed rstr bytes nat
  | AmbiguousRowKey rstr rstr
  | AmbiguousRowInstance rstr rstr
  | Wire core_error
  | PgwireError wire_error
  | Io rstr

text \<open>\<open>#[from]\<close> on the last variants: \<open>?\<close> converts the errors of the other crates.\<close>

abbreviation of_core :: "core_error + 'a \<Rightarrow> proxy_error + 'a" where
  "of_core \<equiv> map_err Wire"

abbreviation of_wire :: "wire_error + 'a \<Rightarrow> proxy_error + 'a" where
  "of_wire \<equiv> map_err PgwireError"

datatype on_unprotected =
    Warn
  | Reject

datatype frame_action =
    Relay
  | Replace bytes
  | Reply bytes
  | RefuseAndClose bytes

text \<open>A refusal of one statement, or an error that ends the session.\<close>

datatype 'm rejection =
    Refused 'm
  | Fatal proxy_error

end
