(* ===== verification/Portal.thy ===== *)
theory Portal
  imports ProxyTypes RowKeys "HOL-Library.AList"
begin

text \<open>
  Extended-protocol session state (\<open>crates/proxy/src/portal.rs\<close>): prepared statements, portals,
  the queue of responses the server owes, and copy mode. The state is shared by the two relay
  directions, which hold its lock for one operation at a time, so each operation is one step.

  A \<open>HashMap\<close> is an association list with distinct keys. \<open>'t\<close> is the type of handles to
  transforms: two \<open>Arc\<close>s are \<open>ptr_eq\<close> exactly when the handles are equal. \<open>'p\<close> is the type of
  row descriptions.
\<close>

definition MAX_PREPARED_STATEMENTS :: nat where
  "MAX_PREPARED_STATEMENTS = 1024"

definition MAX_PORTALS :: nat where
  "MAX_PORTALS = 1024"

definition MAX_NAME_LEN :: nat where
  "MAX_NAME_LEN = 256"

definition MAX_PENDING_RESPONSES :: nat where
  "MAX_PENDING_RESPONSES = 4096"

definition COPY_DATA :: byte where
  "COPY_DATA = 100"

type_synonym result_formats = "i16 list option"

definition for_column :: "result_formats \<Rightarrow> nat \<Rightarrow> i16" where
  "for_column fs index = (case fs of Some codes \<Rightarrow> format_code codes index | None \<Rightarrow> 0)"

definition value_format :: "i16 \<Rightarrow> core_error + format" where
  "value_format code =
     (if code = 0 then Ok Text else if code = 1 then Ok Binary else Err (RowKeyType (KeyFormatCode code)))"


section \<open>Parameter actions\<close>

datatype row_key_source =
    NoRow
  | Literal row_key
  | Param nat u32 rstr

datatype 't param_action =
    Seal 't row_key_source
  | SearchIndex 't
  | SearchIndexArray 't rstr

fun agrees_with :: "'t param_action \<Rightarrow> 't param_action \<Rightarrow> bool" where
  "agrees_with (Seal a l) (Seal b r) = (a = b \<and> l = r)"
| "agrees_with (SearchIndex a) (SearchIndex b) = (a = b)"
| "agrees_with (SearchIndexArray a l) (SearchIndexArray b r) = (a = b \<and> l = r)"
| "agrees_with _ _ = False"

type_synonym 't param_transforms = "(nat \<times> 't param_action) list"

text \<open>\<open>saturating_add(1)\<close> on a \<open>usize\<close>: an index never reaches the maximum.\<close>

definition record_action :: "'t param_transforms \<Rightarrow> nat \<Rightarrow> 't param_action \<Rightarrow> proxy_error + 't param_transforms" where
  "record_action entries index action =
     (case find (\<lambda>(existing, _). existing = index) entries of
        Some (_, existing) \<Rightarrow>
          if agrees_with existing action then Ok entries else Err (ConflictingParameter (index + 1))
      | None \<Rightarrow> Ok (entries @ [(index, action)]))"


section \<open>Tracked state\<close>

datatype target = TStatement | TPortal

datatype 'p row_source =
    PortalRows 'p result_formats
  | LastDescription
  | Undescribed

type_synonym statement_id = u64
type_synonym execute_id = u64

datatype copy_in =
    Idle
  | Started "execute_id option"

record statement_ref =
  sr_name :: bytes
  sr_id :: statement_id

record ('t, 'p) statement =
  st_id :: statement_id
  st_params :: "'t param_transforms"
  st_described :: "'p option"

datatype 'p pending =
    Describe "statement_ref option"
  | Execute execute_id "statement_id option" "'p option" result_formats
  | Batch

record portal =
  po_statement :: bytes
  po_formats :: result_formats

record ('t, 'p) tracked =
  statements :: "(bytes \<times> ('t, 'p) statement) list"
  portals :: "(bytes \<times> portal) list"
  pending :: "'p pending list"
  next_statement_id :: statement_id
  next_execute_id :: execute_id
  copy_mode :: copy_in

definition tracked_new :: "('t, 'p) tracked" where
  "tracked_new = \<lparr>statements = [], portals = [], pending = [], next_statement_id = 0,
     next_execute_id = 0, copy_mode = Idle\<rparr>"

definition check_name :: "rstr \<Rightarrow> bytes \<Rightarrow> proxy_error + unit" where
  "check_name what name =
     (if length name > MAX_NAME_LEN then Err (NameTooLong what (length name) MAX_NAME_LEN) else Ok ())"

definition push :: "'p pending \<Rightarrow> (('t, 'p) tracked, proxy_error, unit) comp" where
  "push p t =
     (if length (pending t) \<ge> MAX_PENDING_RESPONSES
      then (Err (SessionLimit (bs ''outstanding responses'') MAX_PENDING_RESPONSES), t)
      else (Ok (), t\<lparr>pending := pending t @ [p]\<rparr>))"

definition parse :: "bytes \<Rightarrow> 't param_transforms \<Rightarrow> (('t, 'p) tracked, proxy_error, unit) comp" where
  "parse name params =
     comp_bind (comp_of (check_name (bs ''prepared statement'') name)) (\<lambda>_ t.
       if map_of (statements t) name = None \<and> length (statements t) \<ge> MAX_PREPARED_STATEMENTS
       then (Err (SessionLimit (bs ''prepared statements'') MAX_PREPARED_STATEMENTS), t)
       else (Ok (), t\<lparr>next_statement_id := next_statement_id t + 1,
               statements := AList.update name
                 \<lparr>st_id = next_statement_id t, st_params = params, st_described = None\<rparr> (statements t)\<rparr>))"

definition bind_portal :: "bytes \<Rightarrow> bytes \<Rightarrow> result_formats
    \<Rightarrow> (('t, 'p) tracked, proxy_error, 't param_transforms option) comp" where
  "bind_portal po name formats =
     comp_bind (comp_of (check_name (bs ''portal'') po)) (\<lambda>_.
     comp_bind (comp_of (check_name (bs ''prepared statement'') name)) (\<lambda>_ t.
       if map_of (portals t) po = None \<and> length (portals t) \<ge> MAX_PORTALS
       then (Err (SessionLimit (bs ''portals'') MAX_PORTALS), t)
       else (Ok (map_option st_params (map_of (statements t) name)),
             t\<lparr>portals := AList.update po \<lparr>po_statement = name, po_formats = formats\<rparr> (portals t)\<rparr>)))"

definition close_statement :: "bytes \<Rightarrow> ('t, 'p) tracked \<Rightarrow> ('t, 'p) tracked" where
  "close_statement name t =
     t\<lparr>statements := AList.delete name (statements t),
       portals := filter (\<lambda>(_, b). po_statement b \<noteq> name) (portals t)\<rparr>"

definition close_portal :: "bytes \<Rightarrow> ('t, 'p) tracked \<Rightarrow> ('t, 'p) tracked" where
  "close_portal po t = t\<lparr>portals := AList.delete po (portals t)\<rparr>"

definition describe_ref :: "target \<Rightarrow> bytes \<Rightarrow> ('t, 'p) tracked \<Rightarrow> statement_ref option" where
  "describe_ref target name t =
     (case (case target of TStatement \<Rightarrow> Some name | TPortal \<Rightarrow> map_option po_statement (map_of (portals t) name)) of
        None \<Rightarrow> None
      | Some n \<Rightarrow> map_option (\<lambda>s. \<lparr>sr_name = n, sr_id = st_id s\<rparr>) (map_of (statements t) n))"

definition expect_describe :: "target \<Rightarrow> bytes \<Rightarrow> (('t, 'p) tracked, proxy_error, unit) comp" where
  "expect_describe target name =
     comp_bind (comp_of (check_name (bs ''describe target'') name)) (\<lambda>_ t.
       push (Describe (describe_ref target name t)) t)"

definition execute_entry :: "bytes \<Rightarrow> ('t, 'p) tracked \<Rightarrow> 'p pending" where
  "execute_entry po t =
     (let bnd = map_of (portals t) po;
          formats = (case bnd of Some b \<Rightarrow> po_formats b | None \<Rightarrow> None);
          st = (case bnd of Some b \<Rightarrow> map_of (statements t) (po_statement b) | None \<Rightarrow> None) in
      case st of
        Some s \<Rightarrow> Execute (next_execute_id t) (Some (st_id s)) (st_described s) formats
      | None \<Rightarrow> Execute (next_execute_id t) None None formats)"

definition expect_execute :: "bytes \<Rightarrow> (('t, 'p) tracked, proxy_error, unit) comp" where
  "expect_execute po t = push (execute_entry po t) (t\<lparr>next_execute_id := next_execute_id t + 1\<rparr>)"

definition copy_in_started :: "('t, 'p) tracked \<Rightarrow> ('t, 'p) tracked" where
  "copy_in_started t =
     t\<lparr>copy_mode := Started (case pending t of Execute i _ _ _ # _ \<Rightarrow> Some i | _ \<Rightarrow> None)\<rparr>"

text \<open>Drop the run of \<open>Batch\<close> entries behind the \<open>Execute\<close> that started the copy.\<close>

fun is_execute :: "execute_id \<Rightarrow> 'p pending \<Rightarrow> bool" where
  "is_execute i (Execute j _ _ _) = (i = j)"
| "is_execute i _ = False"

fun is_batch :: "'p pending \<Rightarrow> bool" where
  "is_batch Batch = True"
| "is_batch _ = False"

fun drop_batches_behind :: "execute_id \<Rightarrow> 'p pending list \<Rightarrow> 'p pending list" where
  "drop_batches_behind i [] = []"
| "drop_batches_behind i (p # ps) =
     (if is_execute i p then p # dropWhile is_batch ps else p # drop_batches_behind i ps)"

definition copy_data :: "byte \<Rightarrow> ('t, 'p) tracked \<Rightarrow> ('t, 'p) tracked" where
  "copy_data msg_type t =
     (case copy_mode t of
        Idle \<Rightarrow> t
      | Started started_by \<Rightarrow>
          let t = (if msg_type \<noteq> COPY_DATA then t\<lparr>copy_mode := Idle\<rparr> else t) in
          (case started_by of
             None \<Rightarrow> t
           | Some i \<Rightarrow> t\<lparr>pending := drop_batches_behind i (pending t)\<rparr>))"

definition expect_batch :: "(('t, 'p) tracked, proxy_error, unit) comp" where
  "expect_batch t = push Batch t"

fun back_fill :: "statement_id \<Rightarrow> 'p \<Rightarrow> 'p pending \<Rightarrow> 'p pending" where
  "back_fill i p (Execute e (Some q) None f) = (if q = i then Execute e (Some q) (Some p) f else Execute e (Some q) None f)"
| "back_fill i p e = e"

definition describe_answered :: "'p \<Rightarrow> ('t, 'p) tracked \<Rightarrow> ('t, 'p) tracked" where
  "describe_answered p t =
     (case pending t of
        Describe r # ps \<Rightarrow>
          (case r of
             None \<Rightarrow> t\<lparr>pending := ps\<rparr>
           | Some r \<Rightarrow>
               t\<lparr>pending := map (back_fill (sr_id r) p) ps,
                 statements :=
                   (case map_of (statements t) (sr_name r) of
                      Some s \<Rightarrow> if st_id s = sr_id r
                        then AList.update (sr_name r) (s\<lparr>st_described := Some p\<rparr>) (statements t) else statements t
                    | None \<Rightarrow> statements t)\<rparr>)
      | _ \<Rightarrow> t)"

text \<open>\<open>nothing\<close> is the empty description, \<open>Positions::default()\<close>.\<close>

definition no_data :: "'p \<Rightarrow> ('t, 'p) tracked \<Rightarrow> ('t, 'p) tracked" where
  "no_data nothing t = describe_answered nothing t"

definition rederived :: "'p \<Rightarrow> ('t, 'p) tracked \<Rightarrow> ('t, 'p) tracked" where
  "rederived p t =
     (case pending t of
        Execute e s (Some _) f # ps \<Rightarrow> t\<lparr>pending := Execute e s (Some p) f # ps\<rparr>
      | _ \<Rightarrow> t)"

definition portal_row_source :: "('t, 'p) tracked \<Rightarrow> 'p row_source" where
  "portal_row_source t =
     (case pending t of
        Execute e s (Some p) f # _ \<Rightarrow> PortalRows p f
      | Execute e s None f # _ \<Rightarrow> Undescribed
      | _ \<Rightarrow> LastDescription)"

definition execute_answered :: "('t, 'p) tracked \<Rightarrow> ('t, 'p) tracked" where
  "execute_answered t =
     (case pending t of Execute e s p f # ps \<Rightarrow> t\<lparr>pending := ps\<rparr> | _ \<Rightarrow> t)"

fun drop_batch :: "'p pending list \<Rightarrow> 'p pending list" where
  "drop_batch [] = []"
| "drop_batch (p # ps) = (if is_batch p then ps else drop_batch ps)"

definition batch_answered :: "('t, 'p) tracked \<Rightarrow> ('t, 'p) tracked" where
  "batch_answered t = t\<lparr>copy_mode := Idle, pending := drop_batch (pending t)\<rparr>"

end
