(* ===== verification/PortalSystem.thy ===== *)
theory PortalSystem
  imports Portal
begin

text \<open>
  The session state of \<open>portal.rs\<close> between its two relay directions and a server. The client's
  messages reach the tracker and then, in order, the server; the server answers in order; the
  answers reach the tracker in order. The server's side is the extended query protocol: it answers
  one message after the other, and after an error it skips everything up to the next Sync. Copy
  mode is not part of this system.
\<close>

section \<open>The system\<close>

text \<open>What an entry of the queue is about; back-filling a description does not change it.\<close>

datatype entry_kind =
    KDescribe "statement_id option"
  | KExecute execute_id
  | KBatch

fun kind :: "'p pending \<Rightarrow> entry_kind" where
  "kind (Describe r) = KDescribe (map_option sr_id r)"
| "kind (Execute i s p f) = KExecute i"
| "kind Batch = KBatch"

text \<open>Messages on their way to the server: those a response is owed for, and the others.\<close>

datatype item =
    Silent
  | Owes entry_kind

definition owed :: "item list \<Rightarrow> entry_kind list" where
  "owed inbox = concat (map (\<lambda>it. case it of Owes k \<Rightarrow> [k] | Silent \<Rightarrow> []) inbox)"

text \<open>
  Responses on their way back. A simple query is answered by descriptions, rows and completions of
  its own before its ReadyForQuery.
\<close>

datatype 'p response =
    RDescription "statement_id option" 'p
  | RData execute_id
  | RDone execute_id
  | RSimpleDescription 'p
  | RSimpleData
  | RSimpleDone
  | RError
  | RReady

text \<open>What the read path does to the tracker (\<open>RowDecryptor::inspect\<close>).\<close>

fun on_response :: "'p response \<Rightarrow> ('t, 'p) tracked \<Rightarrow> ('t, 'p) tracked" where
  "on_response (RDescription s p) t = describe_answered p t"
| "on_response (RData i) t = t"
| "on_response (RDone i) t = execute_answered t"
| "on_response (RSimpleDescription p) t = describe_answered p t"
| "on_response RSimpleData t = t"
| "on_response RSimpleDone t = execute_answered t"
| "on_response RError t = execute_answered t"
| "on_response RReady t = batch_answered t"

text \<open>
  \<open>ss_parses\<close>, \<open>ss_execs\<close> and \<open>ss_answers\<close> record what happened: the name and parameter actions of
  every Parse by its id, the statement and formats of every Execute by its id, and the
  descriptions received for each statement id.
\<close>

record ('t, 'p) session_sys =
  ss_tracked :: "('t, 'p) tracked"
  ss_inbox :: "item list"
  ss_skip :: bool
  ss_chan :: "'p response list"
  ss_parses :: "statement_id \<rightharpoonup> bytes \<times> 't param_transforms"
  ss_execs :: "execute_id \<rightharpoonup> statement_id option \<times> result_formats"
  ss_answers :: "(statement_id \<times> 'p) set"

definition sys_ini :: "('t, 'p) session_sys \<Rightarrow> bool" where
  "sys_ini s = (s = \<lparr>ss_tracked = tracked_new, ss_inbox = [], ss_skip = False, ss_chan = [],
     ss_parses = Map.empty, ss_execs = Map.empty, ss_answers = {}\<rparr>)"

text \<open>The statement and the formats of a portal at the moment it is executed.\<close>

definition exec_of :: "bytes \<Rightarrow> ('t, 'p) tracked \<Rightarrow> statement_id option \<times> result_formats" where
  "exec_of po t = (case map_of (portals t) po of
     None \<Rightarrow> (None, None)
   | Some b \<Rightarrow> (map_option st_id (map_of (statements t) (po_statement b)), po_formats b))"

definition answer :: "'p response \<Rightarrow> (statement_id \<times> 'p) set" where
  "answer r = (case r of RDescription (Some i) p \<Rightarrow> {(i, p)} | _ \<Rightarrow> {})"

text \<open>\<open>R p q\<close>: the description \<open>q\<close> is \<open>p\<close> re-derived against a newer resolution.\<close>

inductive sys_step :: "('p \<Rightarrow> 'p \<Rightarrow> bool) \<Rightarrow> ('t, 'p) session_sys \<Rightarrow> ('t, 'p) session_sys \<Rightarrow> bool"
  for R :: "'p \<Rightarrow> 'p \<Rightarrow> bool"
  where
    send_parse: "parse name params (ss_tracked s) = (Ok (), t) \<Longrightarrow> next_statement_id (ss_tracked s) \<noteq> - 1 \<Longrightarrow>
      sys_step R s (s\<lparr>ss_tracked := t, ss_inbox := ss_inbox s @ [Silent],
        ss_parses := (ss_parses s)(next_statement_id (ss_tracked s) \<mapsto> (name, params))\<rparr>)"
  | send_bind: "bind_portal po name formats (ss_tracked s) = (Ok ps, t) \<Longrightarrow>
      sys_step R s (s\<lparr>ss_tracked := t, ss_inbox := ss_inbox s @ [Silent]\<rparr>)"
  | send_close_statement:
      "sys_step R s (s\<lparr>ss_tracked := close_statement name (ss_tracked s), ss_inbox := ss_inbox s @ [Silent]\<rparr>)"
  | send_close_portal:
      "sys_step R s (s\<lparr>ss_tracked := close_portal po (ss_tracked s), ss_inbox := ss_inbox s @ [Silent]\<rparr>)"
  | send_describe: "expect_describe target name (ss_tracked s) = (Ok (), t) \<Longrightarrow>
      sys_step R s (s\<lparr>ss_tracked := t,
        ss_inbox := ss_inbox s @ [Owes (KDescribe (map_option sr_id (describe_ref target name (ss_tracked s))))]\<rparr>)"
  | send_execute: "expect_execute po (ss_tracked s) = (Ok (), t) \<Longrightarrow> next_execute_id (ss_tracked s) \<noteq> - 1 \<Longrightarrow>
      sys_step R s (s\<lparr>ss_tracked := t, ss_inbox := ss_inbox s @ [Owes (KExecute (next_execute_id (ss_tracked s)))],
        ss_execs := (ss_execs s)(next_execute_id (ss_tracked s) \<mapsto> exec_of po (ss_tracked s))\<rparr>)"
  | send_batch: "expect_batch (ss_tracked s) = (Ok (), t) \<Longrightarrow>
      sys_step R s (s\<lparr>ss_tracked := t, ss_inbox := ss_inbox s @ [Owes KBatch]\<rparr>)"
  | server_silent: "ss_inbox s = Silent # q \<Longrightarrow> \<not> ss_skip s \<Longrightarrow> sys_step R s (s\<lparr>ss_inbox := q\<rparr>)"
  | server_description: "ss_inbox s = Owes (KDescribe i) # q \<Longrightarrow> \<not> ss_skip s \<Longrightarrow>
      sys_step R s (s\<lparr>ss_inbox := q, ss_chan := ss_chan s @ [RDescription i p]\<rparr>)"
  | server_data: "ss_inbox s = Owes (KExecute i) # q \<Longrightarrow> \<not> ss_skip s \<Longrightarrow>
      sys_step R s (s\<lparr>ss_chan := ss_chan s @ [RData i]\<rparr>)"
  | server_done: "ss_inbox s = Owes (KExecute i) # q \<Longrightarrow> \<not> ss_skip s \<Longrightarrow>
      sys_step R s (s\<lparr>ss_inbox := q, ss_chan := ss_chan s @ [RDone i]\<rparr>)"
  | server_simple: "ss_inbox s = Owes KBatch # q \<Longrightarrow> \<not> ss_skip s \<Longrightarrow>
      r = RSimpleDescription p \<or> r = RSimpleData \<or> r = RSimpleDone \<Longrightarrow>
      sys_step R s (s\<lparr>ss_chan := ss_chan s @ [r]\<rparr>)"
  | server_error: "ss_inbox s = it # q \<Longrightarrow> it \<noteq> Owes KBatch \<Longrightarrow> \<not> ss_skip s \<Longrightarrow>
      sys_step R s (s\<lparr>ss_inbox := q, ss_chan := ss_chan s @ [RError], ss_skip := True\<rparr>)"
  | server_skip: "ss_inbox s = it # q \<Longrightarrow> it \<noteq> Owes KBatch \<Longrightarrow> ss_skip s \<Longrightarrow> sys_step R s (s\<lparr>ss_inbox := q\<rparr>)"
  | server_ready: "ss_inbox s = Owes KBatch # q \<Longrightarrow>
      sys_step R s (s\<lparr>ss_inbox := q, ss_chan := ss_chan s @ [RReady], ss_skip := False\<rparr>)"
  | receive: "ss_chan s = r # c \<Longrightarrow>
      sys_step R s (s\<lparr>ss_tracked := on_response r (ss_tracked s), ss_chan := c, ss_answers := ss_answers s \<union> answer r\<rparr>)"
  | rederive: "ss_chan s = RData i # c \<Longrightarrow> pending (ss_tracked s) = Execute e st (Some p) f # ps \<Longrightarrow> R p p' \<Longrightarrow>
      sys_step R s (s\<lparr>ss_tracked := rederived p' (ss_tracked s)\<rparr>)"


section \<open>The queue against the server\<close>

definition after :: "entry_kind list \<Rightarrow> entry_kind list" where
  "after q = dropWhile (\<lambda>k. k \<noteq> KBatch) q"

text \<open>
  \<open>aligned stale skip chan q rest\<close>: consuming the responses \<open>chan\<close> turns the queue \<open>q\<close> into \<open>rest\<close>,
  what the server still has to answer, every response finding at the front the entry it answers.
  \<open>stale\<close>: an error was consumed and its ReadyForQuery was not, so the queue may hold entries the
  server skipped. \<open>skip\<close>: the server is skipping.
\<close>

fun aligned :: "bool \<Rightarrow> bool \<Rightarrow> 'p response list \<Rightarrow> entry_kind list \<Rightarrow> entry_kind list \<Rightarrow> bool" where
  "aligned stale skip [] q rest \<longleftrightarrow> stale = skip \<and> (if stale then after q = after rest else q = rest)"
| "aligned stale skip (r # c) q rest \<longleftrightarrow>
     (case r of
        RDescription s p \<Rightarrow> \<not> stale \<and> (\<exists>q'. q = KDescribe s # q' \<and> aligned False skip c q' rest)
      | RData i \<Rightarrow> \<not> stale \<and> (\<exists>q'. q = KExecute i # q') \<and> aligned False skip c q rest
      | RDone i \<Rightarrow> \<not> stale \<and> (\<exists>q'. q = KExecute i # q' \<and> aligned False skip c q' rest)
      | RSimpleDescription p \<Rightarrow> \<not> stale \<and> (\<exists>q'. q = KBatch # q') \<and> aligned False skip c q rest
      | RSimpleData \<Rightarrow> \<not> stale \<and> (\<exists>q'. q = KBatch # q') \<and> aligned False skip c q rest
      | RSimpleDone \<Rightarrow> \<not> stale \<and> (\<exists>q'. q = KBatch # q') \<and> aligned False skip c q rest
      | RError \<Rightarrow> \<not> stale \<and> aligned True skip c q rest
      | RReady \<Rightarrow> (\<exists>q'. (if stale then after q else q) = KBatch # q' \<and> aligned False skip c q' rest))"

lemma after_snoc: "after q = after r \<Longrightarrow> after (q @ [k]) = after (r @ [k])"
proof -
  assume eq: "after q = after r"
  have "after (q @ [k]) = (if after q = [] then after [k] else after q @ [k])" for q
    unfolding after_def dropWhile_append dropWhile_eq_Nil_conv by simp
  then show ?thesis using eq by simp
qed

lemma after_snoc_Cons: "after q = KBatch # q' \<Longrightarrow> after (q @ [k]) = KBatch # q' @ [k]"
  by (metis after_def append_Cons dropWhile_append1 dropWhile_eq_Nil_conv list.distinct(1))

lemma after_pop: "after (k # q) = KBatch # q' \<Longrightarrow> k \<noteq> KBatch \<Longrightarrow> after q = KBatch # q'"
  by (simp add: after_def)

lemma after_simps [simp]:
  "after (KBatch # q) = KBatch # q"
  "k \<noteq> KBatch \<Longrightarrow> after (k # q) = after q"
  by (simp_all add: after_def)

text \<open>The client sends one more message.\<close>

lemma aligned_send: "aligned stale skip c q rest \<Longrightarrow> aligned stale skip c (q @ [k]) (rest @ [k])"
proof (induction stale skip c q rest rule: aligned.induct)
  case (1 stale skip q rest)
  then show ?case by (auto intro: after_snoc)
next
  case (2 stale skip r c q rest)
  then show ?case
    by (cases r) (auto dest: after_snoc_Cons split: if_splits)
qed

text \<open>The server answers with one more response, or moves on without one.\<close>

lemma aligned_respond:
  assumes "aligned stale skip c q rest"
    and "\<And>qe. (if skip then after qe = after rest else qe = rest) \<Longrightarrow> aligned skip skip' rs qe rest'"
  shows "aligned stale skip' (c @ rs) q rest'"
  using assms
proof (induction stale skip c q rest rule: aligned.induct)
  case (1 stale skip q rest)
  then show ?case by simp
next
  case (2 stale skip r c q rest)
  then show ?case by (cases r) auto
qed


text \<open>What the operations do to the queue.\<close>

lemma parse_Ok:
  assumes "parse name params t = (Ok (), t')"
  shows "t' = t\<lparr>next_statement_id := next_statement_id t + 1,
           statements := AList.update name \<lparr>st_id = next_statement_id t, st_params = params, st_described = None\<rparr> (statements t)\<rparr>"
    and "length name \<le> MAX_NAME_LEN"
    and "map_of (statements t) name = None \<Longrightarrow> length (statements t) < MAX_PREPARED_STATEMENTS"
  using assms by (auto simp: parse_def comp_bind_def check_name_def split: if_splits)

lemma bind_portal_Ok:
  assumes "bind_portal po name formats t = (Ok ps, t')"
  shows "t' = t\<lparr>portals := AList.update po \<lparr>po_statement = name, po_formats = formats\<rparr> (portals t)\<rparr>"
    and "ps = map_option st_params (map_of (statements t) name)"
    and "length po \<le> MAX_NAME_LEN" and "length name \<le> MAX_NAME_LEN"
    and "map_of (portals t) po = None \<Longrightarrow> length (portals t) < MAX_PORTALS"
  using assms by (auto simp: bind_portal_def comp_bind_def check_name_def split: if_splits)

lemma push_Ok:
  "push e t = (Ok (), t') \<Longrightarrow> t' = t\<lparr>pending := pending t @ [e]\<rparr> \<and> length (pending t) < MAX_PENDING_RESPONSES"
  by (auto simp: push_def split: if_splits)

lemma expect_describe_Ok:
  "expect_describe target name t = (Ok (), t') \<Longrightarrow>
     t' = t\<lparr>pending := pending t @ [Describe (describe_ref target name t)]\<rparr> \<and> length (pending t) < MAX_PENDING_RESPONSES"
  by (auto simp: expect_describe_def comp_bind_def check_name_def dest: push_Ok split: if_splits)

lemma expect_execute_Ok:
  "expect_execute po t = (Ok (), t') \<Longrightarrow>
     t' = t\<lparr>pending := pending t @ [execute_entry po t], next_execute_id := next_execute_id t + 1\<rparr>
     \<and> length (pending t) < MAX_PENDING_RESPONSES"
  by (auto simp: expect_execute_def dest: push_Ok)

lemma expect_batch_Ok:
  "expect_batch t = (Ok (), t') \<Longrightarrow> t' = t\<lparr>pending := pending t @ [Batch]\<rparr> \<and> length (pending t) < MAX_PENDING_RESPONSES"
  by (simp add: expect_batch_def push_Ok)

lemma kind_execute_entry [simp]: "kind (execute_entry po t) = KExecute (next_execute_id t)"
  by (auto simp: execute_entry_def Let_def split: option.splits)

lemma kind_back_fill [simp]: "kind (back_fill i p e) = kind e"
  by (induction i p e rule: back_fill.induct) auto

lemma kinds_eq_Cons:
  "map kind ps = KDescribe s # q \<longleftrightarrow> (\<exists>r ps'. ps = Describe r # ps' \<and> map_option sr_id r = s \<and> map kind ps' = q)"
  "map kind ps = KExecute i # q \<longleftrightarrow> (\<exists>s p f ps'. ps = Execute i s p f # ps' \<and> map kind ps' = q)"
  "map kind ps = KBatch # q \<longleftrightarrow> (\<exists>ps'. ps = Batch # ps' \<and> map kind ps' = q)"
  by (auto simp: map_eq_Cons_conv elim: kind.elims)

lemma kinds_describe_answered:
  "map kind (pending (describe_answered p t)) =
     (case map kind (pending t) of KDescribe _ # q \<Rightarrow> q | q \<Rightarrow> q)"
  by (auto simp: describe_answered_def comp_def split: list.splits pending.splits option.splits)

lemma kinds_execute_answered:
  "map kind (pending (execute_answered t)) = (case map kind (pending t) of KExecute _ # q \<Rightarrow> q | q \<Rightarrow> q)"
  by (auto simp: execute_answered_def split: list.splits pending.splits)

lemma is_batch_kind: "is_batch e \<longleftrightarrow> kind e = KBatch"
  by (cases e) auto

lemma kinds_drop_batch: "map kind (drop_batch ps) = tl (after (map kind ps))"
  by (induction ps) (auto simp: is_batch_kind after_def)

lemma kinds_batch_answered: "map kind (pending (batch_answered t)) = tl (after (map kind (pending t)))"
  by (simp add: batch_answered_def kinds_drop_batch)

lemma kinds_rederived [simp]: "map kind (pending (rederived p t)) = map kind (pending t)"
  by (auto simp: rederived_def split: list.splits pending.splits option.splits)

lemma owed_simps [simp]:
  "owed [] = []" "owed (Silent # q) = owed q" "owed (Owes k # q) = k # owed q"
  "owed (q @ [Silent]) = owed q" "owed (q @ [Owes k]) = owed q @ [k]"
  by (simp_all add: owed_def)

definition sys_aligned :: "('t, 'p) session_sys \<Rightarrow> bool" where
  "sys_aligned s \<longleftrightarrow>
     (\<exists>stale. aligned stale (ss_skip s) (ss_chan s) (map kind (pending (ss_tracked s))) (owed (ss_inbox s)))"

text \<open>One response reaches the tracker.\<close>

lemma aligned_receive:
  assumes "aligned stale skip (r # c) (map kind (pending t)) rest"
  shows "\<exists>stale. aligned stale skip c (map kind (pending (on_response r t))) rest"
proof (cases r)
  case RError
  have "after (case q of KExecute _ # q \<Rightarrow> q | q \<Rightarrow> q) = after q" for q
    by (auto split: list.splits entry_kind.splits)
  moreover have "aligned True skip c q' rest" if "aligned True skip c q rest" "after q' = after q" for q q'
    using that by (cases c) (auto split: response.splits)
  ultimately show ?thesis
    using assms RError kinds_execute_answered [of t] by auto
next
  case RReady
  then show ?thesis using assms by (auto simp: kinds_batch_answered split: if_splits)
qed (use assms in \<open>auto simp: kinds_describe_answered kinds_execute_answered\<close>)

lemma sys_step_aligned:
  assumes "sys_step R s s'" and "sys_aligned s"
  shows "sys_aligned s'"
proof -
  from assms(2) obtain stale where al:
    "aligned stale (ss_skip s) (ss_chan s) (map kind (pending (ss_tracked s))) (owed (ss_inbox s))"
    by (auto simp: sys_aligned_def)
  note send = aligned_send [OF al]
  have respond: "\<And>rs skip' inbox. (\<And>qe. (if ss_skip s then after qe = after (owed (ss_inbox s)) else qe = owed (ss_inbox s))
      \<Longrightarrow> aligned (ss_skip s) skip' rs qe (owed inbox)) \<Longrightarrow>
    aligned stale skip' (ss_chan s @ rs) (map kind (pending (ss_tracked s))) (owed inbox)"
    using aligned_respond [OF al] by blast
  show ?thesis
    using assms(1)
  proof cases
    case (send_parse name params t)
    then show ?thesis using al by (auto simp: sys_aligned_def dest!: parse_Ok(1))
  next
    case (send_bind po name formats ps t)
    then show ?thesis using al by (auto simp: sys_aligned_def dest!: bind_portal_Ok(1))
  next
    case (send_close_statement name)
    then show ?thesis using al by (auto simp: sys_aligned_def close_statement_def)
  next
    case (send_close_portal po)
    then show ?thesis using al by (auto simp: sys_aligned_def close_portal_def)
  next
    case (send_describe target name t)
    then show ?thesis by (auto simp: sys_aligned_def intro!: exI [of _ stale] send dest!: expect_describe_Ok)
  next
    case (send_execute po t)
    then show ?thesis by (auto simp: sys_aligned_def intro!: exI [of _ stale] send dest!: expect_execute_Ok)
  next
    case (send_batch t)
    then show ?thesis by (auto simp: sys_aligned_def intro!: exI [of _ stale] send dest!: expect_batch_Ok)
  next
    case (server_silent q)
    then show ?thesis using al by (auto simp: sys_aligned_def)
  next
    case (server_description i q p)
    then show ?thesis using respond [of False "[RDescription i p]" q] by (auto simp: sys_aligned_def)
  next
    case (server_data i q)
    then show ?thesis using respond [of False "[RData i]" "ss_inbox s"] by (auto simp: sys_aligned_def)
  next
    case (server_done i q)
    then show ?thesis using respond [of False "[RDone i]" q] by (auto simp: sys_aligned_def)
  next
    case (server_simple q r p)
    then show ?thesis using respond [of False "[r]" "ss_inbox s"] by (auto simp: sys_aligned_def)
  next
    case (server_error it q)
    then show ?thesis using respond [of True "[RError]" q] by (cases it) (auto simp: sys_aligned_def)
  next
    case (server_skip it q)
    then show ?thesis using respond [of True "[]" q] by (cases it) (auto simp: sys_aligned_def)
  next
    case (server_ready q)
    have "aligned stale False (ss_chan s @ [RReady]) (map kind (pending (ss_tracked s))) (owed q)"
      by (rule respond) (use server_ready in \<open>auto split: if_splits\<close>)
    then show ?thesis using server_ready by (auto simp: sys_aligned_def)
  next
    case (receive r c)
    then show ?thesis using al aligned_receive by (fastforce simp: sys_aligned_def)
  next
    case (rederive i c e st p f ps p')
    then show ?thesis using al by (auto simp: sys_aligned_def)
  qed
qed



section \<open>Where a description comes from\<close>

text \<open>A statement is the Parse its id names, and holds a description exactly if one was received for it.\<close>

definition stmt_ok :: "(statement_id \<rightharpoonup> bytes \<times> 't param_transforms) \<Rightarrow> (statement_id \<times> 'p) set \<Rightarrow> bytes
    \<Rightarrow> ('t, 'p) statement \<Rightarrow> bool" where
  "stmt_ok parses answers n st \<longleftrightarrow>
     parses (st_id st) = Some (n, st_params st)
     \<and> (case st_described st of Some p \<Rightarrow> (st_id st, p) \<in> answers | None \<Rightarrow> st_id st \<notin> fst ` answers)"

text \<open>
  A queued Execute holds its statement and formats, and a description of that statement (possibly
  re-derived) unless none was received.
\<close>

fun entry_ok :: "('p \<Rightarrow> 'p \<Rightarrow> bool) \<Rightarrow> (statement_id \<rightharpoonup> bytes \<times> 't param_transforms)
    \<Rightarrow> (execute_id \<rightharpoonup> statement_id option \<times> result_formats) \<Rightarrow> (statement_id \<times> 'p) set \<Rightarrow> 'p pending \<Rightarrow> bool" where
  "entry_ok R parses execs answers (Describe (Some r)) = (\<exists>ps. parses (sr_id r) = Some (sr_name r, ps))"
| "entry_ok R parses execs answers (Execute i sid pos f) =
     (execs i = Some (sid, f) \<and> (\<forall>j. sid = Some j \<longrightarrow> parses j \<noteq> None)
      \<and> (case pos of Some p \<Rightarrow> \<exists>j p0. sid = Some j \<and> (j, p0) \<in> answers \<and> R\<^sup>*\<^sup>* p0 p
         | None \<Rightarrow> \<forall>j. sid = Some j \<longrightarrow> j \<notin> fst ` answers))"
| "entry_ok R parses execs answers _ = True"

definition prov :: "('p \<Rightarrow> 'p \<Rightarrow> bool) \<Rightarrow> ('t, 'p) session_sys \<Rightarrow> bool" where
  "prov R s \<longleftrightarrow>
     (\<forall>n st. map_of (statements (ss_tracked s)) n = Some st \<longrightarrow> stmt_ok (ss_parses s) (ss_answers s) n st)
     \<and> (\<forall>e \<in> set (pending (ss_tracked s)). entry_ok R (ss_parses s) (ss_execs s) (ss_answers s) e)
     \<and> (\<forall>i. ss_parses s i \<noteq> None \<longrightarrow> i < next_statement_id (ss_tracked s))
     \<and> (\<forall>i. ss_execs s i \<noteq> None \<longrightarrow> i < next_execute_id (ss_tracked s))
     \<and> (\<forall>i p. (i, p) \<in> ss_answers s \<longrightarrow> ss_parses s i \<noteq> None)"

lemma provD:
  assumes "prov R s"
  shows "map_of (statements (ss_tracked s)) n = Some st \<Longrightarrow> stmt_ok (ss_parses s) (ss_answers s) n st"
    and "e \<in> set (pending (ss_tracked s)) \<Longrightarrow> entry_ok R (ss_parses s) (ss_execs s) (ss_answers s) e"
    and "ss_parses s i = Some x \<Longrightarrow> i < next_statement_id (ss_tracked s)"
    and "ss_execs s j = Some y \<Longrightarrow> j < next_execute_id (ss_tracked s)"
    and "(i, p) \<in> ss_answers s \<Longrightarrow> ss_parses s i \<noteq> None"
  using assms by (auto simp: prov_def)

lemma less_next:
  fixes w :: "'a::len word"
  assumes "w \<noteq> - 1"
  shows "w < w + 1" and "v < w \<Longrightarrow> v < w + 1"
proof -
  have "1 + w \<noteq> 0" using assms by (metis add_eq_0_iff)
  then have "unat (w + 1) = Suc (unat w)" by (metis add.commute unatSuc)
  then show "w < w + 1" and "v < w \<Longrightarrow> v < w + 1" by (auto simp: word_less_nat_alt)
qed

text \<open>New ids are fresh, so what was recorded about the old ones stays.\<close>

lemma prov_parse:
  assumes inv: "prov R s" and "parse name params (ss_tracked s) = (Ok (), t)" and top: "next_statement_id (ss_tracked s) \<noteq> - 1"
  shows "prov R (s\<lparr>ss_tracked := t, ss_inbox := inbox,
    ss_parses := (ss_parses s)(next_statement_id (ss_tracked s) \<mapsto> (name, params))\<rparr>)"
proof -
  let ?i = "next_statement_id (ss_tracked s)" and ?t = "ss_tracked s"
  have t: "t = ?t\<lparr>next_statement_id := ?i + 1,
      statements := AList.update name \<lparr>st_id = ?i, st_params = params, st_described = None\<rparr> (statements ?t)\<rparr>"
    by (rule parse_Ok(1) [OF assms(2)])
  have fresh: "ss_parses s ?i = None" using provD(3) [OF inv, of ?i] by (cases "ss_parses s ?i") auto
  then have noanswer: "?i \<notin> fst ` ss_answers s" using provD(5) [OF inv] by force
  have old: "stmt_ok ((ss_parses s)(?i \<mapsto> (name, params))) (ss_answers s) n st"
    if "stmt_ok (ss_parses s) (ss_answers s) n st" for n st
    using that fresh by (auto simp: stmt_ok_def)
  have entry: "entry_ok R ((ss_parses s)(?i \<mapsto> (name, params))) (ss_execs s) (ss_answers s) e"
    if "entry_ok R (ss_parses s) (ss_execs s) (ss_answers s) e" for e
    using that fresh by (cases "(R, ss_parses s, ss_execs s, ss_answers s, e)" rule: entry_ok.cases) auto
  have new: "stmt_ok ((ss_parses s)(?i \<mapsto> (name, params))) (ss_answers s) name
      \<lparr>st_id = ?i, st_params = params, st_described = None\<rparr>"
    using noanswer by (simp add: stmt_ok_def)
  show ?thesis
    unfolding prov_def t
    using provD [OF inv] old new entry less_next [OF top] by (auto simp: update_conv' split: if_splits)
qed

lemma prov_describe:
  assumes inv: "prov R s" and "expect_describe target name (ss_tracked s) = (Ok (), t)"
  shows "prov R (s\<lparr>ss_tracked := t, ss_inbox := inbox\<rparr>)"
proof -
  let ?t = "ss_tracked s"
  have t: "t = ?t\<lparr>pending := pending ?t @ [Describe (describe_ref target name ?t)]\<rparr>"
    using expect_describe_Ok [OF assms(2)] by simp
  have "entry_ok R (ss_parses s) (ss_execs s) (ss_answers s) (Describe (describe_ref target name ?t))"
  proof (cases "describe_ref target name ?t")
    case (Some r)
    then obtain st where "map_of (statements ?t) (sr_name r) = Some st" "sr_id r = st_id st"
      by (auto simp: describe_ref_def split: option.splits target.splits)
    then show ?thesis using provD(1) [OF inv] Some by (auto simp: stmt_ok_def)
  qed simp
  then show ?thesis
    unfolding prov_def t using provD [OF inv] by auto
qed

lemma prov_execute:
  assumes inv: "prov R s" and "expect_execute po (ss_tracked s) = (Ok (), t)" and top: "next_execute_id (ss_tracked s) \<noteq> - 1"
  shows "prov R (s\<lparr>ss_tracked := t, ss_inbox := inbox,
    ss_execs := (ss_execs s)(next_execute_id (ss_tracked s) \<mapsto> exec_of po (ss_tracked s))\<rparr>)"
proof -
  let ?t = "ss_tracked s" and ?i = "next_execute_id (ss_tracked s)"
  let ?execs = "(ss_execs s)(?i \<mapsto> exec_of po ?t)"
  have t: "t = ?t\<lparr>pending := pending ?t @ [execute_entry po ?t], next_execute_id := ?i + 1\<rparr>"
    using expect_execute_Ok [OF assms(2)] by simp
  have fresh: "ss_execs s ?i = None" using provD(4) [OF inv, of ?i] by (cases "ss_execs s ?i") auto
  have entry: "entry_ok R (ss_parses s) ?execs (ss_answers s) e"
    if "entry_ok R (ss_parses s) (ss_execs s) (ss_answers s) e" for e
    using that fresh by (cases "(R, ss_parses s, ss_execs s, ss_answers s, e)" rule: entry_ok.cases) auto
  have new: "entry_ok R (ss_parses s) ?execs (ss_answers s) (execute_entry po ?t)"
  proof (cases "map_of (portals ?t) po")
    case None
    then show ?thesis by (simp add: execute_entry_def exec_of_def)
  next
    case (Some b)
    then show ?thesis
      using provD(1) [OF inv, of "po_statement b"]
      by (cases "map_of (statements ?t) (po_statement b)")
        (auto simp: execute_entry_def exec_of_def stmt_ok_def split: option.splits)
  qed
  show ?thesis
    unfolding prov_def t using provD [OF inv] entry new less_next [OF top] by (auto split: if_splits)
qed


text \<open>A description arrives for the Describe at the front of the queue.\<close>

lemma entry_ok_back_fill:
  assumes "entry_ok R parses execs answers e"
  shows "entry_ok R parses execs (insert (i, p) answers) (back_fill i p e)"
proof (cases e)
  case (Describe r)
  then show ?thesis using assms by (cases r) auto
next
  case (Execute x sid pos f)
  then show ?thesis using assms by (cases sid; cases pos) auto
qed auto

lemma stmt_ok_other:
  "stmt_ok parses answers n st \<Longrightarrow> st_id st \<noteq> i \<Longrightarrow> stmt_ok parses (insert (i, p) answers) n st"
  by (auto simp: stmt_ok_def split: option.splits)

lemma prov_described:
  assumes inv: "prov R s" and front: "pending (ss_tracked s) = Describe r # ps"
  shows "prov R (s\<lparr>ss_tracked := describe_answered p (ss_tracked s), ss_chan := c,
    ss_answers := ss_answers s \<union> answer (RDescription (map_option sr_id r) p)\<rparr>)"
proof (cases r)
  case None
  then show ?thesis
    unfolding prov_def using provD [OF inv] front by (auto simp: describe_answered_def answer_def)
next
  case (Some ref)
  let ?t = "ss_tracked s" and ?i = "sr_id ref" and ?n = "sr_name ref"
  let ?answers = "insert (?i, p) (ss_answers s)"
  obtain pas where parsed: "ss_parses s ?i = Some (?n, pas)"
    using provD(2) [OF inv, of "Describe r"] front Some by auto
  have only: "n = ?n" if "map_of (statements ?t) n = Some st" "st_id st = ?i" for n st
    using provD(1) [OF inv that(1)] parsed that(2) by (simp add: stmt_ok_def)
  have entries: "entry_ok R (ss_parses s) (ss_execs s) ?answers e" if "e \<in> set (map (back_fill ?i p) ps)" for e
    using that provD(2) [OF inv] front by (auto intro: entry_ok_back_fill)
  define sts where "sts = (case map_of (statements ?t) ?n of
      Some st \<Rightarrow> if st_id st = ?i then AList.update ?n (st\<lparr>st_described := Some p\<rparr>) (statements ?t) else statements ?t
    | None \<Rightarrow> statements ?t)"
  have stmts: "stmt_ok (ss_parses s) ?answers n st" if "map_of sts n = Some st" for n st
  proof (cases "\<exists>old. map_of (statements ?t) ?n = Some old \<and> st_id old = ?i \<and> n = ?n")
    case True
    then obtain old where old: "map_of (statements ?t) ?n = Some old" "st_id old = ?i" "n = ?n" by blast
    then have "st = old\<lparr>st_described := Some p\<rparr>" using that by (simp add: sts_def update_conv')
    then show ?thesis using provD(1) [OF inv old(1)] old by (simp add: stmt_ok_def)
  next
    case False
    then have st: "map_of (statements ?t) n = Some st"
      using that by (auto simp: sts_def update_conv' split: option.splits if_splits)
    then have "st_id st \<noteq> ?i" using only [OF st] False by auto
    then show ?thesis using provD(1) [OF inv st] by (rule stmt_ok_other [rotated])
  qed
  have t: "describe_answered p ?t = ?t\<lparr>pending := map (back_fill ?i p) ps, statements := sts\<rparr>"
    by (simp add: describe_answered_def front Some sts_def)
  have a: "ss_answers s \<union> answer (RDescription (map_option sr_id r) p) = ?answers"
    by (simp add: answer_def Some)
  show ?thesis
    unfolding prov_def t a using entries stmts provD(3-5) [OF inv] parsed by auto
qed

lemma set_drop_batch: "set (drop_batch ps) \<subseteq> set ps"
  by (induction ps) auto

lemma describe_answered_other:
  "(\<And>r ps. pending t \<noteq> Describe r # ps) \<Longrightarrow> describe_answered p t = t"
  by (auto simp: describe_answered_def split: list.splits pending.splits)

lemma prov_receive:
  assumes inv: "prov R s" and al: "sys_aligned s" and chan: "ss_chan s = r # c"
  shows "prov R (s\<lparr>ss_tracked := on_response r (ss_tracked s), ss_chan := c, ss_answers := ss_answers s \<union> answer r\<rparr>)"
proof -
  obtain stale where a: "aligned stale (ss_skip s) (r # c) (map kind (pending (ss_tracked s))) (owed (ss_inbox s))"
    using al chan by (auto simp: sys_aligned_def)
  have same: "prov R (s\<lparr>ss_tracked := t, ss_chan := c\<rparr>)"
    if "statements t = statements (ss_tracked s)" "set (pending t) \<subseteq> set (pending (ss_tracked s))"
      "next_statement_id t = next_statement_id (ss_tracked s)" "next_execute_id t = next_execute_id (ss_tracked s)" for t
    unfolding prov_def using provD [OF inv] that by auto
  have exec: "prov R (s\<lparr>ss_tracked := execute_answered (ss_tracked s), ss_chan := c\<rparr>)"
    by (rule same) (auto simp: execute_answered_def split: list.splits pending.splits)
  have noop: "prov R (s\<lparr>ss_tracked := ss_tracked s, ss_chan := c\<rparr>)" by (rule same) auto
  show ?thesis
  proof (cases r)
    case (RDescription i p)
    then obtain ref ps where "pending (ss_tracked s) = Describe ref # ps" "i = map_option sr_id ref"
      using a by (auto simp: kinds_eq_Cons)
    then show ?thesis using prov_described [OF inv] RDescription by simp
  next
    case (RSimpleDescription p)
    then have "describe_answered p (ss_tracked s) = ss_tracked s"
      using a by (auto simp: kinds_eq_Cons intro: describe_answered_other)
    then show ?thesis using noop RSimpleDescription by (simp add: answer_def)
  next
    case RReady
    have "prov R (s\<lparr>ss_tracked := batch_answered (ss_tracked s), ss_chan := c\<rparr>)"
      by (rule same) (simp_all add: batch_answered_def set_drop_batch)
    then show ?thesis using RReady by (simp add: answer_def)
  qed (use exec noop in \<open>simp_all add: answer_def\<close>)
qed

lemma prov_rederive:
  assumes inv: "prov R s" and front: "pending (ss_tracked s) = Execute e st (Some p) f # ps" and "R p p'"
  shows "prov R (s\<lparr>ss_tracked := rederived p' (ss_tracked s)\<rparr>)"
proof -
  have old: "entry_ok R (ss_parses s) (ss_execs s) (ss_answers s) (Execute e st (Some p) f)"
    using provD(2) [OF inv, of "Execute e st (Some p) f"] front by (simp del: entry_ok.simps)
  then have "entry_ok R (ss_parses s) (ss_execs s) (ss_answers s) (Execute e st (Some p') f)"
    using assms(3) by (auto intro: rtranclp.rtrancl_into_rtrancl)
  then show ?thesis
    unfolding prov_def rederived_def using provD [OF inv] by (auto simp: front)
qed

lemma sys_step_prov:
  assumes "sys_step R s s'" and al: "sys_aligned s" and inv: "prov R s"
  shows "prov R s'"
  using assms(1)
proof cases
  case (send_parse name params t)
  then show ?thesis using prov_parse [OF inv] by simp
next
  case (send_bind po name formats ps t)
  show ?thesis
    unfolding send_bind(1) bind_portal_Ok(1) [OF send_bind(2)] prov_def using provD [OF inv] by auto
next
  case (send_close_statement name)
  show ?thesis
    unfolding send_close_statement(1) prov_def close_statement_def using provD [OF inv] by (auto simp: delete_conv' split: if_splits)
next
  case (send_close_portal po)
  show ?thesis
    unfolding send_close_portal(1) prov_def close_portal_def using provD [OF inv] by auto
next
  case (send_describe target name t)
  then show ?thesis using prov_describe [OF inv] by simp
next
  case (send_execute po t)
  then show ?thesis using prov_execute [OF inv] by simp
next
  case (send_batch t)
  then have t: "t = ss_tracked s\<lparr>pending := pending (ss_tracked s) @ [Batch]\<rparr>" using expect_batch_Ok by blast
  show ?thesis
    unfolding send_batch(1) t prov_def using provD [OF inv] by auto
next
  case (receive r c)
  then show ?thesis using prov_receive [OF inv al] by simp
next
  case (rederive i c e st p f ps p')
  then show ?thesis using prov_rederive [OF inv] by simp
qed (use inv in \<open>simp_all add: prov_def\<close>)



section \<open>Caps\<close>

definition keyed :: "nat \<Rightarrow> bytes list \<Rightarrow> bool" where
  "keyed cap ks \<longleftrightarrow> distinct ks \<and> length ks \<le> cap \<and> (\<forall>k \<in> set ks. length k \<le> MAX_NAME_LEN)"

definition capped :: "('t, 'p) tracked \<Rightarrow> bool" where
  "capped t \<longleftrightarrow> keyed MAX_PREPARED_STATEMENTS (map fst (statements t)) \<and> keyed MAX_PORTALS (map fst (portals t))
     \<and> length (pending t) \<le> MAX_PENDING_RESPONSES"

lemma keyed_update:
  assumes "keyed cap (map fst xs)" and "length k \<le> MAX_NAME_LEN" and "map_of xs k = None \<Longrightarrow> length xs < cap"
  shows "keyed cap (map fst (AList.update k v xs))"
  using assms by (auto simp: keyed_def update_keys map_of_eq_None_iff)

lemma keyed_subset:
  assumes "keyed cap ks" and "distinct ls" and "set ls \<subseteq> set ks"
  shows "keyed cap ls"
proof -
  have "length ls \<le> length ks"
    using assms card_mono [of "set ks" "set ls"] by (simp add: keyed_def distinct_card)
  then show ?thesis using assms by (auto simp: keyed_def)
qed

lemma keyed_update_same: "k \<in> fst ` set xs \<Longrightarrow> map fst (AList.update k v xs) = map fst xs"
  by (simp add: update_keys)

lemma keys_described:
  "map fst (statements (describe_answered p t)) = map fst (statements t)"
  by (auto simp: describe_answered_def keyed_update_same dest!: map_of_SomeD
      split: list.splits pending.splits option.splits intro!: keyed_update_same image_eqI)

lemma portals_described [simp]: "portals (describe_answered p t) = portals t"
  by (auto simp: describe_answered_def split: list.splits pending.splits option.splits)

lemma pending_described: "length (pending (describe_answered p t)) \<le> length (pending t)"
  by (auto simp: describe_answered_def split: list.splits pending.splits option.splits)

lemma length_drop_batch: "length (drop_batch ps) \<le> length ps"
  by (induction ps) auto

lemma capped_on_response: "capped t \<Longrightarrow> capped (on_response r t)"
proof -
  assume t: "capped t"
  have d: "capped (describe_answered p t)" for p
    using t pending_described [of p t] by (simp add: capped_def keys_described)
  have e: "capped (execute_answered t)"
    using t by (auto simp: capped_def execute_answered_def split: list.splits pending.splits)
  have b: "capped (batch_answered t)"
    using t length_drop_batch [of "pending t"] by (simp add: capped_def batch_answered_def)
  show ?thesis using t d e b by (cases r) simp_all
qed

lemma keyed_delete:
  assumes "keyed cap (map fst xs)"
  shows "keyed cap (map fst (AList.delete k xs))"
proof (rule keyed_subset [OF assms])
  show "distinct (map fst (AList.delete k xs))"
    using assms by (simp add: keyed_def AList.distinct_delete)
  show "set (map fst (AList.delete k xs)) \<subseteq> set (map fst xs)"
    by (simp only: delete_keys set_removeAll) blast
qed

lemma sys_step_capped:
  assumes "sys_step R s s'" and cap: "capped (ss_tracked s)"
  shows "capped (ss_tracked s')"
  using assms(1)
proof cases
  case (send_parse name params t)
  show ?thesis
    using cap send_parse parse_Ok [OF send_parse(2)] by (auto simp: capped_def intro: keyed_update)
next
  case (send_bind po name formats ps t)
  show ?thesis
    using cap send_bind bind_portal_Ok [OF send_bind(2)] by (auto simp: capped_def intro: keyed_update)
next
  case (send_close_statement name)
  have "keyed MAX_PORTALS (map fst (filter (\<lambda>(_, b). po_statement b \<noteq> name) (portals (ss_tracked s))))"
    by (rule keyed_subset [of _ "map fst (portals (ss_tracked s))"])
      (use cap in \<open>auto simp: capped_def keyed_def distinct_map_filter\<close>)
  then show ?thesis
    using cap send_close_statement by (auto simp: capped_def close_statement_def intro: keyed_delete)
next
  case (send_close_portal po)
  then show ?thesis using cap by (auto simp: capped_def close_portal_def intro: keyed_delete)
next
  case (send_describe target name t)
  then show ?thesis using cap by (auto simp: capped_def dest!: expect_describe_Ok)
next
  case (send_execute po t)
  then show ?thesis using cap by (auto simp: capped_def dest!: expect_execute_Ok)
next
  case (send_batch t)
  then show ?thesis using cap by (auto simp: capped_def dest!: expect_batch_Ok)
next
  case (receive r c)
  then show ?thesis using capped_on_response [OF cap] by simp
next
  case (rederive i c e st p f ps p')
  then show ?thesis using cap by (simp add: capped_def rederived_def)
qed (use cap in simp_all)

definition sys_inv :: "('p \<Rightarrow> 'p \<Rightarrow> bool) \<Rightarrow> ('t, 'p) session_sys \<Rightarrow> bool" where
  "sys_inv R s \<longleftrightarrow> sys_aligned s \<and> prov R s \<and> capped (ss_tracked s)"

lemma sys_ini_inv: "sys_ini s \<Longrightarrow> sys_inv R s"
  by (auto simp: sys_inv_def sys_ini_def sys_aligned_def prov_def capped_def keyed_def tracked_new_def intro: exI [of _ False])

lemma sys_step_inv: "sys_inv R s \<Longrightarrow> sys_step R s t \<Longrightarrow> sys_inv R t"
  using sys_step_aligned sys_step_prov sys_step_capped unfolding sys_inv_def by blast

interpretation portal_sys: invariant_system sys_ini "sys_step R" "sys_inv R" for R
  by unfold_locales (rule sys_ini_inv, assumption, rule sys_step_inv)


text \<open>
  A short session: a statement is parsed, bound, described and executed; its description has
  arrived and its first row is on the way.
\<close>

lemma sample_run:
  obtains s :: "(unit, nat) session_sys" where "reach sys_ini (sys_step (=)) s" "ss_chan s = [RData 0]"
    "portal_row_source (ss_tracked s) = PortalRows 7 (Some [1])" "ss_answers s = {(0, 7)}"
    "ss_inbox s = [Owes (KExecute 0)]" "\<not> ss_skip s"
proof -
  let ?R = "reach sys_ini (sys_step ((=) :: nat \<Rightarrow> nat \<Rightarrow> bool))"
  let ?st = "\<lambda>d. \<lparr>st_id = 0, st_params = [] :: unit param_transforms, st_described = d\<rparr>"
  let ?po = "\<lparr>po_statement = [115], po_formats = Some [1]\<rparr>"
  let ?t = "\<lambda>d pos ps e. \<lparr>statements = [([115], ?st d)], portals = pos, pending = ps,
      next_statement_id = 1, next_execute_id = e, copy_mode = Idle\<rparr>"
  let ?s = "\<lambda>t q c x a. \<lparr>ss_tracked = t, ss_inbox = q, ss_skip = False, ss_chan = c,
      ss_parses = [0 \<mapsto> ([115], [])], ss_execs = x, ss_answers = a\<rparr>"
  let ?d = "Describe (Some \<lparr>sr_name = [115], sr_id = 0\<rparr>)" and ?x = "[0 \<mapsto> (Some 0, Some [1])]"
  let ?u = "?t None [([], ?po)] [?d, Execute 0 (Some 0) None (Some [1])] 1"
  note ops = parse_def bind_portal_def expect_describe_def expect_execute_def describe_ref_def execute_entry_def
    exec_of_def push_def check_name_def comp_bind_def MAX_NAME_LEN_def MAX_PREPARED_STATEMENTS_def MAX_PORTALS_def
    MAX_PENDING_RESPONSES_def tracked_new_def
  let ?ini = "\<lparr>ss_tracked = tracked_new, ss_inbox = [], ss_skip = False, ss_chan = [],
     ss_parses = Map.empty, ss_execs = Map.empty, ss_answers = {}\<rparr>"
  have "?R ?ini" by (rule reach_ini) (simp add: sys_ini_def)
  then have "?R (?s (?t None [] [] 0) [Silent] [] Map.empty {})"
    by (rule reach_step) (use sys_step.send_parse [of "[115]" "[]" ?ini "?t None [] [] 0"] in \<open>simp add: ops\<close>)
  then have "?R (?s (?t None [([], ?po)] [] 0) [Silent, Silent] [] Map.empty {})"
    by (rule reach_step)
      (use sys_step.send_bind [of "[]" "[115]" "Some [1]" "?s (?t None [] [] 0) [Silent] [] Map.empty {}"
          "Some []" "?t None [([], ?po)] [] 0"] in \<open>simp add: ops\<close>)
  then have "?R (?s (?t None [([], ?po)] [?d] 0) [Silent, Silent, Owes (KDescribe (Some 0))] [] Map.empty {})"
    by (rule reach_step)
      (use sys_step.send_describe [of TStatement "[115]" "?s (?t None [([], ?po)] [] 0) [Silent, Silent] [] Map.empty {}"
          "?t None [([], ?po)] [?d] 0"] in \<open>simp add: ops\<close>)
  then have "?R (?s (?t None [([], ?po)] [?d, Execute 0 (Some 0) None (Some [1])] 1)
      [Silent, Silent, Owes (KDescribe (Some 0)), Owes (KExecute 0)] [] ?x {})"
    by (rule reach_step)
      (use sys_step.send_execute [of "[]" "?s (?t None [([], ?po)] [?d] 0) [Silent, Silent, Owes (KDescribe (Some 0))] [] Map.empty {}"
          "?t None [([], ?po)] [?d, Execute 0 (Some 0) None (Some [1])] 1"] in \<open>simp add: ops\<close>)
  then have "?R (?s ?u [Silent, Owes (KDescribe (Some 0)), Owes (KExecute 0)] [] ?x {})"
    by (rule reach_step)
      (use sys_step.server_silent [where s = "?s ?u [Silent, Silent, Owes (KDescribe (Some 0)), Owes (KExecute 0)] [] ?x {}" and R = "(=)" and q = "[Silent, Owes (KDescribe (Some 0)), Owes (KExecute 0)]"] in simp)
  then have "?R (?s ?u [Owes (KDescribe (Some 0)), Owes (KExecute 0)] [] ?x {})"
    by (rule reach_step)
      (use sys_step.server_silent [where s = "?s ?u [Silent, Owes (KDescribe (Some 0)), Owes (KExecute 0)] [] ?x {}" and R = "(=)" and q = "[Owes (KDescribe (Some 0)), Owes (KExecute 0)]"] in simp)
  then have "?R (?s ?u [Owes (KExecute 0)] [RDescription (Some 0) 7] ?x {})"
    by (rule reach_step)
      (use sys_step.server_description [where s = "?s ?u [Owes (KDescribe (Some 0)), Owes (KExecute 0)] [] ?x {}" and R = "(=)" and q = "[Owes (KExecute 0)]" and i = "Some 0" and p = 7] in simp)
  then have "?R (?s ?u [Owes (KExecute 0)] [RDescription (Some 0) 7, RData 0] ?x {})"
    by (rule reach_step)
      (use sys_step.server_data [where s = "?s ?u [Owes (KExecute 0)] [RDescription (Some 0) 7] ?x {}" and R = "(=)" and q = "[]" and i = 0] in simp)
  then have "?R (?s (?t (Some 7) [([], ?po)] [Execute 0 (Some 0) (Some 7) (Some [1])] 1) [Owes (KExecute 0)] [RData 0] ?x {(0, 7)})"
    by (rule reach_step)
      (use sys_step.receive [where s = "?s ?u [Owes (KExecute 0)] [RDescription (Some 0) 7, RData 0] ?x {}" and R = "(=)" and r = "RDescription (Some 0) 7" and c = "[RData 0]"]
       in \<open>simp add: describe_answered_def answer_def\<close>)
  then show thesis by (rule that) (simp_all add: portal_row_source_def)
qed


section \<open>Properties\<close>





text \<open>
  C19. A session's memory is bounded: at most 1024 prepared statements and 1024 portals under names
  of at most 256 bytes, and at most 4096 outstanding responses, whatever the client sends.
\<close>

theorem session_state_bounded:
  assumes "reach sys_ini (sys_step R) s"
  shows "length (statements (ss_tracked s)) \<le> 1024 \<and> length (portals (ss_tracked s)) \<le> 1024
    \<and> length (pending (ss_tracked s)) \<le> 4096
    \<and> (\<forall>k \<in> fst ` set (statements (ss_tracked s)) \<union> fst ` set (portals (ss_tracked s)). length k \<le> 256)"
  using portal_sys.reach_inv [OF assms]
  by (auto simp: sys_inv_def capped_def keyed_def MAX_PREPARED_STATEMENTS_def MAX_PORTALS_def
      MAX_PENDING_RESPONSES_def MAX_NAME_LEN_def)


theorem session_state_bounded_witness:
  "\<exists>s :: (unit, nat) session_sys. reach sys_ini (sys_step (=)) s \<and> length (pending (ss_tracked s)) \<le> 4096"
proof -
  obtain s :: "(unit, nat) session_sys" where s: "reach sys_ini (sys_step (=)) s"
    by (rule sample_run)
  show ?thesis using s session_state_bounded [OF s] by blast
qed

text \<open>
  Copy frames move the queue only during a copy, and then only past the copy's own batch: a
  stray copy frame changes nothing; during a copy the run of batch markers directly behind the
  Execute that started it is dropped and nothing else, and any copy frame but CopyData ends the
  copy.
\<close>

theorem copy_data_effect:
  "(copy_mode t = Idle \<longrightarrow> copy_data m t = t)
   \<and> (copy_mode t = Started None \<longrightarrow> pending (copy_data m t) = pending t)
   \<and> (copy_mode t = Started (Some i) \<and> pending t = ps @ Execute i s p f # replicate k Batch @ qs
        \<and> \<not> list_ex (is_execute i) ps \<and> (qs = [] \<or> \<not> is_batch (hd qs)) \<longrightarrow>
        copy_data m t = t\<lparr>pending := ps @ Execute i s p f # qs,
           copy_mode := (if m = COPY_DATA then Started (Some i) else Idle)\<rparr>)"
proof -
  have "dropWhile is_batch (replicate k Batch @ qs) = qs" if "qs = [] \<or> \<not> is_batch (hd qs)"
    using that by (induction k) (cases qs; simp)+
  then have "drop_batches_behind i (ps @ Execute i s p f # replicate k Batch @ qs) = ps @ Execute i s p f # qs"
    if "qs = [] \<or> \<not> is_batch (hd qs)" "\<not> list_ex (is_execute i) ps"
    using that by (induction ps) auto
  then show ?thesis by (auto simp: copy_data_def Let_def)
qed

theorem copy_data_effect_witness:
  "copy_data 99 (tracked_new\<lparr>copy_mode := Started (Some 3), pending := [Execute 3 None (None :: nat option) None, Batch, Batch, Execute 4 None None None]\<rparr>)
     = (tracked_new :: (unit, nat) tracked)\<lparr>pending := [Execute 3 None None None, Execute 4 None None None], copy_mode := Idle\<rparr>"
  using copy_data_effect [of "tracked_new\<lparr>copy_mode := Started (Some 3), pending := [Execute 3 None (None :: nat option) None, Batch, Batch, Execute 4 None None None]\<rparr> :: (unit, nat) tracked"
      99 3 "[]" None None None 2 "[Execute 4 None None None]"]
  by (simp add: COPY_DATA_def numeral_2_eq_2)

lemma params_on_response:
  "map_option st_params (map_of (statements (on_response r t)) n) = map_option st_params (map_of (statements t) n)"
  by (cases r) (auto simp: describe_answered_def execute_answered_def batch_answered_def update_conv'
      split: list.splits pending.splits option.splits)

text \<open>
  C23. A Parse counts as successful whatever the server answers: after any sequence of responses
  (an ErrorResponse refusing the Parse included, as for a name that is already in use) a Bind of
  that name is given the parameter actions of the new text. The server still runs the old text
  under that name, so its parameters are then sealed, or relayed in plaintext, by the wrong actions.
\<close>

theorem refused_parse_replaces_actions:
  assumes "parse n actions t = (Ok (), t')" and "bind_portal po n f (fold on_response rs t') = (Ok given, u)"
  shows "given = Some actions"
proof -
  have "map_option st_params (map_of (statements (fold on_response rs t')) n) = map_option st_params (map_of (statements t') n)"
    by (induction rs arbitrary: t') (simp_all add: params_on_response)
  then show ?thesis
    using bind_portal_Ok(2) [OF assms(2)] parse_Ok(1) [OF assms(1)] by (simp add: update_conv')
qed

theorem refused_parse_replaces_actions_witness:
  "\<exists>t t1 t2 given u. parse [115] [(0, SearchIndex (5 :: nat))] (tracked_new :: (nat, nat) tracked) = (Ok (), t)
     \<and> parse [115] [] t = (Ok (), t1) \<and> bind_portal [] [115] None (fold on_response [RError, RReady] t1) = (Ok given, u)
     \<and> given = Some []"
proof -
  have one: "\<exists>t'. parse [115] a t = (Ok (), t')" if "length (statements t) < 1024" for a and t :: "(nat, nat) tracked"
    using that by (simp add: parse_def comp_bind_def check_name_def MAX_NAME_LEN_def MAX_PREPARED_STATEMENTS_def)
  obtain t where t: "parse [115] [(0, SearchIndex (5 :: nat))] (tracked_new :: (nat, nat) tracked) = (Ok (), t)"
    using one by (force simp: tracked_new_def)
  have "length (statements t) = 1" "portals t = []" using parse_Ok(1) [OF t] by (simp_all add: tracked_new_def)
  then obtain t1 where t1: "parse [115] [] t = (Ok (), t1)" "portals t1 = []"
    using one [of t "[]"] parse_Ok(1) by force
  have "\<exists>given u. bind_portal [] [115] None (fold on_response [RError, RReady] t1) = (Ok given, u)"
    using t1(2) by (simp add: bind_portal_def comp_bind_def check_name_def MAX_PORTALS_def MAX_NAME_LEN_def batch_answered_def
        execute_answered_def split: list.splits pending.splits)
  then show ?thesis
    using t t1(1) refused_parse_replaces_actions [OF t1(1)] by blast
qed

end
