(* ===== verification/Refusal.thy ===== *)
theory Refusal
  imports ProxyTypes Ident
begin

text \<open>
  The frames a refusal puts on the wire (\<open>crates/proxy/src/encrypt/unprotected.rs\<close>,
  \<open>error_response\<close> and \<open>frame\<close>) and the header of a rewritten frame
  (\<open>crates/proxy/src/session.rs\<close>, \<open>encode_frame_header\<close>).
\<close>

definition REFUSED_SQLSTATE :: rstr where
  "REFUSED_SQLSTATE = bs ''42501''"

definition MAX_ERROR_MESSAGE :: nat where
  "MAX_ERROR_MESSAGE = 512"

text \<open>\<open>i32::try_from(n).unwrap_or(i32::MAX)\<close>.\<close>

definition frame :: "byte \<Rightarrow> bytes \<Rightarrow> bytes" where
  "frame msg_type body =
     (let n = FRAME_HEADER_LEN - 1 + length body;
          len = (if n < 2 ^ 31 then of_nat n else 2 ^ 31 - 1 :: i32) in
      [msg_type] @ word_be 4 len @ body)"

definition error_body :: "rstr \<Rightarrow> bytes" where
  "error_body truncated =
     concat (map (\<lambda>(field, value). [field] @ value @ [0])
       [(83, bs ''ERROR''), (86, bs ''ERROR''), (67, REFUSED_SQLSTATE), (77, truncated)]) @ [0]"

definition error_response :: "rstr \<Rightarrow> bytes" where
  "error_response message =
     frame 69 (error_body (take (clip_end message (min MAX_ERROR_MESSAGE (length message))) message))"

definition encode_frame_header :: "byte \<Rightarrow> nat \<Rightarrow> proxy_error + bytes" where
  "encode_frame_header msg_type body_len =
     (if body_len + 4 < 2 ^ 64 \<and> body_len + 4 \<le> MAX_MESSAGE_LEN \<and> body_len + 4 < 2 ^ 31
      then Ok ([msg_type] @ word_be 4 (of_nat (body_len + 4) :: i32))
      else Err (FrameTooLarge msg_type body_len MAX_MESSAGE_LEN))"


section \<open>Well-formed frames\<close>

lemma frame_split: "take 5 (frame t b) @ b = frame t b" "length (take 5 (frame t b)) = 5"
  by (simp_all add: frame_def Let_def)

lemma frame_header:
  assumes "length b + 4 \<le> MAX_MESSAGE_LEN"
  shows "frame_body_len (take 5 (frame t b)) = Ok (t, length b)"
proof -
  have small: "length b + 4 < 2 ^ 31" using assms by (simp add: MAX_MESSAGE_LEN_def)
  have "take 5 (frame t b) = t # word_be 4 (of_nat (length b + 4) :: i32)"
    using small by (simp add: frame_def FRAME_HEADER_LEN_def Let_def add.commute)
  moreover have "be_word (word_be 4 (of_nat (length b + 4) :: i32)) = (of_nat (length b + 4) :: i32)"
    by (rule word_be_inverse) simp
  moreover have "sint (of_nat (length b + 4) :: i32) = int (length b + 4)"
    by (rule of_nat_not_minus_one(2) [OF small])
  ultimately show ?thesis
    using assms by (simp add: frame_body_len_def Let_def nat_add_distrib)
qed

lemma length_error_body: "length (error_body m) \<le> length m + 25"
  by (simp add: error_body_def REFUSED_SQLSTATE_def bs_def)

text \<open>
  A refusal is a well-formed frame: the relay's own reader takes its header off and finds an
  ErrorResponse whose body is what follows, at most 537 bytes however long the message is, and
  the message in it is a whole-character prefix of the text.
\<close>

theorem error_response_frame:
  "\<exists>header m. error_response message = header @ error_body m \<and> length header = 5
     \<and> frame_body_len header = Ok (69, length (error_body m)) \<and> length (error_body m) \<le> 537
     \<and> (\<exists>n \<le> 512. m = take n message \<and> is_char_boundary message n)"
proof -
  let ?n = "clip_end message (min MAX_ERROR_MESSAGE (length message))"
  let ?m = "take ?n message"
  have n: "?n \<le> 512" "?n \<le> length message"
    using clip_end_le [of message "min MAX_ERROR_MESSAGE (length message)"] by (simp_all add: MAX_ERROR_MESSAGE_def)
  then have len: "length (error_body ?m) \<le> 537" using length_error_body [of ?m] by simp
  then have "length (error_body ?m) + 4 \<le> MAX_MESSAGE_LEN" by (simp add: MAX_MESSAGE_LEN_def)
  note h = frame_header [OF this, of 69]
  show ?thesis
    by (intro exI [of _ "take 5 (frame 69 (error_body ?m))"] exI [of _ ?m])
      (use h len n clip_end_boundary frame_split in \<open>auto simp: error_response_def\<close>)
qed

text \<open>
  The header of a rewritten frame is the one the reader inverts: for every body it accepts, the
  header read back announces that type and that length, and it accepts exactly the bodies the
  reader would.
\<close>

theorem frame_header_wire:
  "(\<forall>header. encode_frame_header t n = Ok header \<longrightarrow> length header = 5 \<and> frame_body_len header = Ok (t, n))
   \<and> (is_ok (encode_frame_header t n) \<longleftrightarrow> n + 4 \<le> MAX_MESSAGE_LEN)"
proof -
  have "frame_body_len ([t] @ word_be 4 (of_nat (n + 4) :: i32)) = Ok (t, n)" if "n + 4 \<le> MAX_MESSAGE_LEN"
    using frame_header [of "replicate n 0" t] that
    by (simp add: frame_def FRAME_HEADER_LEN_def MAX_MESSAGE_LEN_def Let_def add.commute)
  then show ?thesis
    by (auto simp: encode_frame_header_def MAX_MESSAGE_LEN_def)
qed

theorem frame_header_wire_witness:
  "\<exists>header. encode_frame_header 68 10 = Ok header \<and> frame_body_len header = Ok (68, 10)"
proof -
  obtain header where "encode_frame_header 68 10 = Ok header"
    by (simp add: encode_frame_header_def MAX_MESSAGE_LEN_def)
  then show ?thesis using frame_header_wire [of 68 10] by blast
qed

end
