(* ===== verification/Rows.thy ===== *)
theory Rows
  imports Portal Refusal Policies
begin

text \<open>
  The read path (\<open>crates/proxy/src/rows.rs\<close>): which columns of a result set are protected, and
  opening and masking them row by row.

  \<open>HashMap\<close>s that are only looked up are maps. \<open>str::to_lowercase\<close> follows the Unicode tables and
  is the argument \<open>lower\<close>; the \<open>Display\<close> text of an error is generated by a derive macro and is the
  argument \<open>show_error\<close>. Log output is not part of the model.
\<close>

definition DEFAULT_MAX_PROTECTED_VALUE_LEN :: nat where
  "DEFAULT_MAX_PROTECTED_VALUE_LEN = 16 * 1024 * 1024"

record bounds =
  max_value :: nat
  max_body :: nat

record read_column =
  rcol_name :: rstr
  rcol_transform :: "field_transform option"
  rcol_mask :: "mask_spec option"

type_synonym column_map = "u32 \<times> i16 \<rightharpoonup> read_column"

record resolved_row_key =
  rk_attnum :: i16
  rk_type_oid :: u32
  rk_name :: rstr
  rk_table :: rstr

record resolved =
  rs_columns :: column_map
  rs_names :: "rstr list"
  rs_positions :: "rstr \<rightharpoonup> u32 \<times> i16"
  rs_row_keys :: "u32 \<rightharpoonup> resolved_row_key"
  rs_row_key_by_table :: "rstr \<times> rstr \<rightharpoonup> resolved_row_key"
  rs_generation :: u64

datatype row_key_ref =
    Absent
  | Slot nat u32
  | Ambiguous rstr rstr
  | TypeChanged rstr rstr u32 u32

type_synonym field_id = "u32 \<times> i16 \<times> u32"
type_synonym read_position = "nat \<times> read_column \<times> row_key_ref"

definition find_row_key_ref :: "resolved \<Rightarrow> u32 \<Rightarrow> field_id list \<Rightarrow> row_key_ref" where
  "find_row_key_ref rs toid flds =
     (case rs_row_keys rs toid of
        None \<Rightarrow> Absent
      | Some declared \<Rightarrow>
          (case filter (\<lambda>(_, oid, att, _). oid = toid \<and> att = rk_attnum declared) (enumerate 0 flds) of
             [] \<Rightarrow> Absent
           | [(index, _, _, tyoid)] \<Rightarrow>
               if tyoid \<noteq> rk_type_oid declared
               then TypeChanged (rk_table declared) (rk_name declared) tyoid (rk_type_oid declared)
               else Slot index tyoid
           | _ \<Rightarrow> Ambiguous (rk_table declared) (rk_name declared)))"

definition protected :: "resolved \<Rightarrow> field_id list \<Rightarrow> read_position list" where
  "protected rs flds =
     List.map_filter (\<lambda>(index, toid, att, _).
       map_option (\<lambda>c. (index, c, find_row_key_ref rs toid flds)) (rs_columns rs (toid, att))) (enumerate 0 flds)"

record described =
  d_generation :: u64
  d_fields :: "field_id list"
  d_columns :: "read_position list"

definition described_default :: described where
  "described_default = \<lparr>d_generation = 0, d_fields = [], d_columns = []\<rparr>"

definition described_new :: "resolved \<Rightarrow> field_id list \<Rightarrow> described" where
  "described_new rs flds = \<lparr>d_generation = rs_generation rs, d_fields = flds, d_columns = protected rs flds\<rparr>"

text \<open>The indices are distinct, so the unstable sort has one result.\<close>

definition described_rederived :: "described \<Rightarrow> resolved \<Rightarrow> described" where
  "described_rederived d rs =
     (let new = protected rs (d_fields d);
          kept = filter (\<lambda>(index, _, _). index \<notin> fst ` set new) (d_columns d) in
      \<lparr>d_generation = rs_generation rs, d_fields = d_fields d, d_columns = sort_key fst (new @ kept)\<rparr>)"


section \<open>Shared and per-session state\<close>

text \<open>
  \<open>rc_generation\<close> is the counter sessions read without the lock; \<open>rc_refresh\<close> says that a refresh
  was requested and not yet taken up.
\<close>

record row_context =
  rc_resolved :: resolved
  rc_generation :: u64
  rc_on_unprotected :: on_unprotected
  rc_max_protected_value_len :: nat
  rc_refresh :: bool

definition row_context_new :: "resolved \<Rightarrow> on_unprotected \<Rightarrow> nat \<Rightarrow> row_context" where
  "row_context_new rs mode limit =
     \<lparr>rc_resolved = rs\<lparr>rs_generation := 0\<rparr>, rc_generation = 0, rc_on_unprotected = mode,
      rc_max_protected_value_len = limit, rc_refresh = False\<rparr>"

text \<open>\<open>publish\<close> swaps the resolution under the lock and then stores the counter: two steps for a reader.\<close>

definition next_generation :: "u64 \<Rightarrow> u64" where
  "next_generation g = (if g = - 1 then g else g + 1)"

definition publish_swap :: "resolved \<Rightarrow> row_context \<Rightarrow> row_context" where
  "publish_swap rs ctx = ctx\<lparr>rc_resolved := rs\<lparr>rs_generation := next_generation (rs_generation (rc_resolved ctx))\<rparr>\<rparr>"

definition publish_store :: "row_context \<Rightarrow> row_context" where
  "publish_store ctx = ctx\<lparr>rc_generation := rs_generation (rc_resolved ctx)\<rparr>"

definition publish :: "resolved \<Rightarrow> row_context \<Rightarrow> row_context" where
  "publish rs ctx = publish_store (publish_swap rs ctx)"

record row_decryptor =
  rd_described :: "described option"
  warned_stale :: bool
  warned_computed :: bool
  warned_function_call :: bool

definition decryptor_new :: row_decryptor where
  "decryptor_new = \<lparr>rd_described = None, warned_stale = False, warned_computed = False, warned_function_call = False\<rparr>"

record ('t, 'k) read_state =
  r_ctx :: row_context
  r_portals :: "('t, described) tracked"
  r_dec :: row_decryptor
  r_world :: "'k world"

fun is_refusal :: "proxy_error \<Rightarrow> bool" where
  "is_refusal UndescribedRow = True"
| "is_refusal (StaleColumnMap _ _) = True"
| "is_refusal (ComputedProtectedColumn _) = True"
| "is_refusal FunctionCallResult = True"
| "is_refusal (ProtectedValueTooLarge _ _ _) = True"
| "is_refusal (FrameTooLarge _ _ _) = True"
| "is_refusal (AmbiguousRowKey _ _) = True"
| "is_refusal (AmbiguousRowInstance _ _) = True"
| "is_refusal (Wire RowKeyMissing) = True"
| "is_refusal (Wire (RowKeyType _)) = True"
| "is_refusal (Wire RowBindingDowngraded) = True"
| "is_refusal _ = False"


section \<open>One row\<close>

definition distinct_slots :: "read_position list \<Rightarrow> (nat \<times> u32) list" where
  "distinct_slots positions =
     foldl (\<lambda>slots (_, _, key).
       case key of
         Slot index tyoid \<Rightarrow> if list_all (\<lambda>(seen, _). seen \<noteq> index) slots then slots @ [(index, tyoid)] else slots
       | _ \<Rightarrow> slots) [] positions"

definition read_row_key :: "externs \<Rightarrow> nat \<Rightarrow> u32 \<Rightarrow> result_formats \<Rightarrow> bytes option list \<Rightarrow> proxy_error + row_key" where
  "read_row_key x index tyoid formats values =
     of_core
       (res_bind (if index < length values then Ok (values ! index)
                  else Err (RowKeyType (KeyPosition index (length values)))) (\<lambda>raw.
        res_bind (value_format (for_column formats index)) (\<lambda>fmt. canonical x tyoid fmt raw)))"

text \<open>\<open>RowKeyOnce\<close>: a slot with its key, or why there is none.\<close>

type_synonym row_key_once = "nat \<times> (proxy_error + row_key)"

definition row_key_once_read :: "externs \<Rightarrow> nat \<Rightarrow> u32 \<Rightarrow> result_formats \<Rightarrow> bytes option list \<Rightarrow> row_key_once" where
  "row_key_once_read x index tyoid formats values = (index, read_row_key x index tyoid formats values)"

text \<open>\<open>rsplit_once('.')\<close>: the part before the last dot.\<close>

definition table_of :: "rstr \<Rightarrow> rstr" where
  "table_of qualified =
     (if 46 \<in> set qualified then rev (tl (dropWhile (\<lambda>b. b \<noteq> 46) (rev qualified))) else qualified)"

definition attribute_open_failure :: "core_error \<Rightarrow> read_column \<Rightarrow> nat \<Rightarrow> row_key option \<Rightarrow> bool \<Rightarrow> proxy_error" where
  "attribute_open_failure error c position key repeated =
     (case (error, key) of
        (Decrypt, Some k) \<Rightarrow>
          if repeated then AmbiguousRowInstance (table_of (rcol_name c)) (rcol_name c)
          else RowBindingFailed (rcol_name c) k position
      | _ \<Rightarrow> Wire error)"

definition decode_wire :: "externs \<Rightarrow> field_transform \<Rightarrow> bytes \<Rightarrow> bytes \<times> bool" where
  "decode_wire x t raw =
     (case tr_wire t of
        Bytea \<Rightarrow>
          (case strip_prefix (bs [CHR 0x5C, CHR ''x'']) raw of
             None \<Rightarrow> (raw, False)
           | Some h \<Rightarrow> (case x_hex_decode x h of Some decoded \<Rightarrow> (decoded, True) | None \<Rightarrow> (raw, False)))
      | TextForm \<Rightarrow> (raw, False))"

definition hex_text_form :: "externs \<Rightarrow> bytes \<Rightarrow> bytes" where
  "hex_text_form x value = bs [CHR 0x5C, CHR ''x''] @ x_hex_encode x value"

definition refused_key :: "row_key_ref \<Rightarrow> proxy_error option" where
  "refused_key key =
     (case key of
        Ambiguous table col \<Rightarrow> Some (AmbiguousRowKey table col)
      | TypeChanged table col wire rs \<Rightarrow> Some (Wire (RowKeyType (KeyTypeChanged table col wire rs)))
      | _ \<Rightarrow> None)"

fun first_refused :: "read_position list \<Rightarrow> proxy_error option" where
  "first_refused [] = None"
| "first_refused ((_, _, key) # r) = (case refused_key key of Some e \<Rightarrow> Some e | None \<Rightarrow> first_refused r)"

fun repeated_names :: "read_position list \<Rightarrow> rstr list \<Rightarrow> rstr list \<Rightarrow> rstr list" where
  "repeated_names [] seen twice = twice"
| "repeated_names ((_, c, _) # r) seen twice =
     (if rcol_name c \<in> set seen then repeated_names r seen (rcol_name c # twice)
      else repeated_names r (rcol_name c # seen) twice)"

text \<open>The result of \<open>transform.open\<close> with the key of the slot the position names.\<close>

definition open_at :: "externs \<Rightarrow> 'k key_source \<Rightarrow> row_key_once list \<Rightarrow> bool \<Rightarrow> read_column \<Rightarrow> nat \<Rightarrow> row_key_ref
    \<Rightarrow> field_transform \<Rightarrow> bytes \<Rightarrow> ('k world, proxy_error, bytes option) comp" where
  "open_at x ks rkeys repeated c position key t stored w =
     (let at = (case key of Slot index _ \<Rightarrow> map_of rkeys index | _ \<Rightarrow> None) in
      case at of
        Some (Ok k) \<Rightarrow>
          (case tr_open x ks t stored (Some k) w of
             (Ok v, w') \<Rightarrow> (Ok v, w')
           | (Err e, w') \<Rightarrow> (Err (attribute_open_failure e c position (Some k) repeated), w'))
      | None \<Rightarrow>
          (case tr_open x ks t stored None w of
             (Ok v, w') \<Rightarrow> (Ok v, w')
           | (Err e, w') \<Rightarrow> (Err (attribute_open_failure e c position None repeated), w'))
      | Some (Err why) \<Rightarrow>
          (case tr_open x ks t stored None w of
             (Ok v, w') \<Rightarrow> (Ok v, w')
           | (Err RowKeyMissing, w') \<Rightarrow> (Err why, w')
           | (Err e, w') \<Rightarrow> (Err (attribute_open_failure e c position None repeated), w')))"

text \<open>What replaces one value, if anything: the opened value, masked if the column has a mask.\<close>

definition replacement_of :: "externs \<Rightarrow> 'k key_source \<Rightarrow> row_key_once list \<Rightarrow> rstr list \<Rightarrow> read_position \<Rightarrow> bytes
    \<Rightarrow> ('k world, proxy_error, bytes option) comp" where
  "replacement_of x ks rkeys repeated pos value =
     (case pos of (position, c, key) \<Rightarrow>
        let (stored, hex_text) = (case rcol_transform c of Some t \<Rightarrow> decode_wire x t value | None \<Rightarrow> (value, False)) in
        comp_bind
          (case rcol_transform c of
             Some t \<Rightarrow> open_at x ks rkeys (rcol_name c \<in> set repeated) c position key t stored
           | None \<Rightarrow> comp_ret None) (\<lambda>opened.
        let masked = map_option (\<lambda>m. mask_apply m (case opened of Some o' \<Rightarrow> o' | None \<Rightarrow> stored)) (rcol_mask c);
            replacement = (case masked of Some m \<Rightarrow> Some m | None \<Rightarrow> opened) in
        comp_ret (map_option (\<lambda>r. if hex_text then hex_text_form x r else r) replacement)))"

fun decrypt_values :: "externs \<Rightarrow> 'k key_source \<Rightarrow> bounds \<Rightarrow> row_key_once list \<Rightarrow> rstr list \<Rightarrow> read_position list
    \<Rightarrow> bytes option list \<times> nat \<times> bool \<Rightarrow> ('k world, proxy_error, bytes option list \<times> nat \<times> bool) comp" where
  "decrypt_values x ks bnd rkeys repeated [] st = comp_ret st"
| "decrypt_values x ks bnd rkeys repeated (pos # rest) (values, projected, changed) =
     (case (if fst pos < length values then values ! fst pos else None) of
        None \<Rightarrow> decrypt_values x ks bnd rkeys repeated rest (values, projected, changed)
      | Some value \<Rightarrow>
          if length value > max_value bnd
          then comp_of (Err (ProtectedValueTooLarge (fst pos) (length value) (max_value bnd)))
          else comp_bind (replacement_of x ks rkeys repeated pos value) (\<lambda>r.
            case r of
              None \<Rightarrow> decrypt_values x ks bnd rkeys repeated rest (values, projected, changed)
            | Some replacement \<Rightarrow>
                let projected' = projected - length value + length replacement in
                if projected' > max_body bnd then comp_of (Err (FrameTooLarge 68 projected' (max_body bnd)))
                else decrypt_values x ks bnd rkeys repeated rest
                       (values[fst pos := Some replacement], projected', True)))"

definition decrypt_row :: "externs \<Rightarrow> 'k key_source \<Rightarrow> read_position list \<Rightarrow> result_formats \<Rightarrow> bytes \<Rightarrow> bounds
    \<Rightarrow> ('k world, proxy_error, bytes option) comp" where
  "decrypt_row x ks positions formats body bnd =
     (case first_refused positions of
        Some e \<Rightarrow> comp_of (Err e)
      | None \<Rightarrow>
          comp_bind (comp_of (of_wire (parse_data_row body))) (\<lambda>values.
            let rkeys = map (\<lambda>(index, tyoid). row_key_once_read x index tyoid formats values) (distinct_slots positions) in
            comp_bind (decrypt_values x ks bnd rkeys (repeated_names positions [] []) positions (values, length body, False))
              (\<lambda>(values, _, changed).
                if \<not> changed then comp_ret None
                else comp_bind (comp_of (of_wire (encode_data_row values))) (\<lambda>out. comp_ret (Some out)))))"



section \<open>Frames\<close>

type_synonym ('t, 'k, 'a) read_comp = "(('t, 'k) read_state, proxy_error, 'a) comp"

definition function_call_result :: "('t, 'k, bytes option) read_comp" where
  "function_call_result s =
     (if rc_on_unprotected (r_ctx s) = Reject then (Err FunctionCallResult, s)
      else (Ok None, s\<lparr>r_dec := (r_dec s)\<lparr>warned_function_call := True\<rparr>\<rparr>))"

definition named_like_protected :: "(rstr \<Rightarrow> rstr) \<Rightarrow> resolved \<Rightarrow> row_field \<Rightarrow> bool" where
  "named_like_protected lower rs f \<longleftrightarrow> utf8_decode (rf_name f) \<noteq> None \<and> lower (rf_name f) \<in> set (rs_names rs)"

definition find_suspect :: "(rstr \<Rightarrow> rstr) \<Rightarrow> resolved \<Rightarrow> described \<Rightarrow> row_field list \<Rightarrow> bool \<Rightarrow> (nat \<times> row_field) option" where
  "find_suspect lower rs positions flds computed =
     find (\<lambda>(index, f). (table_oid f = 0) = computed \<and> index \<notin> fst ` set (d_columns positions)
             \<and> named_like_protected lower rs f) (enumerate 0 flds)"

definition check_for_stale_mapping :: "(rstr \<Rightarrow> rstr) \<Rightarrow> row_field list \<Rightarrow> resolved \<Rightarrow> described \<Rightarrow> ('t, 'k, unit) read_comp" where
  "check_for_stale_mapping lower flds rs positions =
     comp_bind (\<lambda>s.
       case find_suspect lower rs positions flds True of
         None \<Rightarrow> (Ok (), s)
       | Some (_, f) \<Rightarrow>
           if rc_on_unprotected (r_ctx s) = Reject then (Err (ComputedProtectedColumn (rf_name f)), s)
           else (Ok (), s\<lparr>r_dec := (r_dec s)\<lparr>warned_computed := True\<rparr>\<rparr>)) (\<lambda>_ s.
       case find_suspect lower rs positions flds False of
         None \<Rightarrow> (Ok (), s)
       | Some (_, f) \<Rightarrow>
           let s = s\<lparr>r_ctx := (r_ctx s)\<lparr>rc_refresh := True\<rparr>\<rparr> in
           if rc_on_unprotected (r_ctx s) = Reject then (Err (StaleColumnMap (rf_name f) (table_oid f)), s)
           else (Ok (), s\<lparr>r_dec := (r_dec s)\<lparr>warned_stale := True\<rparr>\<rparr>))"

definition current :: "described \<Rightarrow> ('t, 'k) read_state \<Rightarrow> described \<times> ('t, 'k) read_state" where
  "current positions s =
     (if d_generation positions = rc_generation (r_ctx s) then (positions, s)
      else let refreshed = described_rederived positions (rc_resolved (r_ctx s)) in
           (refreshed, s\<lparr>r_portals := rederived refreshed (r_portals s)\<rparr>))"

definition on_portals :: "(('t, described) tracked \<Rightarrow> ('t, described) tracked) \<Rightarrow> ('t, 'k) read_state \<Rightarrow> ('t, 'k) read_state" where
  "on_portals f s = s\<lparr>r_portals := f (r_portals s)\<rparr>"

definition set_described :: "described option \<Rightarrow> ('t, 'k) read_state \<Rightarrow> ('t, 'k) read_state" where
  "set_described d s = s\<lparr>r_dec := (r_dec s)\<lparr>rd_described := d\<rparr>\<rparr>"

definition inspect_description :: "(rstr \<Rightarrow> rstr) \<Rightarrow> bytes \<Rightarrow> ('t, 'k, bytes option) read_comp" where
  "inspect_description lower body =
     comp_bind (comp_of (of_wire (parse_row_description body))) (\<lambda>flds s.
       let rs = rc_resolved (r_ctx s);
           positions = described_new rs (map (\<lambda>f. (table_oid f, attnum f, type_oid f)) flds) in
       comp_bind (check_for_stale_mapping lower flds rs positions) (\<lambda>_ s.
         (Ok None, set_described (Some positions) (on_portals (describe_answered positions) s))) s)"

definition row_positions :: "('t, 'k, described \<times> result_formats) read_comp" where
  "row_positions s =
     (case portal_row_source (r_portals s) of
        PortalRows positions formats \<Rightarrow> (case current positions s of (d, s') \<Rightarrow> (Ok (d, formats), s'))
      | LastDescription \<Rightarrow>
          (case rd_described (r_dec s) of
             Some positions \<Rightarrow> (Ok (positions, None), s)
           | None \<Rightarrow> (Err UndescribedRow, s))
      | Undescribed \<Rightarrow> (Err UndescribedRow, s))"

definition inspect_data :: "externs \<Rightarrow> 'k key_source \<Rightarrow> bytes \<Rightarrow> ('t, 'k, bytes option) read_comp" where
  "inspect_data x ks body =
     comp_bind row_positions (\<lambda>(positions, formats) s.
       if d_columns positions = [] then (Ok None, s)
       else (case decrypt_row x ks (d_columns positions) formats body
                    \<lparr>max_value = rc_max_protected_value_len (r_ctx s), max_body = MAX_MESSAGE_LEN - 4\<rparr> (r_world s) of
               (r, w) \<Rightarrow> (r, s\<lparr>r_world := w\<rparr>)))"

definition inspect :: "externs \<Rightarrow> 'k key_source \<Rightarrow> (rstr \<Rightarrow> rstr) \<Rightarrow> byte \<Rightarrow> bytes \<Rightarrow> ('t, 'k, bytes option) read_comp" where
  "inspect x ks lower msg_type body s =
     (if msg_type = 84 then inspect_description lower body s
      else if msg_type = 110 then (Ok None, set_described None (on_portals (no_data described_default) s))
      else if msg_type = 68 then inspect_data x ks body s
      else if msg_type \<in> set [67, 73, 115, 69] then (Ok None, set_described None (on_portals execute_answered s))
      else if msg_type = 90 then (Ok None, set_described None (on_portals batch_answered s))
      else if msg_type = 86 then function_call_result s
      else (Ok None, s))"

definition refuse :: "(proxy_error \<Rightarrow> rstr) \<Rightarrow> proxy_error \<Rightarrow> frame_action" where
  "refuse show_error e = RefuseAndClose (error_response (bs ''dbsec refused to relay this result: '' @ show_error e))"

definition on_frame :: "externs \<Rightarrow> 'k key_source \<Rightarrow> (rstr \<Rightarrow> rstr) \<Rightarrow> (proxy_error \<Rightarrow> rstr) \<Rightarrow> byte \<Rightarrow> bytes
    \<Rightarrow> ('t, 'k, frame_action) read_comp" where
  "on_frame x ks lower show_error msg_type body s =
     (case inspect x ks lower msg_type body s of
        (Ok None, s') \<Rightarrow> (Ok Relay, s')
      | (Ok (Some b), s') \<Rightarrow> (Ok (Replace b), s')
      | (Err e, s') \<Rightarrow> if is_refusal e then (Ok (refuse show_error e), s') else (Err e, s'))"

end
