(* ===== verification/RowsProps.thy ===== *)
theory RowsProps
  imports Rows Protect
begin

text \<open>
  Properties of the read path: what a rewritten row contains, that stored forms are not relayed,
  that sealed values come back, the size bounds, and what a re-derived description covers.
\<close>

section \<open>Sizes\<close>

text \<open>The encoded length of a row.\<close>

definition wire_len :: "bytes option list \<Rightarrow> nat" where
  "wire_len vs = 2 + sum_list (map (\<lambda>v. 4 + (case v of Some b \<Rightarrow> length b | None \<Rightarrow> 0)) vs)"

lemma length_push_nullable: "push_nullable v = Ok p \<Longrightarrow> length p = 4 + (case v of Some b \<Rightarrow> length b | None \<Rightarrow> 0)"
  by (cases v) (auto split: if_splits)

lemma length_push_all: "push_all push_nullable vs = Ok p \<Longrightarrow> 2 + length p = wire_len vs"
  by (induction vs arbitrary: p) (auto simp: wire_len_def res_simps dest: length_push_nullable)

lemma parse_data_row_Ok:
  "parse_data_row b = Ok vs \<Longrightarrow> length b = wire_len vs \<and> length vs < 2 ^ 15"
proof -
  assume "parse_data_row b = Ok vs"
  then obtain c p where c: "b = word_be 2 c @ p" "length vs = count_turns c" "push_all push_nullable vs = Ok p"
    by (auto simp: parse_data_row_def res_bind_eq_Ok take_i16_eq_Ok take_n_nullable_eq_Ok split: if_splits)
  moreover have "count_turns c < 2 ^ 15" using counts_for_turns [of c] by (auto simp: counts_for_def)
  ultimately show ?thesis using length_push_all by simp
qed

lemma push_all_nullable_Ok:
  "(\<And>b. Some b \<in> set vs \<Longrightarrow> length b < 2 ^ 31) \<Longrightarrow> \<exists>p. push_all push_nullable vs = Ok p"
proof (induction vs)
  case Nil
  then show ?case by simp
next
  case (Cons v vs)
  then obtain p where "push_all push_nullable vs = Ok p" by auto
  moreover have "\<exists>q. push_nullable v = Ok q" using Cons.prems by (cases v) auto
  ultimately show ?case by (auto simp: res_simps)
qed

lemma value_le_wire_len: "Some b \<in> set vs \<Longrightarrow> length b \<le> wire_len vs"
  by (induction vs) (auto simp: wire_len_def)

lemma encode_data_row_Ok:
  assumes "length vs < 2 ^ 15" and "wire_len vs < 2 ^ 31"
  shows "\<exists>b. encode_data_row vs = Ok b \<and> length b = wire_len vs \<and> parse_data_row b = Ok vs"
proof -
  have "\<exists>p. push_all push_nullable vs = Ok p"
    by (rule push_all_nullable_Ok) (use value_le_wire_len assms(2) in \<open>fastforce dest: le_less_trans\<close>)
  then obtain p where p: "push_all push_nullable vs = Ok p" by blast
  then have enc: "encode_data_row vs = Ok (word_be 2 (of_nat (length vs) :: i16) @ p)"
    using assms(1) by (simp add: encode_data_row_def wire_count_def)
  then show ?thesis using enc length_push_all [OF p] parse_encode_data_row [OF enc] by simp
qed

lemma wire_len_update:
  assumes "i < length vs" and "vs ! i = Some v"
  shows "wire_len (vs[i := Some r]) = wire_len vs - length v + length r" and "length v \<le> wire_len vs"
proof -
  let ?f = "\<lambda>v. 4 + (case v of Some b \<Rightarrow> length b | None \<Rightarrow> 0)"
  have vs: "vs = take i vs @ Some v # drop (Suc i) vs"
    using assms id_take_nth_drop [of i vs] by simp
  have "wire_len vs = 2 + sum_list (map ?f (take i vs)) + (4 + length v) + sum_list (map ?f (drop (Suc i) vs))"
    by (subst vs) (simp add: wire_len_def)
  moreover have "wire_len (vs[i := Some r]) = 2 + sum_list (map ?f (take i vs)) + (4 + length r) + sum_list (map ?f (drop (Suc i) vs))"
    using assms(1) by (simp add: wire_len_def upd_conv_take_nth_drop)
  ultimately show "wire_len (vs[i := Some r]) = wire_len vs - length v + length r" and "length v \<le> wire_len vs"
    by simp_all
qed


section \<open>The loop over the positions\<close>

text \<open>The value of one position before and after the loop: untouched, or replaced by what its column says.\<close>

definition position_done :: "externs \<Rightarrow> 'k key_source \<Rightarrow> bounds \<Rightarrow> row_key_once list \<Rightarrow> rstr list \<Rightarrow> ('k world \<Rightarrow> bool)
    \<Rightarrow> bytes option list \<Rightarrow> bytes option list \<Rightarrow> read_position \<Rightarrow> bool" where
  "position_done x ks bnd rkeys repeated good vs vs' pos \<longleftrightarrow>
     (\<forall>v. fst pos < length vs \<and> vs ! fst pos = Some v \<longrightarrow>
        length v \<le> max_value bnd \<and>
        (\<exists>w r w'. good w \<and> replacement_of x ks rkeys repeated pos v w = (Ok r, w')
           \<and> vs' ! fst pos = (case r of None \<Rightarrow> Some v | Some q \<Rightarrow> Some q)))"

lemma decrypt_values_done:
  assumes "decrypt_values x ks bnd rkeys repeated ps (vs, pr, ch) w = (Ok (vs', pr', ch'), w')"
    and "good w" and "distinct (map fst ps)"
    and "\<forall>pos \<in> set ps. \<forall>v w r w'. good w \<and> replacement_of x ks rkeys repeated pos v w = (r, w') \<longrightarrow> good w'"
  shows "length vs' = length vs \<and> (\<forall>i. i \<notin> fst ` set ps \<or> i < length vs \<and> vs ! i = None \<longrightarrow> vs' ! i = vs ! i)
    \<and> (\<forall>pos \<in> set ps. position_done x ks bnd rkeys repeated good vs vs' pos)
    \<and> (pr = wire_len vs \<longrightarrow> pr' = wire_len vs')
    \<and> (\<not> ch' \<longrightarrow> vs' = vs \<and> \<not> ch) \<and> (ch' \<longrightarrow> ch \<and> vs' = vs \<and> pr' = pr \<or> pr' \<le> max_body bnd) \<and> good w'"
  using assms
proof (induction ps arbitrary: vs pr ch w)
  case Nil
  then show ?case by simp
next
  case (Cons pos ps)
  let ?v = "if fst pos < length vs then vs ! fst pos else None"
  have notin: "fst pos \<notin> fst ` set ps" and dist: "distinct (map fst ps)" using Cons.prems(3) by auto
  have keep: "\<forall>pos \<in> set ps. \<forall>v w r w'. good w \<and> replacement_of x ks rkeys repeated pos v w = (r, w') \<longrightarrow> good w'"
    by (intro ballI, rule bspec [OF Cons.prems(4)]) simp
  show ?case
  proof (cases ?v)
    case None
    then have "decrypt_values x ks bnd rkeys repeated ps (vs, pr, ch) w = (Ok (vs', pr', ch'), w')"
      using Cons.prems(1) by simp
    note ih = Cons.IH [OF this Cons.prems(2) dist keep]
    have "position_done x ks bnd rkeys repeated good vs vs' pos" using None by (auto simp: position_done_def)
    then show ?thesis using ih by simp
  next
    case (Some v)
    then have v: "fst pos < length vs" "vs ! fst pos = Some v" by (auto split: if_splits)
    have step: "length v \<le> max_value bnd"
      "comp_bind (replacement_of x ks rkeys repeated pos v) (\<lambda>r.
            case r of
              None \<Rightarrow> decrypt_values x ks bnd rkeys repeated ps (vs, pr, ch)
            | Some replacement \<Rightarrow>
                let projected' = pr - length v + length replacement in
                if projected' > max_body bnd then comp_of (Err (FrameTooLarge 68 projected' (max_body bnd)))
                else decrypt_values x ks bnd rkeys repeated ps
                       (vs[fst pos := Some replacement], projected', True)) w = (Ok (vs', pr', ch'), w')"
      using Cons.prems(1) Some by (auto split: if_splits)
    then obtain r u where r: "replacement_of x ks rkeys repeated pos v w = (Ok r, u)"
      by (auto simp: comp_bind_eq_Ok)
    have u: "good u" using bspec [OF Cons.prems(4), of pos] Cons.prems(2) r by (metis list.set_intros(1))
    show ?thesis
    proof (cases r)
      case None
      then have "decrypt_values x ks bnd rkeys repeated ps (vs, pr, ch) u = (Ok (vs', pr', ch'), w')"
        using step(2) r by simp
      note ih = Cons.IH [OF this u dist keep]
      have "vs' ! fst pos = Some v" using ih notin v by simp
      then have "position_done x ks bnd rkeys repeated good vs vs' pos"
        using v step(1) r None Cons.prems(2) by (auto simp: position_done_def)
      then show ?thesis using ih by simp
    next
      case (Some q)
      let ?vs = "vs[fst pos := Some q]" and ?pr = "pr - length v + length q"
      have le: "?pr \<le> max_body bnd"
        and rec: "decrypt_values x ks bnd rkeys repeated ps (?vs, ?pr, True) u = (Ok (vs', pr', ch'), w')"
        using step(2) r Some by (auto simp: Let_def split: if_splits)
      note ih = Cons.IH [OF rec u dist keep]
      have at: "vs' ! fst pos = Some q" using ih notin v by simp
      then have this_done: "position_done x ks bnd rkeys repeated good vs vs' pos"
        using v step(1) r Some Cons.prems(2) by (auto simp: position_done_def)
      have others: "position_done x ks bnd rkeys repeated good vs vs' p'"
        if "p' \<in> set ps" "position_done x ks bnd rkeys repeated good ?vs vs' p'" for p'
      proof -
        have "fst p' \<noteq> fst pos" using that(1) notin by (metis imageI)
        then show ?thesis using that(2) by (simp add: position_done_def)
      qed
      have len: "pr = wire_len vs \<longrightarrow> ?pr = wire_len ?vs" using wire_len_update(1) [OF v, of q] by simp
      have same: "vs' ! i = vs ! i" if "i \<notin> fst ` set (pos # ps) \<or> i < length vs \<and> vs ! i = None" for i
      proof -
        have "i \<noteq> fst pos" using that v by auto
        then have "vs' ! i = ?vs ! i" using ih that by (simp add: nth_list_update)
        then show ?thesis using \<open>i \<noteq> fst pos\<close> by simp
      qed
      show ?thesis
        using ih this_done others len le same by auto
    qed
  qed
qed


section \<open>What one position does\<close>

definition columns_wf :: "(nat \<Rightarrow> rstr) \<Rightarrow> read_position list \<Rightarrow> bool" where
  "columns_wf nm ps \<longleftrightarrow> (\<forall>pos \<in> set ps. \<forall>t. rcol_transform (fst (snd pos)) = Some t \<longrightarrow> tr_wf nm t)"

lemma open_at_open:
  assumes "open_at x ks rkeys repeated c position key t stored w = (r, w')"
  shows "\<exists>q k. tr_open x ks t stored k w = (q, w') \<and> (\<forall>v. r = Ok v \<longleftrightarrow> q = Ok v)"
proof -
  consider (none) "(case key of Slot index _ \<Rightarrow> map_of rkeys index | _ \<Rightarrow> None) = None"
    | (key) k where "(case key of Slot index _ \<Rightarrow> map_of rkeys index | _ \<Rightarrow> None) = Some (Ok k)"
    | (why) e where "(case key of Slot index _ \<Rightarrow> map_of rkeys index | _ \<Rightarrow> None) = Some (Err e)"
    by (metis not_Some_eq sum.exhaust)
  then show ?thesis
  proof cases
    case none
    obtain q u where q: "tr_open x ks t stored None w = (q, u)" by force
    then show ?thesis using assms none by (cases q) (auto simp: open_at_def)
  next
    case (key k)
    obtain q u where q: "tr_open x ks t stored (Some k) w = (q, u)" by force
    then show ?thesis using assms key by (cases q) (auto simp: open_at_def)
  next
    case (why e)
    obtain q u where q: "tr_open x ks t stored None w = (q, u)" by force
    then have "u = w' \<and> (\<forall>v. r = Ok v \<longleftrightarrow> q = Ok v)"
      using assms why by (cases q) (auto simp: open_at_def split: core_error.splits)
    then show ?thesis using q by blast
  qed
qed

lemma replacement_of_open:
  assumes "replacement_of x ks rkeys repeated (i, c, key) v w = (r, w')"
  shows "case rcol_transform c of
      None \<Rightarrow> w' = w \<and> r = Ok (map_option (\<lambda>m. mask_apply m v) (rcol_mask c))
    | Some t \<Rightarrow> \<exists>q k. tr_open x ks t (fst (decode_wire x t v)) k w = (q, w') \<and>
        (\<forall>p. r = Ok p \<longleftrightarrow> (\<exists>opened. q = Ok opened \<and>
          p = map_option (\<lambda>b. if snd (decode_wire x t v) then hex_text_form x b else b)
            (case rcol_mask c of Some m \<Rightarrow> Some (mask_apply m (case opened of Some o' \<Rightarrow> o' | None \<Rightarrow> fst (decode_wire x t v)))
             | None \<Rightarrow> opened)))"
proof (cases "rcol_transform c")
  case None
  then show ?thesis using assms by (cases "rcol_mask c") (auto simp: replacement_of_def)
next
  case (Some t)
  obtain stored hex where d: "decode_wire x t v = (stored, hex)" by force
  obtain q' u where o: "open_at x ks rkeys (rcol_name c \<in> set repeated) c i key t stored w = (q', u)" by force
  obtain q k where q: "tr_open x ks t stored k w = (q, u)" "\<forall>v. q' = Ok v \<longleftrightarrow> q = Ok v"
    using open_at_open [OF o] by blast
  have res: "w' = u \<and> (\<forall>p. r = Ok p \<longleftrightarrow> (\<exists>opened. q' = Ok opened \<and>
          p = map_option (\<lambda>b. if hex then hex_text_form x b else b)
            (case rcol_mask c of Some m \<Rightarrow> Some (mask_apply m (case opened of Some o' \<Rightarrow> o' | None \<Rightarrow> stored))
             | None \<Rightarrow> opened)))"
    using assms Some d o
    by (cases q'; cases "rcol_mask c") (auto simp: replacement_of_def comp_bind_def)
  show ?thesis
    unfolding Some option.case d fst_conv snd_conv
    by (intro exI [of _ q] exI [of _ k]) (use q res in simp)
qed



context key_source_laws
begin

lemma replacement_of_world:
  assumes "world_inv ok dek ikey nm w" and "columns_wf nm ps" and "pos \<in> set ps"
    and "replacement_of x ks rkeys repeated pos v w = (r, w')"
  shows "world_inv ok dek ikey nm w'"
proof -
  obtain i c key where pos: "pos = (i, c, key)" by (cases pos)
  note op = replacement_of_open [OF assms(4) [unfolded pos]]
  show ?thesis
  proof (cases "rcol_transform c")
    case None
    then show ?thesis using op assms(1) by simp
  next
    case (Some t)
    then have "tr_wf nm t" using assms(2,3) pos by (auto simp: columns_wf_def)
    then show ?thesis using op Some tr_open_inv [OF assms(1)] by auto
  qed
qed

lemma decrypt_row_rewritten:
  assumes "world_inv ok dek ikey nm w" and wf: "columns_wf nm ps" and "distinct (map fst ps)"
    and vs: "parse_data_row body = Ok vs" and "decrypt_row x ks ps formats body bnd w = (Ok out, w')"
  obtains vs' rkeys where "case out of None \<Rightarrow> vs' = vs | Some b \<Rightarrow> parse_data_row b = Ok vs' \<and> length b \<le> max_body bnd"
    "length vs' = length vs" "\<forall>i. i \<notin> fst ` set ps \<or> i < length vs \<and> vs ! i = None \<longrightarrow> vs' ! i = vs ! i"
    "\<forall>pos \<in> set ps. position_done x ks bnd rkeys (repeated_names ps [] []) (world_inv ok dek ikey nm) vs vs' pos"
    "world_inv ok dek ikey nm w'" "first_refused ps = None"
    "rkeys = map (\<lambda>(index, tyoid). row_key_once_read x index tyoid formats vs) (distinct_slots ps)"
proof -
  let ?rk = "map (\<lambda>(index, tyoid). row_key_once_read x index tyoid formats vs) (distinct_slots ps)"
  have ok: "first_refused ps = None" using assms(5) by (auto simp: decrypt_row_def split: option.splits)
  obtain vs' pr' ch' u where loop: "decrypt_values x ks bnd ?rk (repeated_names ps [] []) ps (vs, length body, False) w = (Ok (vs', pr', ch'), u)"
    and fin: "if \<not> ch' then out = None \<and> w' = u
      else (\<exists>b. encode_data_row vs' = Ok b \<and> out = Some b \<and> w' = u)"
    using assms(5) vs ok by (auto simp: decrypt_row_def Let_def comp_bind_eq_Ok split: if_splits)
  have len: "length body = wire_len vs" using parse_data_row_Ok [OF vs] by simp
  have keep: "\<forall>pos \<in> set ps. \<forall>v w r w'. world_inv ok dek ikey nm w \<and> replacement_of x ks ?rk (repeated_names ps [] []) pos v w = (r, w')
      \<longrightarrow> world_inv ok dek ikey nm w'"
    using replacement_of_world [OF _ wf] by blast
  note inv = decrypt_values_done [OF loop assms(1,3) keep]
  have out: "case out of None \<Rightarrow> vs' = vs | Some b \<Rightarrow> parse_data_row b = Ok vs' \<and> length b \<le> max_body bnd"
  proof (cases ch')
    case False
    then show ?thesis using fin inv by simp
  next
    case True
    then obtain b where b: "encode_data_row vs' = Ok b" "out = Some b" using fin by auto
    have "parse_data_row b = Ok vs'" by (rule parse_encode_data_row [OF b(1)])
    moreover from this have "length b = wire_len vs'" using parse_data_row_Ok by blast
    ultimately show ?thesis using inv True b len by auto
  qed
  show thesis
    by (rule that [OF out]) (use inv fin ok in \<open>auto split: if_splits\<close>)
qed

end

section \<open>Values that were sealed\<close>

text \<open>The documented strictness of \<open>hex::decode\<close>: only hex digits decode.\<close>

definition is_hex_byte :: "byte \<Rightarrow> bool" where
  "is_hex_byte b \<longleftrightarrow> (let n = unat b in 48 \<le> n \<and> n \<le> 57 \<or> 97 \<le> n \<and> n \<le> 102 \<or> 65 \<le> n \<and> n \<le> 70)"

definition hex_decode_only :: "externs \<Rightarrow> bool" where
  "hex_decode_only x \<longleftrightarrow> (\<forall>h d. x_hex_decode x h = Some d \<longrightarrow> list_all is_hex_byte h)"

text \<open>How a stored value arrives: as \<open>bytea\<close> text, or raw.\<close>

definition stored_wire :: "externs \<Rightarrow> bool \<Rightarrow> bytes \<Rightarrow> bytes" where
  "stored_wire x hex s = (if hex then hex_text_form x s else s)"

lemma decode_wire_raw:
  assumes "hex_decode_only x" and "2 \<le> i" and "i < length s" and "s ! i = 83"
  shows "decode_wire x t s = (s, False)"
proof (cases "strip_prefix (bs [CHR 0x5C, CHR ''x'']) s")
  case None
  then show ?thesis by (simp add: decode_wire_def split: wire_form.splits)
next
  case (Some h)
  then have s: "s = bs [CHR 0x5C, CHR ''x''] @ h" by (simp add: strip_prefix_eq_Some)
  have "h ! (i - 2) = 83" "i - 2 < length h"
    using assms(2-4) unfolding s by (simp_all add: bs_def nth_append numeral_2_eq_2)
  then have "83 \<in> set h" by (metis nth_mem)
  moreover have "\<not> is_hex_byte 83" by code_simp
  ultimately have "x_hex_decode x h = None"
    using assms(1) by (auto simp: hex_decode_only_def list_all_iff)
  then show ?thesis using Some by (simp add: decode_wire_def split: wire_form.splits)
qed

lemma enveloped_third:
  assumes "is_enveloped e"
  shows "e ! 2 = 83" and "2 < length e"
proof -
  have "MAGIC ! 2 = 83" "MAGIC_V1 ! 2 = 83" "MAGIC_V3 ! 2 = 83" "length MAGIC = 4" "length MAGIC_V1 = 4" "length MAGIC_V3 = 4"
    by code_simp+
  then show "e ! 2 = 83" and "2 < length e"
    using assms by (auto simp: is_enveloped_def starts_with_iff nth_append)
qed

lemma decode_wire_hex:
  assumes "hex_encode_ok x" and "hex_decode_ok x" and "tr_wire t = Bytea"
  shows "decode_wire x t (hex_text_form x s) = (s, True)"
  using assms by (simp add: decode_wire_def hex_text_form_def hex_encode_ok_def hex_decode_ok_def)

context available_source
begin

lemma tr_seal_length:
  assumes "world_inv ok dek ikey nm w" and "tr_wf nm t" and "tr_seal x ks t pt r w = (Ok s, u)" and "tr_good x t s"
  shows "length pt \<le> length s"
proof (cases t)
  case (EncryptT e)
  then have laws: "aead_laws x" using assms(4) by simp
  obtain env where env: "sealed_for x dek (et_context e) r pt env" and
    s: "s = (case et_index_key_name e of None \<Rightarrow> env | Some name \<Rightarrow> prepend (compute x (the (ikey name)) pt) env)"
    using encrypt_seal_inv(2) [OF assms(1), of e x pt r "Ok s" u s] assms(2,3) EncryptT by auto
  have "length pt \<le> length env"
    using env laws by (auto simp: sealed_for_def seal_with_Ok aead_laws_def dest!: gcm_taggedD)
  then show ?thesis by (auto simp: s prepend_def split: option.splits)
next
  case (FpeT f)
  then obtain v where "transform_digits x ks f pt False w = (Ok (Some s), v)"
    using assms(3) by (auto simp: fpe_seal_def comp_bind_eq_Ok res_simps)
  from transform_digits_inv(2) [OF assms(1) _ this refl] show ?thesis
    using assms(2) FpeT by auto
next
  case (TokenT k)
  then show ?thesis using assms(4) by simp
qed

lemma decode_wire_sealed:
  assumes "world_inv ok dek ikey nm w" and "tr_wf nm t" and "tr_seal x ks t pt r w = (Ok s, u)" and "tr_good x t s"
    and "hex_encode_ok x" and "hex_decode_ok x" and "hex_decode_only x" and "hex \<longrightarrow> tr_wire t = Bytea"
  shows "decode_wire x t (stored_wire x hex s) = (s, hex)"
proof (cases hex)
  case True
  then show ?thesis using decode_wire_hex [OF assms(5,6)] assms(8) by (simp add: stored_wire_def)
next
  case False
  show ?thesis
  proof (cases t)
    case (EncryptT e)
    then have laws: "aead_laws x" "hmac_sized x" using assms(4) by simp_all
    obtain env where env: "sealed_for x dek (et_context e) r pt env" and
      s: "s = (case et_index_key_name e of None \<Rightarrow> env | Some name \<Rightarrow> prepend (compute x (the (ikey name)) pt) env)"
      using encrypt_seal_inv(2) [OF assms(1), of e x pt r "Ok s" u s] assms(2,3) EncryptT by auto
    note third = enveloped_third [OF sealed_for_enveloped [OF laws(1) env]]
    have len: "length (compute x k pt) = 32" for k using laws(2) by (simp add: compute_def)
    have "\<exists>i \<ge> 2. i < length s \<and> s ! i = 83"
    proof (cases "et_index_key_name e")
      case None
      then show ?thesis using third s by (intro exI [of _ 2]) simp
    next
      case (Some name)
      then show ?thesis using third s len by (intro exI [of _ 34]) (simp add: prepend_def nth_append)
    qed
    then show ?thesis using decode_wire_raw [OF assms(7)] False by (auto simp: stored_wire_def)
  qed (use False in \<open>simp_all add: decode_wire_def stored_wire_def\<close>)
qed


end

text \<open>The row key a position is opened with.\<close>

definition key_given :: "row_key_once list \<Rightarrow> row_key_ref \<Rightarrow> row_key option \<Rightarrow> bool" where
  "key_given rkeys key r =
     (case key of
        Absent \<Rightarrow> r = None
      | Slot j _ \<Rightarrow> (\<exists>k. map_of rkeys j = Some (Ok k) \<and> r = Some k)
      | _ \<Rightarrow> False)"

text \<open>
  The value at a position was sealed from \<open>pt i\<close> by the position's transform, in some state of some
  process over the same keys, for the row the position is read with, and arrives raw or as text.
\<close>

definition sealed_position :: "externs \<Rightarrow> 'k key_source \<Rightarrow> ('k world \<Rightarrow> bool) \<Rightarrow> (nat \<Rightarrow> rstr) \<Rightarrow> bounds \<Rightarrow> row_key_once list
    \<Rightarrow> bytes option list \<Rightarrow> (nat \<Rightarrow> bytes) \<Rightarrow> (nat \<Rightarrow> bool) \<Rightarrow> read_position \<Rightarrow> bool" where
  "sealed_position x ks good nm bnd rkeys vs pt hex pos \<longleftrightarrow>
     (case pos of (i, c, key) \<Rightarrow> \<forall>v. i < length vs \<and> vs ! i = Some v \<longrightarrow>
        length v \<le> max_value bnd \<and>
        (\<exists>t s r w u. rcol_transform c = Some t \<and> rcol_mask c = None \<and> tr_wf nm t \<and> tr_good x t s \<and> good w
           \<and> tr_seal x ks t (pt i) r w = (Ok s, u) \<and> v = stored_wire x (hex i) s
           \<and> (hex i \<longrightarrow> tr_wire t = Bytea) \<and> key_given rkeys key r))"

text \<open>The row with every protected value opened.\<close>

definition opened_row :: "externs \<Rightarrow> read_position list \<Rightarrow> (nat \<Rightarrow> bytes) \<Rightarrow> (nat \<Rightarrow> bool) \<Rightarrow> bytes option list \<Rightarrow> bytes option list" where
  "opened_row x ps pt hex vs =
     map (\<lambda>(i, v). if i \<in> fst ` set ps then map_option (\<lambda>_. stored_wire x (hex i) (pt i)) v else v) (enumerate 0 vs)"

lemma length_opened_row [simp]: "length (opened_row x ps pt hex vs) = length vs"
  by (simp add: opened_row_def)

lemma opened_row_Nil [simp]: "opened_row x [] pt hex vs = vs"
  by (simp add: opened_row_def list_eq_iff_nth_eq nth_enumerate_eq)

lemma opened_row_nth:
  "i < length vs \<Longrightarrow> opened_row x ps pt hex vs ! i =
     (if i \<in> fst ` set ps then map_option (\<lambda>_. stored_wire x (hex i) (pt i)) (vs ! i) else vs ! i)"
  by (simp add: opened_row_def nth_enumerate_eq)

context available_source
begin

lemma replacement_sealed:
  assumes laws: "hex_encode_ok x" "hex_decode_ok x" "hex_decode_only x"
    and "sealed_position x ks (world_inv ok dek ikey nm) nm bnd rkeys vs pt hex (i, c, key)"
    and "i < length vs" and "vs ! i = Some v" and u: "world_inv ok dek ikey nm u"
  obtains u' where "replacement_of x ks rkeys repeated (i, c, key) v u = (Ok (Some (stored_wire x (hex i) (pt i))), u')"
    "world_inv ok dek ikey nm u'" "length (stored_wire x (hex i) (pt i)) \<le> length v" "length v \<le> max_value bnd"
proof -
  from assms(4-6) obtain t s r w w' where t: "rcol_transform c = Some t" "rcol_mask c = None" "tr_wf nm t" "tr_good x t s"
    and w: "world_inv ok dek ikey nm w" and seal: "tr_seal x ks t (pt i) r w = (Ok s, w')" and v: "v = stored_wire x (hex i) s"
    and form: "hex i \<longrightarrow> tr_wire t = Bytea" and key: "key_given rkeys key r" and small: "length v \<le> max_value bnd"
    by (auto simp: sealed_position_def)
  have dec: "decode_wire x t v = (s, hex i)"
    unfolding v by (rule decode_wire_sealed [OF w t(3) seal t(4) laws form])
  have "fst (tr_open x ks t s r u) = Ok (Some (pt i))" by (rule tr_open_seal [OF w u t(3) seal t(4)])
  then obtain u' where op: "tr_open x ks t s r u = (Ok (Some (pt i)), u')" by (metis prod.collapse)
  have at: "open_at x ks rkeys b c i key t s u = (Ok (Some (pt i)), u')" for b
    using op key by (auto simp: open_at_def key_given_def split: row_key_ref.splits)
  have rep: "replacement_of x ks rkeys repeated (i, c, key) v u = (Ok (Some (stored_wire x (hex i) (pt i))), u')"
    using t(1,2) dec at by (simp add: replacement_of_def stored_wire_def)
  have "length (stored_wire x (hex i) (pt i)) \<le> length v"
    using tr_seal_length [OF w t(3) seal t(4)] laws(1) by (simp add: v stored_wire_def hex_text_form_def hex_encode_ok_def)
  then show thesis using that rep small tr_open_inv [OF u t(3) op] by blast
qed

lemma decrypt_values_sealed:
  assumes laws: "hex_encode_ok x" "hex_decode_ok x" "hex_decode_only x"
    and "distinct (map fst ps)"
    and "list_all (sealed_position x ks (world_inv ok dek ikey nm) nm bnd rkeys vs pt hex) ps"
    and "world_inv ok dek ikey nm u" and "wire_len vs \<le> max_body bnd"
  shows "\<exists>ch' u'. decrypt_values x ks bnd rkeys repeated ps (vs, wire_len vs, ch) u
      = (Ok (opened_row x ps pt hex vs, wire_len (opened_row x ps pt hex vs), ch'), u')
    \<and> (ch \<longrightarrow> ch') \<and> (\<not> ch' \<longrightarrow> opened_row x ps pt hex vs = vs)
    \<and> wire_len (opened_row x ps pt hex vs) \<le> max_body bnd"
  using assms(4-7)
proof (induction ps arbitrary: vs u ch)
  case Nil
  then show ?case by simp
next
  case (Cons pos ps)
  obtain i c key where pos: "pos = (i, c, key)" by (cases pos)
  have rest: "distinct (map fst ps)" "i \<notin> fst ` set ps" using Cons.prems(1) pos by auto
  show ?case
  proof (cases "if i < length vs then vs ! i else None")
    case None
    have same: "opened_row x (pos # ps) pt hex vs = opened_row x ps pt hex vs"
      by (rule nth_equalityI) (use None pos in \<open>auto simp: opened_row_nth split: if_splits\<close>)
    have "list_all (sealed_position x ks (world_inv ok dek ikey nm) nm bnd rkeys vs pt hex) ps" using Cons.prems(2) by simp
    note ih = Cons.IH [OF rest(1) this Cons.prems(3,4), of ch]
    have "decrypt_values x ks bnd rkeys repeated (pos # ps) (vs, wire_len vs, ch) u
        = decrypt_values x ks bnd rkeys repeated ps (vs, wire_len vs, ch) u"
      using None by (cases "i < length vs") (simp_all add: pos)
    then show ?thesis unfolding same using ih by simp
  next
    case (Some v)
    then have v: "i < length vs" "vs ! i = Some v" by (auto split: if_splits)
    let ?new = "stored_wire x (hex i) (pt i)"
    let ?vs = "vs[i := Some ?new]"
    have "sealed_position x ks (world_inv ok dek ikey nm) nm bnd rkeys vs pt hex (i, c, key)" using Cons.prems(2) pos by simp
    then obtain u1 where rep: "replacement_of x ks rkeys repeated (i, c, key) v u = (Ok (Some ?new), u1)"
      and u1: "world_inv ok dek ikey nm u1" and len: "length ?new \<le> length v" "length v \<le> max_value bnd"
      using replacement_sealed [OF laws _ v Cons.prems(3)] by blast
    have wl: "wire_len ?vs = wire_len vs - length v + length ?new" "length v \<le> wire_len vs"
      using wire_len_update [OF v] by simp_all
    then have fits: "wire_len ?vs \<le> max_body bnd" using len Cons.prems(4) by simp
    have others: "list_all (sealed_position x ks (world_inv ok dek ikey nm) nm bnd rkeys ?vs pt hex) ps"
    proof -
      have "sealed_position x ks (world_inv ok dek ikey nm) nm bnd rkeys ?vs pt hex p" if "p \<in> set ps" for p
      proof -
        have "fst p \<noteq> i" using that rest(2) by (metis imageI)
        moreover have "sealed_position x ks (world_inv ok dek ikey nm) nm bnd rkeys vs pt hex p"
          using Cons.prems(2) that by (simp add: list_all_iff)
        ultimately show ?thesis by (cases p) (simp add: sealed_position_def)
      qed
      then show ?thesis by (simp add: list_all_iff)
    qed
    obtain ch' u' where ih: "decrypt_values x ks bnd rkeys repeated ps (?vs, wire_len ?vs, True) u1
        = (Ok (opened_row x ps pt hex ?vs, wire_len (opened_row x ps pt hex ?vs), ch'), u')"
      "wire_len (opened_row x ps pt hex ?vs) \<le> max_body bnd" "ch'"
      using Cons.IH [OF rest(1) others u1 fits, of True] by blast
    have same: "opened_row x (pos # ps) pt hex vs = opened_row x ps pt hex ?vs"
      by (rule nth_equalityI) (use v pos rest(2) in \<open>auto simp: opened_row_nth nth_list_update\<close>)
    have step: "decrypt_values x ks bnd rkeys repeated (pos # ps) (vs, wire_len vs, ch) u
        = decrypt_values x ks bnd rkeys repeated ps (?vs, wire_len ?vs, True) u1"
      using rep len fits v by (simp add: pos Let_def flip: wl(1))
    show ?thesis unfolding step same using ih by auto
  qed
qed

end


section \<open>Descriptions\<close>

lemma protected_indices: "map fst (protected rs flds) = filter (\<lambda>i. rs_columns rs (fst (flds ! i), fst (snd (flds ! i))) \<noteq> None) [0..<length flds]"
proof -
  have "map fst (List.map_filter (\<lambda>(index, toid, att, ty).
       map_option (\<lambda>c. (index, c, f toid)) (g (toid, att))) (enumerate n xs))
     = filter (\<lambda>i. g (fst (xs ! (i - n)), fst (snd (xs ! (i - n)))) \<noteq> None) [n..<n + length xs]" for f g n and xs :: "field_id list"
  proof (induction xs arbitrary: n)
    case Nil
    then show ?case by (simp add: List.map_filter_def)
  next
    case (Cons a xs)
    have "filter (\<lambda>i. g (fst ((a # xs) ! (i - n)), fst (snd ((a # xs) ! (i - n)))) \<noteq> None) [Suc n..<Suc n + length xs]
        = filter (\<lambda>i. g (fst (xs ! (i - Suc n)), fst (snd (xs ! (i - Suc n)))) \<noteq> None) [Suc n..<Suc n + length xs]"
    proof (rule filter_cong [OF refl])
      fix i assume "i \<in> set [Suc n..<Suc n + length xs]"
      then have "Suc n \<le> i" by auto
      then have "(a # xs) ! (i - n) = xs ! (i - Suc n)" by (simp add: nth_Cons')
      then show "(g (fst ((a # xs) ! (i - n)), fst (snd ((a # xs) ! (i - n)))) \<noteq> None)
          = (g (fst (xs ! (i - Suc n)), fst (snd (xs ! (i - Suc n)))) \<noteq> None)" by simp
    qed
    moreover have "[n..<n + length (a # xs)] = n # [Suc n..<Suc n + length xs]"
      using upt_conv_Cons [of n "n + length (a # xs)"] by simp
    ultimately have rhs: "filter (\<lambda>i. g (fst ((a # xs) ! (i - n)), fst (snd ((a # xs) ! (i - n)))) \<noteq> None) [n..<n + length (a # xs)]
        = (if g (fst a, fst (snd a)) \<noteq> None then [n] else [])
          @ filter (\<lambda>i. g (fst (xs ! (i - Suc n)), fst (snd (xs ! (i - Suc n)))) \<noteq> None) [Suc n..<Suc n + length xs]"
      by (simp only: filter.simps diff_self_eq_0 nth_Cons_0) simp
    show ?case
      unfolding rhs Cons [of "Suc n", symmetric] by (cases a) (auto simp: List.map_filter_def)
  qed
  from this [of "\<lambda>toid. find_row_key_ref rs toid flds" "rs_columns rs" 0 flds] show ?thesis
    by (simp add: protected_def)
qed

lemma protected_sorted: "sorted (map fst (protected rs flds))" "distinct (map fst (protected rs flds))"
  by (simp_all add: protected_indices sorted_wrt_filter)

text \<open>The positions of a description are distinct and in order.\<close>

definition described_ok :: "described \<Rightarrow> bool" where
  "described_ok d \<longleftrightarrow> sorted (map fst (d_columns d)) \<and> distinct (map fst (d_columns d))"

lemma described_new_ok: "described_ok (described_new rs flds)"
  by (simp add: described_ok_def described_new_def protected_sorted)

lemma described_default_ok: "described_ok described_default"
  by (simp add: described_ok_def described_default_def)

lemma rederived_columns:
  "d_columns (described_rederived d rs) = sort_key fst (protected rs (d_fields d)
     @ filter (\<lambda>p. fst p \<notin> fst ` set (protected rs (d_fields d))) (d_columns d))"
  by (simp add: described_rederived_def Let_def case_prod_beta')

lemma described_rederived_ok: "described_ok d \<Longrightarrow> described_ok (described_rederived d rs)"
proof -
  assume d: "described_ok d"
  define new where "new = protected rs (d_fields d)"
  define kept where "kept = filter (\<lambda>p. fst p \<notin> fst ` set new) (d_columns d)"
  have out: "fst p \<notin> set (map fst new)" if "p \<in> set kept" for p using that by (simp add: kept_def)
  have "set (map fst new) \<inter> set (map fst kept) = {}"
  proof (rule equals0I)
    fix i assume i: "i \<in> set (map fst new) \<inter> set (map fst kept)"
    then obtain p where "p \<in> set kept" "i = fst p" by (metis IntD2 imageE list.set_map)
    then show False using out i by blast
  qed
  moreover have "distinct (map fst new)" by (simp add: new_def protected_sorted)
  moreover have "distinct (map fst kept)" using d by (simp add: described_ok_def kept_def distinct_map_filter)
  ultimately have "distinct (map fst (new @ kept))" by simp
  then have "distinct (map fst (sort_key fst (new @ kept)))"
    by (metis distinct_map distinct_sort set_sort)
  then show ?thesis
    by (simp add: described_ok_def rederived_columns flip: new_def kept_def)
qed


lemma replacement_of_ok:
  assumes "replacement_of x ks rkeys repeated (i, c, key) v w = (Ok r, w')"
    and "rcol_transform c = Some t" and "decode_wire x t v = (stored, hex)"
  shows "\<exists>k opened. tr_open x ks t stored k w = (Ok opened, w') \<and>
    r = map_option (\<lambda>b. if hex then hex_text_form x b else b)
      (case rcol_mask c of Some m \<Rightarrow> Some (mask_apply m (case opened of Some o' \<Rightarrow> o' | None \<Rightarrow> stored)) | None \<Rightarrow> opened)"
proof -
  from replacement_of_open [OF assms(1)] obtain q k where q: "tr_open x ks t stored k w = (q, w')"
    and iff: "\<forall>p. (Ok r :: proxy_error + bytes option) = Ok p \<longleftrightarrow> (\<exists>opened. q = Ok opened \<and>
          p = map_option (\<lambda>b. if hex then hex_text_form x b else b)
            (case rcol_mask c of Some m \<Rightarrow> Some (mask_apply m (case opened of Some o' \<Rightarrow> o' | None \<Rightarrow> stored)) | None \<Rightarrow> opened))"
    unfolding assms(2,3) option.case fst_conv snd_conv by (elim exE conjE)
  from iff [rule_format, of r] obtain opened where "q = Ok opened"
    "r = map_option (\<lambda>b. if hex then hex_text_form x b else b)
            (case rcol_mask c of Some m \<Rightarrow> Some (mask_apply m (case opened of Some o' \<Rightarrow> o' | None \<Rightarrow> stored)) | None \<Rightarrow> opened)"
    by (elim iffD1 [elim_format]) (simp, elim exE conjE)
  then show ?thesis using q by (intro exI [of _ k] exI [of _ opened]) (simp only: simp_thms)
qed

lemma decrypt_row_sealed:
  assumes "available_source ks ok dek ikey" and "hex_encode_ok x" and "hex_decode_ok x" and "hex_decode_only x"
    and "distinct (map fst ps)" and "first_refused ps = None" and "parse_data_row body = Ok vs"
    and "list_all (sealed_position x ks (world_inv ok dek ikey nm) nm bnd
           (map (\<lambda>(index, tyoid). row_key_once_read x index tyoid formats vs) (distinct_slots ps)) vs pt hex) ps"
    and "world_inv ok dek ikey nm w" and "length body \<le> max_body bnd" and "max_body bnd < 2 ^ 31"
  shows "\<exists>out w'. decrypt_row x ks ps formats body bnd w = (Ok out, w')
    \<and> (case out of None \<Rightarrow> opened_row x ps pt hex vs = vs | Some b \<Rightarrow> parse_data_row b = Ok (opened_row x ps pt hex vs))"
proof -
  let ?rk = "map (\<lambda>(index, tyoid). row_key_once_read x index tyoid formats vs) (distinct_slots ps)"
  have len: "length body = wire_len vs" "length vs < 2 ^ 15" using parse_data_row_Ok [OF assms(7)] by simp_all
  have "wire_len vs \<le> max_body bnd" using assms(10) len by simp
  from available_source.decrypt_values_sealed [OF assms(1-5,8,9) this, of "repeated_names ps [] []" False]
  obtain ch w' where loop: "decrypt_values x ks bnd ?rk (repeated_names ps [] []) ps (vs, length body, False) w
      = (Ok (opened_row x ps pt hex vs, wire_len (opened_row x ps pt hex vs), ch), w')"
    and ch: "\<not> ch \<longrightarrow> opened_row x ps pt hex vs = vs" and fits: "wire_len (opened_row x ps pt hex vs) \<le> max_body bnd"
    using len by auto
  obtain b where b: "encode_data_row (opened_row x ps pt hex vs) = Ok b" "parse_data_row b = Ok (opened_row x ps pt hex vs)"
    using encode_data_row_Ok [of "opened_row x ps pt hex vs"] len fits assms(11) by auto
  show ?thesis
    using loop ch b assms(6,7) by (cases ch) (simp_all add: decrypt_row_def Let_def)
qed

section \<open>Suspect columns\<close>

lemma find_suspect_Some:
  assumes "find_suspect lower rs d flds b = Some (i, g)"
  shows "g \<in> set flds \<and> (table_oid g = 0) = b"
  using assms unfolding find_suspect_def find_Some_iff
  by (auto simp: nth_enumerate_eq)

lemma find_suspect_uncovered:
  assumes "f \<in> set flds" and "named_like_protected lower rs f" and "rs_columns rs (table_oid f, attnum f) = None"
  shows "find_suspect lower rs (described_new rs (map (\<lambda>f. (table_oid f, attnum f, type_oid f)) flds)) flds (table_oid f = 0) \<noteq> None"
proof -
  let ?fs = "map (\<lambda>f. (table_oid f, attnum f, type_oid f)) flds"
  obtain i where i: "i < length flds" "flds ! i = f" using assms(1) by (auto simp: in_set_conv_nth)
  have "fst ` set (protected rs ?fs) = set (map fst (protected rs ?fs))" by simp
  then have "i \<notin> fst ` set (protected rs ?fs)"
    unfolding protected_indices using i assms(3) by auto
  moreover have "(i, f) \<in> set (enumerate 0 flds)" using i by (auto simp: in_set_enumerate_eq)
  ultimately show ?thesis
    using assms(2) unfolding find_suspect_def find_None_iff by (fastforce simp: described_new_def)
qed

section \<open>A concrete row\<close>

lemma sample_nibble_hex: "sample_nibble b = Some n \<Longrightarrow> is_hex_byte b"
  by (auto simp: is_hex_byte_def Let_def split: if_splits)

lemma sample_hex_decode_only: "hex_decode_only sample"
proof -
  have "sample_unhex h = Some d \<Longrightarrow> list_all is_hex_byte h" for h d
    by (induction h arbitrary: d rule: sample_unhex.induct)
      (auto simp del: sample_nibble.simps intro: sample_nibble_hex split: option.splits)
  then show ?thesis by (simp add: hex_decode_only_def sample_def)
qed

definition sample_enc :: encrypt_transform where
  "sample_enc = encrypt_new sample_column (Some sample_column) 0"

definition sample_read_column :: read_column where
  "sample_read_column = \<lparr>rcol_name = sample_column, rcol_transform = Some (EncryptT sample_enc), rcol_mask = None\<rparr>"

definition sample_bounds :: bounds where
  "sample_bounds = \<lparr>max_value = 1000, max_body = 2000\<rparr>"

lemma sample_enc_wf: "tr_wf (\<lambda>_. sample_column) (EncryptT sample_enc)"
  by (simp add: sample_enc_def encrypt_new_def)

lemma sample_enc_good: "tr_good sample (EncryptT sample_enc) s"
  using sample_aead_laws sample_hmac_sized by (simp add: sample_enc_def encrypt_new_def)

lemma sample_enc_seal:
  obtains s v where "encrypt_seal sample (file_source sample) sample_enc [9] (Some [52]) (build_world sample_file) = (Ok s, v)"
    "length s \<le> 300" "length s \<noteq> 1"
proof -
  have "(case aad_with_row sample_column sample_id [52] of Ok a \<Rightarrow> length a < 60 | Err _ \<Rightarrow> False)"
    by (simp add: aad_with_row_def aad_prefix_def)
  then obtain a where a: "aad_with_row sample_column sample_id [52] = Ok a" "length a < 60"
    by (auto split: sum.splits)
  have n: "length (x_nonce sample 0) = 12" by (rule nonce_sizedD [OF sample_nonce_sized])
  have "\<exists>s v. encrypt_seal sample (file_source sample) sample_enc [9] (Some [52]) (build_world sample_file) = (Ok s, v)
      \<and> length s \<le> 300 \<and> length s \<noteq> 1"
    using a(2) n sample_hmac_sized by (simp add: encrypt_seal_def sample_enc_def encrypt_new_def a(1) build_world_def on_ciphers_def ciphers_seal_def
        ciphers_active_def ciphers_new_def ciphers_with_budget_def comp_bind_def ask_def file_source_def
        fks_active_key_def fks_index_key_def once_key_def sample_file_def install_active_def alloc_def encrypt_at_def cipher_encrypt_def
        cipher_with_budget_def seal_with_def MAX_ENCRYPTIONS_PER_KEY_def blind_index_def index_key_def prepend_def MAGIC_V3_def
        sample_mark_def compute_def)
  then show thesis using that by blast
qed

text \<open>A row of two columns, a \<open>text\<close> key and an encrypted value sealed for it.\<close>

definition sample_positions :: "read_position list" where
  "sample_positions = [(1, sample_read_column, Slot 0 25)]"

lemma sample_row_keys:
  "map (\<lambda>(index, tyoid). row_key_once_read sample index tyoid None [Some [52], v]) (distinct_slots sample_positions)
     = [(0, Ok [52])]"
proof -
  have "read_row_key sample 0 25 None [Some [52], v] = Ok [52]"
  proof -
    have "utf8_decode [52] = Some [52]" by code_simp
    then show ?thesis
      by (simp add: read_row_key_def for_column_def value_format_def canonical_def INT2_def INT4_def INT8_def UUID_def TEXT_def
          key_utf8_def)
  qed
  then show ?thesis by (simp add: sample_positions_def distinct_slots_def row_key_once_read_def)
qed

lemma sample_position_facts:
  "distinct (map fst sample_positions)" "first_refused sample_positions = None" "max_body sample_bounds < 2 ^ 31"
  "columns_wf (\<lambda>_. sample_column) sample_positions"
  using sample_enc_wf by (simp_all add: sample_positions_def sample_bounds_def columns_wf_def sample_read_column_def refused_key_def)

lemma sample_position_in: "(1, sample_read_column, Slot 0 25) \<in> set sample_positions"
  by (simp add: sample_positions_def)

lemma sample_column_transform: "rcol_transform sample_read_column = Some (EncryptT sample_enc)"
  by (simp add: sample_read_column_def)

lemma sample_sealed_position:
  assumes "encrypt_seal sample (file_source sample) sample_enc [9] (Some [52]) (build_world sample_file) = (Ok s, v)"
    and "length s \<le> 300"
  shows "list_all (sealed_position sample (file_source sample)
      (world_inv sample_src (fkeys sample_file) (index_keys sample_file) (\<lambda>_. sample_column)) (\<lambda>_. sample_column) sample_bounds
      (map (\<lambda>(index, tyoid). row_key_once_read sample index tyoid None [Some [52], Some s]) (distinct_slots sample_positions))
      [Some [52], Some s] (\<lambda>_. [9]) (\<lambda>_. False)) sample_positions"
  unfolding sample_row_keys
  using assms sample_enc_wf sample_enc_good sample_policy_world
  by (auto simp: sample_positions_def sealed_position_def sample_read_column_def sample_bounds_def stored_wire_def key_given_def)

lemma sample_row_body:
  assumes "length s \<le> 300"
  obtains body where "encode_data_row [Some [52], Some s] = Ok body" "parse_data_row body = Ok [Some [52], Some s]"
    "length body \<le> max_body sample_bounds"
proof -
  obtain b where "encode_data_row [Some [52], Some s] = Ok b" "parse_data_row b = Ok [Some [52], Some s]"
    using encode_data_row_Ok [of "[Some [52], Some s]"] assms by (auto simp: wire_len_def)
  then show thesis using that parse_data_row_Ok [of b] assms by (simp add: wire_len_def sample_bounds_def)
qed

lemma sample_opened_row:
  "opened_row sample sample_positions (\<lambda>_. [9]) (\<lambda>_. False) [Some [52], Some s] = [Some [52], Some [9]]"
  by (simp add: opened_row_def sample_positions_def stored_wire_def)

lemma sample_row_opens:
  obtains s v body out w where
    "encrypt_seal sample (file_source sample) sample_enc [9] (Some [52]) (build_world sample_file) = (Ok s, v)"
    "parse_data_row body = Ok [Some [52], Some s]"
    "decrypt_row sample (file_source sample) sample_positions None body sample_bounds (build_world sample_file) = (Ok out, w)"
proof -
  obtain s v where s: "encrypt_seal sample (file_source sample) sample_enc [9] (Some [52]) (build_world sample_file) = (Ok s, v)"
    and len: "length s \<le> 300" by (rule sample_enc_seal)
  obtain body where body: "parse_data_row body = Ok [Some [52], Some s]" "length body \<le> max_body sample_bounds"
    by (rule sample_row_body [OF len])
  show thesis
    using decrypt_row_sealed [OF fks.available_source_axioms [of sample] sample_hex_encode_ok sample_hex_decode_ok
      sample_hex_decode_only sample_position_facts(1,2) body(1) sample_sealed_position [OF s len] sample_policy_world body(2)
      sample_position_facts(3)] that s body by blast
qed

section \<open>Properties\<close>

text \<open>
  C20. Sealed values come back to the client. Take any row whose protected values were sealed by
  their columns' transforms, each for the row key the row itself carries, in whatever processes and
  states over the same keys, and let them arrive raw or as \<open>bytea\<close> text. If the row fits the
  configured bounds, it is never refused: the client receives the same row with every protected
  value replaced by its plaintext in the form it arrived in.
\<close>

theorem sealed_rows_read_back:
  assumes "available_source ks ok dek ikey" and "hex_encode_ok x" and "hex_decode_ok x" and "hex_decode_only x"
    and "distinct (map fst ps)" and "first_refused ps = None" and "parse_data_row body = Ok vs"
    and "list_all (sealed_position x ks (world_inv ok dek ikey nm) nm bnd
           (map (\<lambda>(index, tyoid). row_key_once_read x index tyoid formats vs) (distinct_slots ps)) vs pt hex) ps"
    and "world_inv ok dek ikey nm w" and "length body \<le> max_body bnd" and "max_body bnd < 2 ^ 31"
  shows "\<exists>out w'. decrypt_row x ks ps formats body bnd w = (Ok out, w')
    \<and> (case out of None \<Rightarrow> opened_row x ps pt hex vs = vs | Some b \<Rightarrow> parse_data_row b = Ok (opened_row x ps pt hex vs))"
  by (rule decrypt_row_sealed [OF assms])

theorem sealed_rows_read_back_witness:
  "\<exists>s v body out w. encrypt_seal sample (file_source sample) sample_enc [9] (Some [52]) (build_world sample_file) = (Ok s, v)
    \<and> encode_data_row [Some [52], Some s] = Ok body
    \<and> decrypt_row sample (file_source sample) sample_positions None body sample_bounds (build_world sample_file) = (Ok out, w)
    \<and> (case out of None \<Rightarrow> False | Some b \<Rightarrow> parse_data_row b = Ok [Some [52], Some [9]])"
proof -
  obtain s v where s: "encrypt_seal sample (file_source sample) sample_enc [9] (Some [52]) (build_world sample_file) = (Ok s, v)"
    and len: "length s \<le> 300" and short: "length s \<noteq> 1" by (rule sample_enc_seal)
  obtain body where body: "encode_data_row [Some [52], Some s] = Ok body" "parse_data_row body = Ok [Some [52], Some s]"
    "length body \<le> max_body sample_bounds"
    by (rule sample_row_body [OF len])
  note rb = sealed_rows_read_back [OF fks.available_source_axioms [of sample] sample_hex_encode_ok sample_hex_decode_ok
      sample_hex_decode_only sample_position_facts(1,2) body(2) sample_sealed_position [OF s len] sample_policy_world body(3)
      sample_position_facts(3)]
  show ?thesis
    using rb s body(1) short unfolding sample_opened_row by (fastforce split: option.splits)
qed

text \<open>
  A row is rewritten position by position and nothing else in it changes: what the proxy sends
  has the same number of columns and fits the frame bound; unprotected columns and NULLs are as the
  server sent them; and each protected value was within the value bound and is replaced by exactly
  what its column says, or left alone where that is nothing.
\<close>

theorem row_rewritten:
  assumes "key_source_laws ks ok dek ikey" and "world_inv ok dek ikey nm w" and "columns_wf nm ps" and "distinct (map fst ps)"
    and "parse_data_row body = Ok vs" and "decrypt_row x ks ps formats body bnd w = (Ok out, w')"
  shows "\<exists>vs' rkeys. (case out of None \<Rightarrow> vs' = vs | Some b \<Rightarrow> parse_data_row b = Ok vs' \<and> length b \<le> max_body bnd)
    \<and> length vs' = length vs
    \<and> (\<forall>i. i \<notin> fst ` set ps \<or> i < length vs \<and> vs ! i = None \<longrightarrow> vs' ! i = vs ! i)
    \<and> (\<forall>pos \<in> set ps. position_done x ks bnd rkeys (repeated_names ps [] []) (world_inv ok dek ikey nm) vs vs' pos)"
  by (rule key_source_laws.decrypt_row_rewritten [OF assms]) blast

theorem row_rewritten_witness:
  "\<exists>s body out w vs'. parse_data_row body = Ok [Some [52], Some s]
    \<and> decrypt_row sample (file_source sample) sample_positions None body sample_bounds (build_world sample_file) = (Ok out, w)
    \<and> (case out of None \<Rightarrow> vs' = [Some [52], Some s] | Some b \<Rightarrow> parse_data_row b = Ok vs') \<and> length vs' = 2 \<and> vs' ! 0 = Some [52]"
proof -
  obtain s v body out w where s: "encrypt_seal sample (file_source sample) sample_enc [9] (Some [52]) (build_world sample_file) = (Ok s, v)"
    and b: "parse_data_row body = Ok [Some [52], Some s]"
    and d: "decrypt_row sample (file_source sample) sample_positions None body sample_bounds (build_world sample_file) = (Ok out, w)"
    by (rule sample_row_opens)
  from row_rewritten [OF fks.key_source_laws_axioms sample_policy_world sample_position_facts(4,1) b d]
  obtain vs' where "case out of None \<Rightarrow> vs' = [Some [52], Some s] | Some b \<Rightarrow> parse_data_row b = Ok vs' \<and> length b \<le> max_body sample_bounds"
    "length vs' = 2" "\<forall>i. i \<notin> fst ` set sample_positions \<longrightarrow> vs' ! i = [Some [52], Some s] ! i"
    by auto
  moreover from this(3) have "vs' ! 0 = Some [52]" by (simp add: sample_positions_def)
  ultimately show ?thesis using b d by (intro exI [of _ s] exI [of _ body] exI [of _ out] exI [of _ w] exI [of _ vs']) (auto split: option.splits)
qed

text \<open>
  C21. Stored forms are not relayed. When a row passes, every value of an encrypted column that holds
  an envelope was opened, and the client receives its plaintext, masked if the column has a mask;
  a value the proxy cannot open makes the row fail instead.
\<close>

theorem stored_form_not_relayed:
  assumes "key_source_laws ks ok dek ikey" and "world_inv ok dek ikey nm w" and "columns_wf nm ps" and "distinct (map fst ps)"
    and "parse_data_row body = Ok vs" and "decrypt_row x ks ps formats body bnd w = (Ok out, w')"
    and "(i, c, key) \<in> set ps" and "rcol_transform c = Some (EncryptT t)" and "i < length vs" and "vs ! i = Some v"
    and "decode_wire x (EncryptT t) v = (stored, hex)" and "split stored \<noteq> None \<or> is_enveloped stored"
  shows "\<exists>vs' pt k u. (case out of None \<Rightarrow> vs' = vs | Some b \<Rightarrow> parse_data_row b = Ok vs')
    \<and> fst (encrypt_open x ks t stored k u) = Ok (Some pt)
    \<and> vs' ! i = Some (stored_wire x hex (case rcol_mask c of Some m \<Rightarrow> mask_apply m pt | None \<Rightarrow> pt))"
proof -
  obtain vs' rkeys where out: "case out of None \<Rightarrow> vs' = vs | Some b \<Rightarrow> parse_data_row b = Ok vs' \<and> length b \<le> max_body bnd"
    and "\<forall>pos \<in> set ps. position_done x ks bnd rkeys (repeated_names ps [] []) (world_inv ok dek ikey nm) vs vs' pos"
    by (rule key_source_laws.decrypt_row_rewritten [OF assms(1-6)])
  then have "position_done x ks bnd rkeys (repeated_names ps [] []) (world_inv ok dek ikey nm) vs vs' (i, c, key)"
    using assms(7) by blast
  then obtain u r u' where r: "replacement_of x ks rkeys (repeated_names ps [] []) (i, c, key) v u = (Ok r, u')"
    and at: "vs' ! i = (case r of None \<Rightarrow> Some v | Some q \<Rightarrow> Some q)"
    using assms(9,10) by (auto simp: position_done_def)
  from replacement_of_ok [OF r assms(8,11)] obtain k opened where o: "encrypt_open x ks t stored k u = (Ok opened, u')"
    and p: "r = map_option (\<lambda>b. if hex then hex_text_form x b else b)
            (case rcol_mask c of Some m \<Rightarrow> Some (mask_apply m (case opened of Some o' \<Rightarrow> o' | None \<Rightarrow> stored)) | None \<Rightarrow> opened)"
    unfolding tr_open.simps by (elim exE conjE)
  have "opened \<noteq> None"
    using o assms(12) by (auto simp: encrypt_open_def comp_bind_eq_Ok split: option.splits if_splits)
  then obtain pt where pt: "opened = Some pt" by blast
  have "vs' ! i = Some (stored_wire x hex (case rcol_mask c of Some m \<Rightarrow> mask_apply m pt | None \<Rightarrow> pt))"
    using at p pt by (cases "rcol_mask c") (simp_all add: stored_wire_def)
  moreover have "case out of None \<Rightarrow> vs' = vs | Some b \<Rightarrow> parse_data_row b = Ok vs'" using out by (auto split: option.splits)
  ultimately show ?thesis using o pt by (metis fst_conv)
qed

theorem stored_form_not_relayed_witness:
  "\<exists>s v body out w vs' pt k u. encrypt_seal sample (file_source sample) sample_enc [9] (Some [52]) (build_world sample_file) = (Ok s, v)
    \<and> parse_data_row body = Ok [Some [52], Some s]
    \<and> decrypt_row sample (file_source sample) sample_positions None body sample_bounds (build_world sample_file) = (Ok out, w)
    \<and> (case out of None \<Rightarrow> vs' = [Some [52], Some s] | Some b \<Rightarrow> parse_data_row b = Ok vs')
    \<and> fst (encrypt_open sample (file_source sample) sample_enc s k u) = Ok (Some pt) \<and> vs' ! 1 = Some pt"
proof -
  obtain s v body out w where s: "encrypt_seal sample (file_source sample) sample_enc [9] (Some [52]) (build_world sample_file) = (Ok s, v)"
    and b: "parse_data_row body = Ok [Some [52], Some s]"
    and d: "decrypt_row sample (file_source sample) sample_positions None body sample_bounds (build_world sample_file) = (Ok out, w)"
    by (rule sample_row_opens)
  have seal: "tr_seal sample (file_source sample) (EncryptT sample_enc) [9] (Some [52]) (build_world sample_file) = (Ok s, v)"
    using s by simp
  have wire: "decode_wire sample (EncryptT sample_enc) s = (s, False)"
    using available_source.decode_wire_sealed [OF fks.available_source_axioms [of sample] sample_policy_world sample_enc_wf seal
      sample_enc_good sample_hex_encode_ok sample_hex_decode_ok sample_hex_decode_only, of False] by (simp add: stored_wire_def)
  obtain e where e: "sealed_for sample (fkeys sample_file) sample_column (Some [52]) [9] e"
    "s = prepend (compute sample (the (index_keys sample_file sample_column)) [9]) e"
    using key_source_laws.encrypt_seal_inv(2) [OF fks.key_source_laws_axioms sample_policy_world sample_enc_wf s refl]
    by (auto simp: sample_enc_def encrypt_new_def)
  have "split s \<noteq> None"
    using split_prepend [OF _ sealed_for_enveloped [OF sample_aead_laws e(1)]] sample_hmac_sized e(2) by (simp add: compute_def)
  then have "split s \<noteq> None \<or> is_enveloped s" ..
  from stored_form_not_relayed [OF fks.key_source_laws_axioms sample_policy_world sample_position_facts(4,1) b d
      sample_position_in sample_column_transform _ _ wire this]
  show ?thesis using s b d by (fastforce simp: stored_wire_def sample_read_column_def)
qed

text \<open>
  Re-deriving a description only ever adds protection: the positions covered afterwards are
  exactly those the new resolution covers and those that were covered before; a newly resolved
  position takes what the new resolution says, every other one keeps what it was described with;
  each position occurs once, in order, and deriving again against the same resolution changes nothing.
\<close>

theorem rederived_only_grows:
  assumes "described_ok d"
  shows "described_ok (described_rederived d rs)
    \<and> set (d_columns (described_rederived d rs)) = set (protected rs (d_fields d))
        \<union> {p \<in> set (d_columns d). fst p \<notin> fst ` set (protected rs (d_fields d))}
    \<and> fst ` set (d_columns d) \<subseteq> fst ` set (d_columns (described_rederived d rs))
    \<and> described_rederived (described_rederived d rs) rs = described_rederived d rs"
proof -
  let ?d = "described_rederived d rs" and ?new = "protected rs (d_fields d)"
  have cols: "set (d_columns ?d) = set ?new \<union> {p \<in> set (d_columns d). fst p \<notin> fst ` set ?new}"
    by (simp add: rederived_columns)
  have flds: "d_fields ?d = d_fields d" by (simp add: described_rederived_def Let_def)
  have grow: "fst ` set (d_columns d) \<subseteq> fst ` set (d_columns ?d)" unfolding cols by auto
  have ok: "described_ok ?d" "described_ok (described_rederived ?d rs)"
    using described_rederived_ok assms by blast+
  have "set (d_columns (described_rederived ?d rs)) = set (d_columns ?d)"
    unfolding rederived_columns set_sort set_append set_filter flds cols by auto
  moreover have "d_columns e = d_columns f" if "set (d_columns e) = set (d_columns f)" "described_ok e" "described_ok f" for e f
  proof (rule map_sorted_distinct_set_unique [of fst])
    show "inj_on fst (set (d_columns e) \<union> set (d_columns f))"
      using that by (simp add: described_ok_def distinct_map)
  qed (use that in \<open>simp_all add: described_ok_def\<close>)
  ultimately have "d_columns (described_rederived ?d rs) = d_columns ?d" using ok by blast
  then have "described_rederived ?d rs = ?d"
    by (simp add: described_rederived_def Let_def)
  then show ?thesis using ok cols grow by blast
qed

theorem rederived_only_grows_witness:
  "fst ` set (d_columns \<lparr>d_generation = 0, d_fields = [(5, 1, 23), (5, 2, 17)], d_columns = sample_positions\<rparr>)
     \<subseteq> fst ` set (d_columns (described_rederived
         \<lparr>d_generation = 0, d_fields = [(5, 1, 23), (5, 2, 17)], d_columns = sample_positions\<rparr>
         \<lparr>rs_columns = Map.empty, rs_names = [], rs_positions = Map.empty, rs_row_keys = Map.empty,
          rs_row_key_by_table = Map.empty, rs_generation = 1\<rparr>))"
proof -
  have "described_ok \<lparr>d_generation = 0, d_fields = [(5, 1, 23), (5, 2, 17)], d_columns = sample_positions\<rparr>"
    by (simp add: described_ok_def sample_positions_def)
  then show ?thesis by (rule rederived_only_grows [THEN conjunct2, THEN conjunct2, THEN conjunct1])
qed

text \<open>
  C22. In reject mode a result set is refused when the proxy cannot account for one of its columns: a
  field that carries the name of a protected column and that no resolved column covers, whether the
  server computed it or it comes from a relation the proxy has not resolved, makes the proxy answer
  with an error and close. The description is not recorded, so none of its rows can follow, and rows
  without a description are refused as well.
\<close>

theorem suspect_columns_refused:
  assumes "rc_on_unprotected (r_ctx s) = Reject"
  shows "(parse_row_description body = Ok flds \<and> f \<in> set flds \<and> named_like_protected lower (rc_resolved (r_ctx s)) f
      \<and> rs_columns (rc_resolved (r_ctx s)) (table_oid f, attnum f) = None \<longrightarrow>
      (\<exists>g e s'. on_frame x ks lower show_error 84 body s = (Ok (refuse show_error e), s') \<and> g \<in> set flds
        \<and> e = (if table_oid g = 0 then ComputedProtectedColumn (rf_name g) else StaleColumnMap (rf_name g) (table_oid g))
        \<and> r_portals s' = r_portals s \<and> r_dec s' = r_dec s \<and> r_world s' = r_world s))
    \<and> (portal_row_source (r_portals s) = Undescribed \<or> portal_row_source (r_portals s) = LastDescription \<and> rd_described (r_dec s) = None \<longrightarrow>
        on_frame x ks lower show_error 68 body s = (Ok (refuse show_error UndescribedRow), s))"
proof (intro conjI impI; (elim conjE)?)
  let ?rs = "rc_resolved (r_ctx s)"
  let ?find = "find_suspect lower ?rs (described_new ?rs (map (\<lambda>f. (table_oid f, attnum f, type_oid f)) flds)) flds"
  assume p: "parse_row_description body = Ok flds" and f: "f \<in> set flds" "named_like_protected lower ?rs f"
      "rs_columns ?rs (table_oid f, attnum f) = None"
  have some: "?find (table_oid f = 0) \<noteq> None" by (rule find_suspect_uncovered [OF f])
  consider (computed) i g where "?find True = Some (i, g)" | (stale) i g where "?find True = None" "?find False = Some (i, g)"
    using some by (cases "?find True"; cases "table_oid f = 0") auto
  then show "\<exists>g e s'. on_frame x ks lower show_error 84 body s = (Ok (refuse show_error e), s') \<and> g \<in> set flds
        \<and> e = (if table_oid g = 0 then ComputedProtectedColumn (rf_name g) else StaleColumnMap (rf_name g) (table_oid g))
        \<and> r_portals s' = r_portals s \<and> r_dec s' = r_dec s \<and> r_world s' = r_world s"
  proof cases
    case (computed i g)
    then show ?thesis using assms p find_suspect_Some [OF computed]
      by (auto simp: on_frame_def inspect_def inspect_description_def check_for_stale_mapping_def comp_bind_def)
  next
    case (stale i g)
    then show ?thesis using assms p find_suspect_Some [OF stale(2)]
      by (auto simp: on_frame_def inspect_def inspect_description_def check_for_stale_mapping_def comp_bind_def Let_def)
  qed
next
  assume "portal_row_source (r_portals s) = Undescribed \<or> portal_row_source (r_portals s) = LastDescription \<and> rd_described (r_dec s) = None"
  then show "on_frame x ks lower show_error 68 body s = (Ok (refuse show_error UndescribedRow), s)"
    by (auto simp: on_frame_def inspect_def inspect_data_def row_positions_def comp_bind_def)
qed

definition sample_read_state :: "(nat, file_key_source) read_state" where
  "sample_read_state =
     \<lparr>r_ctx = row_context_new \<lparr>rs_columns = Map.empty, rs_names = [[115]], rs_positions = Map.empty, rs_row_keys = Map.empty,
        rs_row_key_by_table = Map.empty, rs_generation = 0\<rparr> Reject DEFAULT_MAX_PROTECTED_VALUE_LEN,
      r_portals = tracked_new, r_dec = decryptor_new, r_world = build_world sample_file\<rparr>"

definition sample_field :: row_field where
  "sample_field = \<lparr>rf_name = [115], table_oid = 0, attnum = 0, type_oid = 25, rf_format = 0\<rparr>"

theorem suspect_columns_refused_witness:
  "\<exists>s'. on_frame sample (file_source sample) id (\<lambda>_. []) 84 ([0, 1, 115, 0] @ replicate 9 0 @ [25] @ replicate 8 0) sample_read_state
      = (Ok (refuse (\<lambda>_. []) (ComputedProtectedColumn [115])), s') \<and> r_dec s' = decryptor_new"
proof -
  have p: "parse_row_description ([0, 1, 115, 0] @ replicate 9 0 @ [25] @ replicate 8 0) = Ok [sample_field]"
    by code_simp
  have "utf8_decode [115] = Some [115]" by code_simp
  then have n: "named_like_protected id (rc_resolved (r_ctx sample_read_state)) sample_field"
    by (simp add: named_like_protected_def sample_read_state_def row_context_new_def sample_field_def)
  have "rc_on_unprotected (r_ctx sample_read_state) = Reject"
    by (simp add: sample_read_state_def row_context_new_def)
  from suspect_columns_refused [OF this, where x = sample and ks = "file_source sample" and show_error = "\<lambda>_. []", THEN conjunct1, rule_format, OF conjI [OF p conjI [OF _ conjI [OF n]]]]
  show ?thesis
    by (auto simp: sample_field_def sample_read_state_def row_context_new_def)
qed

end
