(* ===== verification/ArrayCodec.thy ===== *)
theory ArrayCodec
  imports Transform RowKeys Pgwire ProxyTypes
begin

text \<open>
  The codec behind \<open>col = ANY($n)\<close> (\<open>crates/proxy/src/encrypt/array.rs\<close>): a bound array is
  decoded in the format it arrived in, every element is replaced by its blind index, and the array
  is encoded again as \<open>bytea[]\<close>. The cursor \<open>at\<close> of the text scanner is the rest of the input.
\<close>

definition BYTEA_OID :: i32 where
  "BYTEA_OID = 17"

definition INDEXABLE_ELEMENT_OIDS :: "i32 list" where
  "INDEXABLE_ELEMENT_OIDS = [BYTEA_OID, 19, 25, 705, 1042, 1043]"

definition MAX_ARRAY_ELEMENTS :: nat where
  "MAX_ARRAY_ELEMENTS = 65536"

record bound_array =
  ba_elements :: "bytes option list"
  ba_lower_bound :: i32


section \<open>The binary format\<close>

definition take_i32 :: "bytes \<Rightarrow> (i32 \<times> bytes) option" where
  "take_i32 buf = (if length buf < 4 then None else Some (be_word (take 4 buf), drop 4 buf))"

definition take_element :: "bytes \<Rightarrow> (bytes option \<times> bytes) option" where
  "take_element raw =
     (case take_i32 raw of
        None \<Rightarrow> None
      | Some (sz, raw) \<Rightarrow>
          if sz = -1 then Some (None, raw)
          else if sint sz < 0 then None
          else if length raw < nat (sint sz) then None
          else Some (Some (take (nat (sint sz)) raw), drop (nat (sint sz)) raw))"

fun take_elements :: "nat \<Rightarrow> bytes \<Rightarrow> (bytes option list \<times> bytes) option" where
  "take_elements 0 raw = Some ([], raw)"
| "take_elements (Suc n) raw =
     (case take_element raw of
        None \<Rightarrow> None
      | Some (e, raw) \<Rightarrow> map_option (\<lambda>(es, raw). (e # es, raw)) (take_elements n raw))"

definition decode_binary_array :: "bytes \<Rightarrow> bound_array option" where
  "decode_binary_array raw =
     (case take_i32 raw of
        None \<Rightarrow> None
      | Some (ndim, raw) \<Rightarrow>
     (case take_i32 raw of
        None \<Rightarrow> None
      | Some (_, raw) \<Rightarrow>
     (case take_i32 raw of
        None \<Rightarrow> None
      | Some (element_oid, raw) \<Rightarrow>
          if element_oid \<notin> set INDEXABLE_ELEMENT_OIDS then None
          else if ndim = 0 then (if raw = [] then Some \<lparr>ba_elements = [], ba_lower_bound = 1\<rparr> else None)
          else if ndim \<noteq> 1 then None
          else
     (case take_i32 raw of
        None \<Rightarrow> None
      | Some (count, raw) \<Rightarrow>
     (case take_i32 raw of
        None \<Rightarrow> None
      | Some (lower_bound, raw) \<Rightarrow>
          if sint count < 0 \<or> nat (sint count) > MAX_ARRAY_ELEMENTS then None
          else
     (case take_elements (nat (sint count)) raw of
        None \<Rightarrow> None
      | Some (elements, raw) \<Rightarrow>
          if raw = [] then Some \<lparr>ba_elements = elements, ba_lower_bound = lower_bound\<rparr> else None))))))"

fun push_element :: "bytes option \<Rightarrow> bytes option" where
  "push_element None = Some (word_be 4 (-1 :: i32))"
| "push_element (Some token) =
     (if length token < 2 ^ 31 then Some (word_be 4 (of_nat (length token) :: i32) @ token) else None)"

fun push_elements :: "bytes option list \<Rightarrow> bytes option" where
  "push_elements [] = Some []"
| "push_elements (e # es) =
     (case push_element e of
        None \<Rightarrow> None
      | Some b \<Rightarrow> map_option (\<lambda>rest. b @ rest) (push_elements es))"

definition encode_binary_array :: "bytes option list \<Rightarrow> i32 \<Rightarrow> bytes option" where
  "encode_binary_array elements lower_bound =
     (if length elements \<ge> 2 ^ 31 then None
      else
        let header = word_be 4 (if elements = [] then 0 else 1 :: i32)
              @ word_be 4 (if None \<in> set elements then 1 else 0 :: i32) @ word_be 4 BYTEA_OID in
        if elements = [] then Some header
        else map_option (\<lambda>body. header @ word_be 4 (of_nat (length elements) :: i32) @ word_be 4 lower_bound @ body)
               (push_elements elements))"


section \<open>The text format\<close>

definition skip_whitespace :: "bytes \<Rightarrow> bytes" where
  "skip_whitespace raw = dropWhile is_ascii_whitespace raw"

fun quoted_body :: "bytes \<Rightarrow> (bytes \<times> bytes) option" where
  "quoted_body [] = None"
| "quoted_body (b # r) =
     (if b = 92 then (case r of [] \<Rightarrow> None | c # r' \<Rightarrow> map_option (\<lambda>(v, rest). (c # v, rest)) (quoted_body r'))
      else if b = 34 then Some ([], r)
      else map_option (\<lambda>(v, rest). (b # v, rest)) (quoted_body r))"

definition quoted_element :: "bytes \<Rightarrow> (rstr \<times> bytes) option" where
  "quoted_element raw =
     (case quoted_body (tl raw) of
        None \<Rightarrow> None
      | Some (value, rest) \<Rightarrow> if utf8_decode value = None then None else Some (value, rest))"

text \<open>
  \<open>escaped\<close> says that a byte was escaped, \<open>kept\<close> is the length through the last escaped one.
\<close>

fun unquoted_scan :: "bytes \<Rightarrow> bytes \<Rightarrow> bool \<Rightarrow> nat \<Rightarrow> (bytes \<times> bool \<times> nat \<times> bytes) option" where
  "unquoted_scan [] value escaped kept = Some (value, escaped, kept, [])"
| "unquoted_scan (b # r) value escaped kept =
     (if b = 44 then Some (value, escaped, kept, b # r)
      else if b = 92 then
        (case r of [] \<Rightarrow> None | c # r' \<Rightarrow> unquoted_scan r' (value @ [c]) True (length value + 1))
      else if b = 123 \<or> b = 125 then None
      else unquoted_scan r (value @ [b]) escaped kept)"

definition unquoted_element :: "bytes \<Rightarrow> (rstr option \<times> bytes) option" where
  "unquoted_element raw =
     (case unquoted_scan raw [] False 0 of
        None \<Rightarrow> None
      | Some (value, escaped, kept, rest) \<Rightarrow>
          let trailing = length (takeWhile is_ascii_whitespace (rev (drop kept value)));
              unquoted = take (length value - trailing) value in
          if utf8_decode unquoted = None then None
          else Some (if escaped \<or> map to_ascii_lowercase unquoted \<noteq> bs ''null'' then Some unquoted else None, rest))"

definition text_plaintext :: "externs \<Rightarrow> rstr \<Rightarrow> wire_form \<Rightarrow> bytes" where
  "text_plaintext x s wire =
     (case wire of
        Bytea \<Rightarrow>
          (case strip_prefix (bs [CHR 0x5C, CHR ''x'']) s of
             None \<Rightarrow> s
           | Some h \<Rightarrow> (case x_hex_decode x h of Some d \<Rightarrow> d | None \<Rightarrow> s))
      | TextForm \<Rightarrow> s)"

definition text_element :: "bytes \<Rightarrow> (rstr option \<times> bytes) option" where
  "text_element raw =
     (if raw \<noteq> [] \<and> hd raw = 34 then map_option (\<lambda>(v, rest). (Some v, rest)) (quoted_element raw)
      else unquoted_element raw)"


lemma quoted_body_shorter: "quoted_body r = Some (v, rest) \<Longrightarrow> length rest < length r"
  by (induction r arbitrary: v rest rule: quoted_body.induct) (fastforce split: if_splits list.splits)+

lemma unquoted_scan_shorter: "unquoted_scan r u e k = Some (v, e', k', rest) \<Longrightarrow> length rest \<le> length r"
  by (induction r u e k arbitrary: v e' k' rest rule: unquoted_scan.induct)
    (fastforce split: if_splits list.splits)+

lemma text_element_shorter: "text_element r = Some (e, rest) \<Longrightarrow> length rest \<le> length r"
  by (fastforce simp: text_element_def quoted_element_def unquoted_element_def Let_def
      split: if_splits option.splits dest!: quoted_body_shorter unquoted_scan_shorter)

lemma skip_whitespace_le [simp]: "length (skip_whitespace r) \<le> length r"
  by (simp add: skip_whitespace_def length_dropWhile_le)

function text_elements :: "externs \<Rightarrow> wire_form \<Rightarrow> bytes \<Rightarrow> bytes option list \<Rightarrow> bytes option list option" where
  "text_elements x wire raw elements =
     (case text_element (skip_whitespace raw) of
        None \<Rightarrow> None
      | Some (element, rest) \<Rightarrow>
          let elements = elements @ [map_option (\<lambda>s. text_plaintext x s wire) element] in
          if length elements > MAX_ARRAY_ELEMENTS then None
          else (case skip_whitespace rest of
                  [] \<Rightarrow> Some elements
                | b # r \<Rightarrow> if b = 44 then text_elements x wire r elements else None))"
  by pat_completeness auto
termination
proof (relation "measure (\<lambda>(x, wire, raw, elements). length raw)")
  fix raw element rest b r and p :: "rstr option \<times> bytes"
  assume e: "text_element (skip_whitespace raw) = Some p" "(element, rest) = p" and s: "skip_whitespace rest = b # r"
  have "length r < length (skip_whitespace rest)" using s by simp
  also have "\<dots> \<le> length rest" by simp
  also have "\<dots> \<le> length (skip_whitespace raw)" using e text_element_shorter by blast
  also have "\<dots> \<le> length raw" by simp
  finally show "((x, wire, r, elements'), (x, wire, raw, elements)) \<in> measure (\<lambda>(x, wire, raw, elements). length raw)"
    for x wire elements' elements by simp
qed simp

declare text_elements.simps [simp del]

definition decode_text_array :: "externs \<Rightarrow> bytes \<Rightarrow> wire_form \<Rightarrow> bound_array option" where
  "decode_text_array x raw wire =
     (case utf8_decode raw of
        None \<Rightarrow> None
      | Some cs \<Rightarrow>
     (case strip_prefix [123] (trim cs) of
        None \<Rightarrow> None
      | Some cs \<Rightarrow>
     (case strip_suffix [125] cs of
        None \<Rightarrow> None
      | Some body \<Rightarrow>
          if trim body = [] then Some \<lparr>ba_elements = [], ba_lower_bound = 1\<rparr>
          else map_option (\<lambda>es. \<lparr>ba_elements = es, ba_lower_bound = 1\<rparr>)
                 (text_elements x wire (utf8_encode body) []))))"

definition text_form_element :: "externs \<Rightarrow> bytes option \<Rightarrow> bytes" where
  "text_form_element x element =
     (case element of
        None \<Rightarrow> bs ''NULL''
      | Some token \<Rightarrow> [34, 92, 92, 120] @ x_hex_encode x token @ [34])"

fun text_form_elements :: "externs \<Rightarrow> nat \<Rightarrow> bytes option list \<Rightarrow> bytes" where
  "text_form_elements x position [] = []"
| "text_form_elements x position (e # es) =
     (if position > 0 then [44] else []) @ text_form_element x e @ text_form_elements x (position + 1) es"

definition encode_text_array :: "externs \<Rightarrow> bytes option list \<Rightarrow> bytes" where
  "encode_text_array x elements = [123] @ text_form_elements x 0 elements @ [125]"


section \<open>Indexing an array\<close>

fun index_elements :: "externs \<Rightarrow> 'k key_source \<Rightarrow> field_transform \<Rightarrow> bytes option list
    \<Rightarrow> ('k world, core_error, bytes option list option) comp" where
  "index_elements x ks t [] = comp_ret (Some [])"
| "index_elements x ks t (None # es) =
     comp_bind (index_elements x ks t es) (\<lambda>r. comp_ret (map_option (\<lambda>is. None # is) r))"
| "index_elements x ks t (Some plaintext # es) =
     comp_bind (tr_search_index x ks t plaintext) (\<lambda>token.
       case token of
         None \<Rightarrow> comp_ret None
       | Some token \<Rightarrow> comp_bind (index_elements x ks t es) (\<lambda>r. comp_ret (map_option (\<lambda>is. Some token # is) r)))"

definition index_array :: "externs \<Rightarrow> 'k key_source \<Rightarrow> bytes \<Rightarrow> bool \<Rightarrow> field_transform
    \<Rightarrow> ('k world, core_error, bytes option) comp" where
  "index_array x ks value binary t =
     (case (if binary then decode_binary_array value else decode_text_array x value (tr_wire t)) of
        None \<Rightarrow> comp_ret None
      | Some array \<Rightarrow>
          comp_bind (index_elements x ks t (ba_elements array)) (\<lambda>r. comp_ret (
            case r of
              None \<Rightarrow> None
            | Some indexed \<Rightarrow>
                if binary then encode_binary_array indexed (ba_lower_bound array)
                else Some (encode_text_array x indexed))))"


section \<open>Reading back what was encoded\<close>

lemma take_i32_word_be [simp]: "take_i32 (word_be 4 w @ r) = Some (w, r)"
  by (simp add: take_i32_def)

lemma take_element_nullable: "take_element b = (case take_nullable b of Ok r \<Rightarrow> Some r | Err _ \<Rightarrow> None)"
  by (auto simp: take_element_def take_i32_def take_nullable_def take_bytes_def split_at_checked_def Let_def)

lemma push_element_nullable: "push_element e = (case push_nullable e of Ok b \<Rightarrow> Some b | Err _ \<Rightarrow> None)"
  by (cases e) simp_all

interpretation element: prefix_codec "\<lambda>e. ok_or (push_element e) ()" "\<lambda>b. ok_or (take_element b) ()"
proof
  fix e b rest
  assume "ok_or (push_element e) () = Ok b"
  then have "push_nullable e = Ok b" by (simp add: push_element_nullable ok_or_eq_Ok split: sum.splits)
  then have "take_nullable (b @ rest) = Ok (e, rest)" by (rule nullable.take_push)
  then show "ok_or (take_element (b @ rest)) () = Ok (e, rest)" by (simp add: take_element_nullable)
next
  fix b e rest
  assume "ok_or (take_element b) () = Ok (e, rest)"
  then have "take_nullable b = Ok (e, rest)" by (simp add: take_element_nullable ok_or_eq_Ok split: sum.splits)
  then obtain p where "push_nullable e = Ok p" "b = p @ rest" using nullable.push_take by blast
  then show "\<exists>p. ok_or (push_element e) () = Ok p \<and> b = p @ rest" by (simp add: push_element_nullable)
qed

lemma push_elements_all: "ok_or (push_elements es) () = push_all (\<lambda>e. ok_or (push_element e) ()) es"
  by (induction es) (auto simp: ok_or_def res_bind_def split: option.splits sum.splits)

lemma take_elements_n: "ok_or (take_elements n b) () = take_n (\<lambda>b. ok_or (take_element b) ()) n b"
proof (induction n arbitrary: b)
  case 0
  then show ?case by simp
next
  case (Suc n)
  show ?case
    by (cases "take_element b"; cases "take_elements n (snd (the (take_element b)))") (auto simp: Suc [symmetric])
qed

lemma take_push_elements: "push_elements es = Some b \<Longrightarrow> take_elements (length es) b = Some (es, [])"
  using element.take_n_push_all [of es b "[]"]
  by (simp add: push_elements_all [symmetric] take_elements_n [symmetric] ok_or_eq_Ok)

lemma decode_encode_binary:
  assumes "encode_binary_array es lb = Some b" and "length es \<le> MAX_ARRAY_ELEMENTS"
  shows "decode_binary_array b = Some \<lparr>ba_elements = es, ba_lower_bound = (if es = [] then 1 else lb)\<rparr>"
proof (cases "es = []")
  case True
  then show ?thesis using assms
    by (auto simp: encode_binary_array_def decode_binary_array_def INDEXABLE_ELEMENT_OIDS_def Let_def
        take_i32_word_be [of _ "[]", simplified])
next
  case False
  then obtain body where body: "push_elements es = Some body"
    "b = word_be 4 (1 :: i32) @ word_be 4 (if None \<in> set es then 1 else 0 :: i32) @ word_be 4 BYTEA_OID
      @ word_be 4 (of_nat (length es) :: i32) @ word_be 4 lb @ body"
    using assms(1) by (auto simp: encode_binary_array_def Let_def split: if_splits)
  have "length es < 2 ^ (LENGTH(32) - 1)" using assms(2) by (simp add: MAX_ARRAY_ELEMENTS_def)
  then have len: "sint (of_nat (length es) :: i32) = int (length es)" by (rule sint_of_small)
  show ?thesis
    using assms(2) False unfolding body(2)
    by (simp add: decode_binary_array_def INDEXABLE_ELEMENT_OIDS_def len take_push_elements [OF body(1)])
qed


definition form_byte :: "byte \<Rightarrow> bool" where
  "form_byte b \<longleftrightarrow> unat b < 128 \<and> \<not> is_whitespace_char (unat b) \<and> \<not> is_ascii_whitespace b"

lemma push_hex_byte: "b \<in> set (push_hex token) \<Longrightarrow> form_byte b \<and> b \<noteq> 92 \<and> b \<noteq> 34"
proof -
  assume "b \<in> set (push_hex token)"
  then have "lower_hex b" using lower_hex_push_hex by blast
  moreover from this have "unat b \<noteq> unat (92 :: byte)" "unat b \<noteq> unat (34 :: byte)" by (auto simp: lower_hex_def)
  ultimately show "form_byte b \<and> b \<noteq> 92 \<and> b \<noteq> 34"
    by (auto simp: lower_hex_char form_byte_def is_ascii_whitespace_def lower_hex_def is_whitespace_char_def)
qed

lemma quoted_body_plain: "92 \<notin> set v \<Longrightarrow> 34 \<notin> set v \<Longrightarrow> quoted_body (v @ 34 # rest) = Some (v, rest)"
  by (induction v) auto

lemma utf8_form: "\<forall>b \<in> set v. form_byte b \<Longrightarrow> utf8_decode v = Some (map unat v)"
  by (rule utf8_decode_ascii) (simp add: form_byte_def)

definition ends_element :: "bytes \<Rightarrow> bool" where
  "ends_element rest \<longleftrightarrow> rest = [] \<or> hd rest = 44"

lemma text_element_form:
  assumes "hex_encode_ok x" and "ends_element rest"
  shows "text_element (text_form_element x e @ rest) =
    Some (map_option (\<lambda>token. bs [CHR 0x5C, CHR ''x''] @ x_hex_encode x token) e, rest)"
proof (cases e)
  case None
  have "unquoted_scan (bs ''NULL'' @ rest) [] False 0 = Some (bs ''NULL'', False, 0, rest)"
    using assms(2) by (cases rest) (auto simp: bs_def ends_element_def)
  moreover have "utf8_decode (bs ''NULL'') \<noteq> None"
    "takeWhile is_ascii_whitespace (rev (bs ''NULL'')) = []" "map to_ascii_lowercase (bs ''NULL'') = bs ''null''"
    by code_simp+
  ultimately show ?thesis
    by (simp add: None text_form_element_def text_element_def unquoted_element_def Let_def) (simp add: bs_def)
next
  case (Some token)
  let ?h = "x_hex_encode x token"
  have h: "?h = push_hex token" using assms(1) by (simp add: hex_encode_ok_def)
  have "quoted_body (?h @ 34 # rest) = Some (?h, rest)"
    by (rule quoted_body_plain) (use push_hex_byte [of _ token] in \<open>auto simp: h\<close>)
  then have "quoted_body (92 # 92 # 120 # ?h @ 34 # rest) = Some (92 # 120 # ?h, rest)"
    by simp
  moreover have "utf8_decode (92 # 120 # ?h) \<noteq> None"
    using push_hex_byte [of _ token] utf8_form [of "92 # 120 # ?h"] by (auto simp: h form_byte_def is_whitespace_char_def is_ascii_whitespace_def)
  ultimately show ?thesis
    by (simp add: Some text_form_element_def text_element_def quoted_element_def bs_def)
qed

lemma text_plaintext_form: "hex_encode_ok x \<Longrightarrow> hex_decode_ok x \<Longrightarrow>
    text_plaintext x (bs [CHR 0x5C, CHR ''x''] @ x_hex_encode x token) Bytea = token"
  by (simp add: text_plaintext_def hex_encode_ok_def hex_decode_ok_def)

lemma skip_whitespace_form: "skip_whitespace (text_form_element x e @ rest) = text_form_element x e @ rest"
  by (cases e) (simp_all add: skip_whitespace_def text_form_element_def bs_def is_ascii_whitespace_def)

lemma ends_element_form: "position > 0 \<Longrightarrow> ends_element (text_form_elements x position es)"
  by (cases es) (simp_all add: ends_element_def)

lemma text_elements_form:
  assumes "hex_encode_ok x" and "hex_decode_ok x" and "es \<noteq> []" and "length acc + length es \<le> MAX_ARRAY_ELEMENTS"
  shows "text_elements x Bytea (text_form_elements x 0 es) acc = Some (acc @ es)"
  using assms(3,4)
proof (induction es arbitrary: acc)
  case Nil
  then show ?case by simp
next
  case (Cons e es)
  have el: "map_option (\<lambda>s. text_plaintext x s Bytea) (map_option (\<lambda>token. bs [CHR 0x5C, CHR ''x''] @ x_hex_encode x token) e) = e"
    by (cases e) (simp_all add: text_plaintext_form [OF assms(1,2)])
  have te: "text_element (skip_whitespace (text_form_elements x 0 (e # es))) =
      Some (map_option (\<lambda>token. bs [CHR 0x5C, CHR ''x''] @ x_hex_encode x token) e, text_form_elements x 1 es)"
    using text_element_form [OF assms(1) ends_element_form [of 1 x es]] by (simp add: skip_whitespace_form)
  show ?case
  proof (cases es)
    case Nil
    then show ?thesis using Cons.prems te by (subst text_elements.simps) (simp add: el skip_whitespace_def Let_def)
  next
    case (Cons f fs)
    have "text_form_elements x (Suc n) (f # fs) = 44 # text_form_elements x 0 (f # fs)" for n
    proof -
      have "text_form_elements x (Suc m) gs = text_form_elements x (Suc k) gs" for m k gs
        by (induction gs arbitrary: m k) auto
      then show ?thesis by simp
    qed
    then show ?thesis using Cons.prems te Cons.IH Cons
      by (subst text_elements.simps) (simp add: el skip_whitespace_def Let_def is_ascii_whitespace_def)
  qed
qed


lemma text_form_bytes:
  assumes "hex_encode_ok x"
  shows "b \<in> set (text_form_elements x n es) \<Longrightarrow> form_byte b"
proof (induction es arbitrary: n)
  case Nil
  then show ?case by simp
next
  case (Cons e es)
  have "form_byte b" if "b \<in> set (text_form_element x e)"
    using that push_hex_byte [of b] assms
    by (cases e) (auto simp: text_form_element_def bs_def form_byte_def is_whitespace_char_def is_ascii_whitespace_def hex_encode_ok_def)
  moreover have "form_byte 44" by (simp add: form_byte_def is_whitespace_char_def is_ascii_whitespace_def)
  ultimately show ?case using Cons by (auto split: if_splits)
qed

lemma decode_encode_text:
  assumes "hex_encode_ok x" and "hex_decode_ok x" and "length es \<le> MAX_ARRAY_ELEMENTS"
  shows "decode_text_array x (encode_text_array x es) Bytea = Some \<lparr>ba_elements = es, ba_lower_bound = 1\<rparr>"
proof -
  let ?f = "text_form_elements x 0 es"
  have f: "\<forall>b \<in> set ?f. form_byte b" using text_form_bytes [OF assms(1)] by blast
  have all: "\<forall>b \<in> set (encode_text_array x es). form_byte b"
    using f by (auto simp: encode_text_array_def form_byte_def is_whitespace_char_def is_ascii_whitespace_def)
  have t1: "trim (map unat (encode_text_array x es)) = map unat (encode_text_array x es)"
    by (rule trim_no_ws) (use all in \<open>auto simp: form_byte_def\<close>)
  have t2: "trim (map unat ?f) = map unat ?f"
    by (rule trim_no_ws) (use f in \<open>auto simp: form_byte_def\<close>)
  have enc: "utf8_encode (map unat ?f) = ?f"
    by (subst utf8_encode_ascii) (use f in \<open>auto simp: form_byte_def o_def\<close>)
  have sp: "strip_prefix [123] (map unat (encode_text_array x es)) = Some (map unat ?f @ [125])"
    by (simp add: encode_text_array_def strip_prefix_def starts_with_def)
  have "es \<noteq> [] \<Longrightarrow> ?f \<noteq> []" by (cases es) (auto simp: text_form_element_def bs_def split: option.splits)
  moreover have "es \<noteq> [] \<Longrightarrow> text_elements x Bytea ?f [] = Some es"
    using text_elements_form [OF assms(1,2), of es "[]"] assms(3) by simp
  moreover have "decode_text_array x (encode_text_array x es) Bytea = (if ?f = [] then Some \<lparr>ba_elements = [], ba_lower_bound = 1\<rparr>
      else map_option (\<lambda>es. \<lparr>ba_elements = es, ba_lower_bound = 1\<rparr>) (text_elements x Bytea ?f []))"
    by (simp add: decode_text_array_def utf8_form [OF all] t1 t2 sp enc)
  ultimately show ?thesis by (cases "es = []") simp_all
qed


section \<open>Indexed elements\<close>

text \<open>The key a transform's blind index is computed with.\<close>

fun tr_index_key :: "(rstr \<Rightarrow> key option) \<Rightarrow> field_transform \<Rightarrow> key option" where
  "tr_index_key ikey (EncryptT t) = (case et_index_key_name t of None \<Rightarrow> None | Some name \<Rightarrow> ikey name)"
| "tr_index_key ikey (FpeT t) = None"
| "tr_index_key ikey (TokenT t) = None"

context key_source_laws
begin

lemma search_index_inv:
  assumes "world_inv ok dek ikey nm w" and "tr_wf nm t" and "tr_search_index x ks t pt w = (r, v)"
  shows "world_inv ok dek ikey nm v \<and> (\<forall>i. r = Ok i \<longrightarrow> i = map_option (\<lambda>k. compute x k pt) (tr_index_key ikey t))"
proof (cases t)
  case (EncryptT e)
  have b: "blind_index x ks e pt w = (r, v)" and wf: "tr_wf nm (EncryptT e)" using assms(2,3) EncryptT by simp_all
  have "i = map_option (\<lambda>k. compute x k pt) (tr_index_key ikey t)" if "r = Ok i" for i
    using blind_index_inv(2) [OF assms(1) wf b that] by (cases "et_index_key_name e") (simp_all add: EncryptT)
  then show ?thesis using blind_index_inv(1) [OF assms(1) wf b] by blast
qed (use assms in auto)

lemma index_elements_inv:
  assumes "world_inv ok dek ikey nm w" and "tr_wf nm t" and "index_elements x ks t es w = (r, v)"
  shows "world_inv ok dek ikey nm v \<and> (\<forall>is. r = Ok (Some is) \<longrightarrow>
    is = map (map_option (\<lambda>pt. compute x (the (tr_index_key ikey t)) pt)) es \<and> (set es \<subseteq> {None} \<or> tr_index_key ikey t \<noteq> None))"
  using assms(1,3)
proof (induction es arbitrary: w r v)
  case Nil
  then show ?case by auto
next
  case (Cons e es)
  show ?case
  proof (cases e)
    case None
    with Cons.prems(2) have "comp_bind (index_elements x ks t es) (\<lambda>r. comp_ret (map_option (\<lambda>is. None # is) r)) w = (r, v)" by simp
    then show ?thesis
    proof (cases rule: comp_bindE)
      case (err er)
      then show ?thesis using Cons.IH [OF Cons.prems(1) err(1)] by simp
    next
      case (ok q u)
      then show ?thesis using Cons.IH [OF Cons.prems(1) ok(1)] None by auto
    qed
  next
    case (Some pt)
    with Cons.prems(2) have "comp_bind (tr_search_index x ks t pt) (\<lambda>token.
       case token of
         None \<Rightarrow> comp_ret None
       | Some token \<Rightarrow> comp_bind (index_elements x ks t es) (\<lambda>r. comp_ret (map_option (\<lambda>is. Some token # is) r))) w = (r, v)" by simp
    then show ?thesis
    proof (cases rule: comp_bindE)
      case (err er)
      then show ?thesis using search_index_inv [OF Cons.prems(1) assms(2) err(1)] by simp
    next
      case (ok token u)
      note si = search_index_inv [OF Cons.prems(1) assms(2) ok(1)]
      show ?thesis
      proof (cases token)
        case None
        then show ?thesis using ok(2) si by auto
      next
        case (Some tok)
        have u: "world_inv ok dek ikey nm u" and tok: "map_option (\<lambda>k. compute x k pt) (tr_index_key ikey t) = Some tok"
          using si Some by auto
        from Some have "comp_bind (index_elements x ks t es) (\<lambda>r. comp_ret (map_option (\<lambda>is. Some tok # is) r)) u = (r, v)"
          using ok(2) by simp
        then show ?thesis
        proof (cases rule: comp_bindE)
          case (err er)
          then show ?thesis using Cons.IH [OF u err(1)] by simp
        next
          case (ok q u')
          then show ?thesis using Cons.IH [OF u ok(1)] tok \<open>e = Some pt\<close> by auto
        qed
      qed
    qed
  qed
qed

end

context available_source
begin

lemma search_index_available:
  assumes "world_inv ok dek ikey nm w" and "tr_wf nm t" and "tr_index_key ikey t = Some k"
  shows "\<exists>v. tr_search_index x ks t pt w = (Ok (Some (compute x k pt)), v) \<and> world_inv ok dek ikey nm v"
proof (cases t)
  case (EncryptT e)
  then obtain name where name: "et_index_key_name e = Some name" "ikey name = Some k" "nm (et_cell e) = name"
    using assms(2,3) by (auto split: option.splits)
  obtain v where "once_key ks name (et_cell e) w = (Ok k, v)" using once_key_available [OF assms(1) name(3,2)] by blast
  then have "tr_search_index x ks t pt w = (Ok (Some (compute x k pt)), v)"
    by (simp add: EncryptT blind_index_def index_key_def name comp_bind_def)
  then show ?thesis using search_index_inv [OF assms(1,2)] by blast
qed (use assms in simp_all)

lemma index_elements_available:
  assumes "world_inv ok dek ikey nm w" and "tr_wf nm t" and "tr_index_key ikey t = Some k"
  shows "\<exists>v. index_elements x ks t es w = (Ok (Some (map (map_option (compute x k)) es)), v)"
  using assms(1)
proof (induction es arbitrary: w)
  case Nil
  then show ?case by simp
next
  case (Cons e es)
  show ?case
  proof (cases e)
    case None
    then show ?thesis using Cons.IH [OF Cons.prems] by (auto simp: comp_bind_def)
  next
    case (Some pt)
    obtain u where "tr_search_index x ks t pt w = (Ok (Some (compute x k pt)), u)" "world_inv ok dek ikey nm u"
      using search_index_available [OF Cons.prems assms(2,3)] by blast
    then show ?thesis using Cons.IH [of u] Some by (auto simp: comp_bind_def)
  qed
qed

end

section \<open>Properties\<close>

lemma take_elements_length: "take_elements n raw = Some (es, rest) \<Longrightarrow> length es = n"
  by (induction n arbitrary: raw es rest) (auto split: option.splits)

lemma decode_binary_length: "decode_binary_array raw = Some a \<Longrightarrow> length (ba_elements a) \<le> MAX_ARRAY_ELEMENTS"
  by (auto simp: decode_binary_array_def split: option.splits if_splits dest!: take_elements_length)

lemma text_elements_length: "text_elements x wire raw acc = Some es \<Longrightarrow> length es \<le> MAX_ARRAY_ELEMENTS"
proof (induction x wire raw acc rule: text_elements.induct)
  case (1 x wire raw acc)
  show ?case
  proof (cases "text_element (skip_whitespace raw)")
    case None
    then show ?thesis using "1.prems" by (subst (asm) text_elements.simps) simp
  next
    case (Some p)
    obtain element rest where p: "p = (element, rest)" by force
    let ?acc = "acc @ [map_option (\<lambda>s. text_plaintext x s wire) element]"
    have run: "(if length ?acc > MAX_ARRAY_ELEMENTS then None
        else case skip_whitespace rest of [] \<Rightarrow> Some ?acc | b # r \<Rightarrow> if b = 44 then text_elements x wire r ?acc else None) = Some es"
      using "1.prems" Some p by (subst (asm) text_elements.simps) (simp add: Let_def)
    then have le: "\<not> length ?acc > MAX_ARRAY_ELEMENTS" by (auto split: if_splits)
    show ?thesis
    proof (cases "skip_whitespace rest")
      case Nil
      then show ?thesis using run le by auto
    next
      case (Cons b r)
      then have "b = 44" "text_elements x wire r ?acc = Some es" using run le by (simp_all split: if_splits)
      then show ?thesis using "1.IH" [OF Some p [symmetric] refl le Cons] by blast
    qed
  qed
qed

lemma decode_text_length: "decode_text_array x raw wire = Some a \<Longrightarrow> length (ba_elements a) \<le> MAX_ARRAY_ELEMENTS"
  by (auto simp: decode_text_array_def split: option.splits if_splits dest!: text_elements_length)

definition decode_array :: "externs \<Rightarrow> bool \<Rightarrow> bytes \<Rightarrow> wire_form \<Rightarrow> bound_array option" where
  "decode_array x binary raw wire = (if binary then decode_binary_array raw else decode_text_array x raw wire)"

lemma push_elements_available:
  "\<forall>t. Some t \<in> set es \<longrightarrow> length t < 2 ^ 31 \<Longrightarrow> push_elements es \<noteq> None"
proof (induction es)
  case Nil
  then show ?case by simp
next
  case (Cons e es)
  then show ?case by (cases e) auto
qed

lemma encode_array_available:
  assumes "hex_encode_ok x" and "hex_decode_ok x" and "length es \<le> MAX_ARRAY_ELEMENTS" and "\<forall>t. Some t \<in> set es \<longrightarrow> length t < 2 ^ 31"
  shows "\<exists>out a. (if binary then encode_binary_array es lb else Some (encode_text_array x es)) = Some out
    \<and> decode_array x binary out Bytea = Some a \<and> ba_elements a = es \<and> (binary \<and> es \<noteq> [] \<longrightarrow> ba_lower_bound a = lb)"
proof (cases binary)
  case True
  obtain out where "encode_binary_array es lb = Some out"
    using push_elements_available [OF assms(4)] assms(3)
    by (cases "es = []") (auto simp: encode_binary_array_def Let_def MAX_ARRAY_ELEMENTS_def)
  then show ?thesis using decode_encode_binary [of es lb out] assms(3) True by (auto simp: decode_array_def)
next
  case False
  then show ?thesis using decode_encode_text [OF assms(1-3)] by (simp add: decode_array_def)
qed



end
