(* ===== verification/Unprotected.thy ===== *)
theory Unprotected
  imports Refusal
begin

text \<open>
  The sites the proxy cannot protect and what it tells the client about them
  (\<open>crates/proxy/src/encrypt/unprotected.rs\<close>), and the one decision every site goes through
  (\<open>QueryRewriter::unprotected\<close> in \<open>encrypt/mod.rs\<close>). A table name is its rendered text, and a
  parser error keeps the variants the source tells apart. The warnings go to the log, which is not
  part of the model.
\<close>

datatype parser_error =
    TokenizerError rstr
  | ParserError rstr
  | RecursionLimitExceeded

datatype (plugins only: code size) unprotected_site =
    NonUtf8
  | Unparseable parser_error
  | NoColumnList rstr
  | InsertFromSelect rstr
  | Copy rstr bool
  | CopyQuery rstr
  | Unsupported rstr rstr
  | AmbiguousLiteral rstr
  | UnsupportedValue rstr rstr
  | ComputedColumn rstr rstr
  | RowKeyMissingAt rstr rstr rstr
  | RowKeyReassigned rstr rstr
  | Predicate rstr rstr
  | AmbiguousColumn rstr rstr
  | UnindexedPredicate rstr rstr
  | SearchPathChanged
  | EscapeStringsChanged
  | SearchPath rstr

primrec parser_error_kind :: "parser_error \<Rightarrow> rstr" where
  "parser_error_kind (TokenizerError _) = bs ''tokenizer''"
| "parser_error_kind (ParserError _) = bs ''parser''"
| "parser_error_kind RecursionLimitExceeded = bs ''recursion limit''"

primrec detail :: "unprotected_site \<Rightarrow> rstr" where
  "detail NonUtf8 = bs ''the query is not valid UTF-8, so protected columns cannot be found in it''"
| "detail (Unparseable error) =
     bs ''the SQL could not be parsed ('' @ parser_error_kind error
     @ bs ''), so protected columns cannot be found in it''"
| "detail (NoColumnList table) =
     bs ''INSERT into protected table '' @ table @ bs '' needs an explicit column list''"
| "detail (InsertFromSelect table) =
     bs ''INSERT ... SELECT into protected table '' @ table @ bs '' cannot be encrypted''"
| "detail (Copy table to) =
     bs ''COPY '' @ (if to then bs ''from'' else bs ''into'') @ bs '' protected table '' @ table
     @ bs '' bypasses the proxy's encryption and masking''"
| "detail (CopyQuery table) =
     bs ''COPY of a query reading protected table '' @ table
     @ bs '' returns its rows as CopyData, which cannot be decrypted or masked; run the query as an ordinary SELECT instead''"
| "detail (Unsupported table shape) =
     shape @ bs '' writing protected table '' @ table @ bs '' cannot be encrypted''"
| "detail (AmbiguousLiteral column) =
     bs ''a value for protected column '' @ column
     @ bs '' contains a backslash and this session turned standard_conforming_strings off, so the proxy cannot read it the way the server will''"
| "detail (UnsupportedValue column shape) =
     bs ''protected column '' @ column @ bs '' was assigned a '' @ shape @ bs '', which cannot be encrypted''"
| "detail (ComputedColumn column shape) =
     bs ''protected column '' @ column @ bs '' was projected through a '' @ shape
     @ bs ''; the result carries no table identity, so it cannot be decrypted or masked and would be returned in its stored form; select the column directly instead''"
| "detail (RowKeyMissingAt table column shape) =
     table @ bs '' binds its encrypted values to the row key '' @ column @ bs '', but this is a '' @ shape
     @ bs ''; the statement must supply '' @ column @ bs '' as a literal or a parameter''"
| "detail (RowKeyReassigned table column) =
     table @ bs '' binds its encrypted values to the row key '' @ column @ bs '', and this statement assigns '' @ column
     @ bs '' itself, so the value would be sealed against a row it does not land in; change '' @ column
     @ bs '' in a statement that writes no protected column of '' @ table"
| "detail (Predicate column shape) =
     bs ''searchable column '' @ column @ bs '' was used in a '' @ shape
     @ bs '', which cannot be matched against its blind index''"
| "detail (AmbiguousColumn column shape) =
     bs ''column '' @ column @ bs '' in a '' @ shape
     @ bs '' matches a protected column in more than one relation in scope, so it cannot be resolved to one and the comparison would match no rows; qualify it with its table or alias''"
| "detail (UnindexedPredicate column shape) =
     bs ''protected column '' @ column @ bs '' was used in a '' @ shape
     @ bs '', but it has no equality index, so the comparison would match no rows; set searchable = true on this column to make equality searchable''"
| "detail SearchPathChanged =
     bs ''changing search_path leaves unqualified names resolving to an unknown schema''"
| "detail EscapeStringsChanged =
     bs ''turning standard_conforming_strings off changes what a backslash in a string literal means, so a value bound to a protected column can no longer be read the way the server would read it''"
| "detail (SearchPath table) =
     table @ bs '' is unqualified and this session changed search_path, so it cannot be resolved to a protected table''"

definition message :: "unprotected_site \<Rightarrow> rstr" where
  "message site =
     bs ''dbsec refused this statement: '' @ detail site @ bs '' (on_unprotected = '' @ [34] @ bs ''reject'' @ [34] @ bs '')''"

text \<open>The decision: let the site through, or refuse the statement.\<close>

definition unprotected :: "on_unprotected \<Rightarrow> unprotected_site \<Rightarrow> rstr rejection + unit" where
  "unprotected mode site = (case mode of Warn \<Rightarrow> Ok () | Reject \<Rightarrow> Err (Refused (message site)))"

end
