(* ===== verification/Lexer.thy ===== *)
theory Lexer
  imports Unprotected
begin

text \<open>
  Splitting one SQL text into its statements and putting it back together
  (\<open>crates/proxy/src/encrypt/lexer.rs\<close>). Positions are byte indices, as in the source; slicing a
  \<open>str\<close> off a character boundary panics, which is the result \<open>Panic\<close>. The SQL parser is the
  argument \<open>sp\<close>: its tokenizer, its two entry points and the rendering of a statement.
\<close>

datatype 'a run =
    Panic
  | Done 'a

record ('tok, 'stmt) sqlparser =
  sp_tokenize :: "rstr \<Rightarrow> parser_error + 'tok list"
  sp_parse_statements :: "'tok list \<Rightarrow> parser_error + 'stmt list"
  sp_parse_sql :: "rstr \<Rightarrow> parser_error + 'stmt list"
  sp_to_string :: "'stmt \<Rightarrow> rstr"


section \<open>Skipping\<close>

definition is_ident_byte :: "byte \<Rightarrow> bool" where
  "is_ident_byte b \<longleftrightarrow> is_ascii_alphanumeric b \<or> b = 95"

function quoted_end :: "bytes \<Rightarrow> byte \<Rightarrow> bool \<Rightarrow> nat \<Rightarrow> nat option" where
  "quoted_end bytes quote backslash_escapes at =
     (if at < length bytes then
        if bytes ! at = 92 \<and> backslash_escapes then quoted_end bytes quote backslash_escapes (at + 2)
        else if bytes ! at = quote then
          if at + 1 < length bytes \<and> bytes ! (at + 1) = quote then quoted_end bytes quote backslash_escapes (at + 2)
          else Some (at + 1)
        else quoted_end bytes quote backslash_escapes (at + 1)
      else None)"
  by pat_completeness auto
termination
  by (relation "measure (\<lambda>(bytes, quote, esc, at). length bytes - at)") auto

declare quoted_end.simps [simp del]

definition skip_quoted :: "bytes \<Rightarrow> nat \<Rightarrow> nat option" where
  "skip_quoted bytes start =
     (let quote = bytes ! start;
          backslash_escapes = (quote = 39 \<and> start > 0 \<and> bytes ! (start - 1) \<in> {101, 69}
            \<and> (start = 1 \<or> \<not> is_ident_byte (bytes ! (start - 2)))) in
      quoted_end bytes quote backslash_escapes (start + 1))"

definition is_dollar_tag :: "bytes \<Rightarrow> bool" where
  "is_dollar_tag tag =
     (case tag of
        [] \<Rightarrow> True
      | first # _ \<Rightarrow> \<not> is_ascii_digit first \<and> list_all (\<lambda>b. is_ident_byte b \<or> 128 \<le> unat b) tag)"

function tag_close :: "bytes \<Rightarrow> bytes \<Rightarrow> nat \<Rightarrow> nat option" where
  "tag_close bytes tag at =
     (if at + length tag \<le> length bytes \<and> tag \<noteq> [] then
        if take (length tag) (drop at bytes) = tag then Some (at + length tag) else tag_close bytes tag (at + 1)
      else None)"
  by pat_completeness auto
termination
  by (relation "measure (\<lambda>(bytes, tag, at). length bytes - at)") (auto simp: less_diff_conv2 neq_Nil_conv)

declare tag_close.simps [simp del]

text \<open>
  The tag includes both dollars, so it is never empty; the guard of \<open>tag_close\<close> only makes the loop
  end for every argument.
\<close>

definition skip_dollar_quoted :: "bytes \<Rightarrow> nat \<Rightarrow> nat option" where
  "skip_dollar_quoted bytes start =
     (let tag = takeWhile (\<lambda>b. b \<noteq> 36) (drop (start + 1) bytes);
          tag_end = start + 1 + length tag in
      if tag_end < length bytes \<and> is_dollar_tag tag
      then tag_close bytes ([36] @ tag @ [36]) (tag_end + 1)
      else Some (start + 1))"

function comment_end :: "bytes \<Rightarrow> nat \<Rightarrow> nat \<Rightarrow> nat option" where
  "comment_end bytes depth at =
     (if at + 1 < length bytes then
        if bytes ! at = 47 \<and> bytes ! (at + 1) = 42 then comment_end bytes (depth + 1) (at + 2)
        else if bytes ! at = 42 \<and> bytes ! (at + 1) = 47 then
          if depth - 1 = 0 then Some (at + 2) else comment_end bytes (depth - 1) (at + 2)
        else comment_end bytes depth (at + 1)
      else None)"
  by pat_completeness auto
termination
  by (relation "measure (\<lambda>(bytes, depth, at). length bytes - at)") auto

declare comment_end.simps [simp del]

text \<open>Called on a comment's opening \<open>/*\<close>, so the depth is at least 1 whenever it is decremented.\<close>

definition skip_block_comment :: "bytes \<Rightarrow> nat \<Rightarrow> nat option" where
  "skip_block_comment bytes start = comment_end bytes 0 start"

definition line_end :: "bytes \<Rightarrow> nat \<Rightarrow> nat" where
  "line_end bytes at = at + length (takeWhile (\<lambda>b. b \<noteq> 10) (drop at bytes))"


section \<open>Every skip moves forward\<close>

lemma quoted_end_greater: "quoted_end bytes q e at = Some at' \<Longrightarrow> at < at' \<and> at' \<le> length bytes"
proof (induction bytes q e at rule: quoted_end.induct)
  case (1 bytes q e at)
  then show ?case
    by (subst (asm) quoted_end.simps) (auto split: if_splits)
qed

lemma tag_close_greater: "tag_close bytes tag at = Some at' \<Longrightarrow> at < at' \<and> at' \<le> length bytes"
proof (induction bytes tag at rule: tag_close.induct)
  case (1 bytes tag at)
  then show ?case
    by (subst (asm) tag_close.simps) (auto split: if_splits)
qed

lemma comment_end_greater: "comment_end bytes d at = Some at' \<Longrightarrow> at < at' \<and> at' \<le> length bytes"
proof (induction bytes d at rule: comment_end.induct)
  case (1 bytes d at)
  then show ?case
    by (subst (asm) comment_end.simps) (auto split: if_splits)
qed

lemma line_end_greater: "at < length bytes \<Longrightarrow> bytes ! at \<noteq> 10 \<Longrightarrow> at < line_end bytes at \<and> line_end bytes at \<le> length bytes"
proof -
  assume at: "at < length bytes" "bytes ! at \<noteq> 10"
  have "drop at bytes = bytes ! at # drop (Suc at) bytes" using at by (simp add: Cons_nth_drop_Suc)
  moreover have "length (takeWhile (\<lambda>b. b \<noteq> 10) (drop at bytes)) \<le> length (drop at bytes)" by (rule length_takeWhile_le)
  ultimately show ?thesis using at by (auto simp: line_end_def)
qed

definition skip :: "bytes \<Rightarrow> nat \<Rightarrow> nat option" where
  "skip bytes at =
     (let b = bytes ! at; following = (if at + 1 < length bytes then Some (bytes ! (at + 1)) else None) in
      if b = 39 \<or> b = 34 then skip_quoted bytes at
      else if b = 36 then skip_dollar_quoted bytes at
      else if b = 45 \<and> following = Some 45 then Some (line_end bytes at)
      else if b = 47 \<and> following = Some 42 then skip_block_comment bytes at
      else Some (at + 1))"

lemma skip_greater: "at < length bytes \<Longrightarrow> skip bytes at = Some at' \<Longrightarrow> at < at' \<and> at' \<le> length bytes"
  by (auto simp: skip_def skip_quoted_def skip_dollar_quoted_def skip_block_comment_def Let_def line_end_greater
      dest!: quoted_end_greater tag_close_greater comment_end_greater split: if_splits)


section \<open>Statement ranges\<close>

definition slice :: "rstr \<Rightarrow> nat \<Rightarrow> nat \<Rightarrow> rstr run" where
  "slice v a b =
     (if a \<le> b \<and> is_char_boundary v a \<and> is_char_boundary v b then Done (take (b - a) (drop a v)) else Panic)"

definition push_statement :: "(nat \<times> nat) list \<Rightarrow> rstr \<Rightarrow> nat \<Rightarrow> nat \<Rightarrow> (nat \<times> nat) list run" where
  "push_statement ranges sql a b =
     (case slice sql a b of
        Panic \<Rightarrow> Panic
      | Done s \<Rightarrow>
          (case utf8_decode s of
             None \<Rightarrow> Panic
           | Some cs \<Rightarrow>
               if trim cs = [] then Done ranges
               else let start = a + (length s - length (utf8_encode (trim_start cs))) in
                    Done (ranges @ [(start, start + length (utf8_encode (trim cs)))])))"

function split_statements :: "rstr \<Rightarrow> (nat \<times> nat) list \<Rightarrow> nat \<Rightarrow> nat \<Rightarrow> (nat \<times> nat) list option run" where
  "split_statements sql ranges start at =
     (if at < length sql then
        if sql ! at = 59 then
          (case push_statement ranges sql start at of
             Panic \<Rightarrow> Panic
           | Done ranges \<Rightarrow> split_statements sql ranges (at + 1) (at + 1))
        else
          (case skip sql at of
             None \<Rightarrow> Done None
           | Some at \<Rightarrow> split_statements sql ranges start at)
      else
        (case push_statement ranges sql start (length sql) of
           Panic \<Rightarrow> Panic
         | Done ranges \<Rightarrow> Done (Some ranges)))"
  by pat_completeness auto
termination
  by (relation "measure (\<lambda>(sql, ranges, start, at). length sql - at)") (auto dest!: skip_greater)

declare split_statements.simps [simp del]

definition statement_ranges :: "rstr \<Rightarrow> (nat \<times> nat) list option run" where
  "statement_ranges sql = split_statements sql [] 0 0"


section \<open>Parsing and rendering\<close>

definition parse_tokens :: "('tok, 'stmt) sqlparser \<Rightarrow> 'tok list \<Rightarrow> rstr \<Rightarrow> parser_error + 'stmt list" where
  "parse_tokens sp tokens s =
     (case sp_parse_statements sp tokens of
        Ok statements \<Rightarrow> Ok statements
      | Err error \<Rightarrow> map_err (\<lambda>_. error) (sp_parse_sql sp (s @ bs '';'')))"

definition parse_sql :: "('tok, 'stmt) sqlparser \<Rightarrow> rstr \<Rightarrow> parser_error + 'stmt list" where
  "parse_sql sp s = res_bind (sp_tokenize sp s) (\<lambda>tokens. parse_tokens sp tokens s)"

definition render_validated :: "('tok, 'stmt) sqlparser \<Rightarrow> 'stmt \<Rightarrow> proxy_error + rstr" where
  "render_validated sp st =
     (let rendered = sp_to_string sp st in
      case parse_sql sp rendered of
        Ok reparsed \<Rightarrow> if reparsed = [st] then Ok rendered else Err RewriteDiverged
      | Err _ \<Rightarrow> Err RewriteDiverged)"

fun join :: "rstr \<Rightarrow> rstr list \<Rightarrow> rstr" where
  "join sep [] = []"
| "join sep [x] = x"
| "join sep (x # y # r) = x @ sep @ join sep (y # r)"

fun render_all :: "('tok, 'stmt) sqlparser \<Rightarrow> 'stmt list \<Rightarrow> proxy_error + rstr list" where
  "render_all sp [] = Ok []"
| "render_all sp (s # r) = res_bind (render_validated sp s) (\<lambda>t. map_ok ((#) t) (render_all sp r))"

fun put_statements :: "('tok, 'stmt) sqlparser \<Rightarrow> rstr \<Rightarrow> ((nat \<times> nat) \<times> 'stmt \<times> bool) list \<Rightarrow> nat \<Rightarrow> rstr
    \<Rightarrow> (proxy_error + rstr) run" where
  "put_statements sp sql [] cursor out =
     (case slice sql cursor (length sql) of Panic \<Rightarrow> Panic | Done s \<Rightarrow> Done (Ok (out @ s)))"
| "put_statements sp sql (((a, b), st, changed) # r) cursor out =
     (case slice sql cursor a of
        Panic \<Rightarrow> Panic
      | Done gap \<Rightarrow>
          if changed then
            (case render_validated sp st of
               Err e \<Rightarrow> Done (Err e)
             | Ok s \<Rightarrow> put_statements sp sql r b (out @ gap @ s))
          else
            (case slice sql a b of
               Panic \<Rightarrow> Panic
             | Done s \<Rightarrow> put_statements sp sql r b (out @ gap @ s)))"

definition reassemble :: "('tok, 'stmt) sqlparser \<Rightarrow> rstr \<Rightarrow> 'stmt list \<Rightarrow> bool list \<Rightarrow> (proxy_error + rstr) run" where
  "reassemble sp sql statements changed =
     (case statement_ranges sql of
        Panic \<Rightarrow> Panic
      | Done (Some ranges) \<Rightarrow>
          if length ranges = length statements then put_statements sp sql (zip ranges (zip statements changed)) 0 []
          else Done (map_ok (join (bs ''; '')) (render_all sp statements))
      | Done None \<Rightarrow> Done (map_ok (join (bs ''; '')) (render_all sp statements)))"

end
