(* ===== verification/LexerProps.thy ===== *)
theory LexerProps
  imports Lexer
begin

text \<open>
  The splitter finds ranges that can be cut out of the text without a panic, and reassembling a text
  keeps everything but the statements that changed.
\<close>

section \<open>Positions of characters\<close>

text \<open>The byte position of a character.\<close>

definition pos :: "rchar list \<Rightarrow> nat \<Rightarrow> nat" where
  "pos cs i = length (utf8_encode (take i cs))"

lemma utf8_encode_append [simp]: "utf8_encode (a @ b) = utf8_encode a @ utf8_encode b"
  by (simp add: utf8_encode_def)

lemma pos_0 [simp]: "pos cs 0 = 0"
  by (simp add: pos_def)

lemma pos_add: "pos cs (i + n) = pos cs i + length (utf8_encode (take n (drop i cs)))"
  by (simp add: pos_def take_add)

lemma pos_mono: "i \<le> j \<Longrightarrow> pos cs i \<le> pos cs j"
  by (metis le_add1 le_Suc_ex pos_add)

lemma pos_less: "i < j \<Longrightarrow> j \<le> length cs \<Longrightarrow> pos cs i < pos cs j"
proof -
  assume ij: "i < j" "j \<le> length cs"
  then have "take (j - i) (drop i cs) \<noteq> []" by simp
  then have "utf8_encode (take (j - i) (drop i cs)) \<noteq> []" by (cases "take (j - i) (drop i cs)") simp_all
  then show ?thesis using pos_add [of cs i "j - i"] ij by simp
qed

lemma pos_le_iff: "i \<le> length cs \<Longrightarrow> j \<le> length cs \<Longrightarrow> pos cs i \<le> pos cs j \<longleftrightarrow> i \<le> j"
  by (metis leD leI pos_less pos_mono)

lemma pos_length: "length cs \<le> i \<Longrightarrow> pos cs i = length (utf8_encode cs)"
  by (simp add: pos_def)

lemma slice_pos: "take (pos cs j - pos cs i) (drop (pos cs i) (utf8_encode cs)) = utf8_encode (take (j - i) (drop i cs))"
  if "i \<le> j"
proof -
  have "utf8_encode cs = utf8_encode (take i cs) @ utf8_encode (take (j - i) (drop i cs)) @ utf8_encode (drop j cs)"
    using that by (metis append_take_drop_id drop_drop le_add_diff_inverse2 utf8_encode_append)
  moreover have "pos cs j = pos cs i + length (utf8_encode (take (j - i) (drop i cs)))"
    using pos_add [of cs i "j - i"] that by simp
  ultimately show ?thesis by (simp add: pos_def)
qed

text \<open>A text and its characters.\<close>

definition text_of :: "rstr \<Rightarrow> rchar list \<Rightarrow> bool" where
  "text_of sql cs \<longleftrightarrow> utf8_decode sql = Some cs"

lemma text_ofD: "text_of sql cs \<Longrightarrow> (\<forall>c \<in> set cs. scalar_value c) \<and> sql = utf8_encode cs"
  using utf8_decode_sound by (auto simp: text_of_def)

lemma boundary_pos:
  assumes "text_of sql cs"
  shows "is_char_boundary sql p \<longleftrightarrow> (\<exists>i \<le> length cs. p = pos cs i)"
proof (cases "p \<le> length sql")
  case True
  then show ?thesis using boundary_iff [of cs p] text_ofD [OF assms] by (auto simp: pos_def)
next
  case False
  then have "p \<noteq> pos cs i" for i using text_ofD [OF assms] pos_mono [of i "max i (length cs)" cs] pos_length [of cs "max i (length cs)"] by auto
  then show ?thesis using False by (auto simp: is_char_boundary_def)
qed

lemma pos_boundary: "text_of sql cs \<Longrightarrow> n \<le> length cs \<Longrightarrow> is_char_boundary sql (pos cs n)"
  using boundary_pos by blast

lemma encode_char_hd_ascii:
  assumes "scalar_value c" and "unat (hd (encode_char c)) < 128"
  shows "c < 128"
proof (rule ccontr)
  assume "\<not> c < 128"
  have lt: "c < 1114112" using assms(1) by (auto simp: scalar_value_def)
  have d: "c < 2048 \<Longrightarrow> c div 64 < 64" "c < 65536 \<Longrightarrow> c div 4096 < 32" "c div 262144 < 16"
    using lt by (simp_all add: less_mult_imp_div_less)
  consider "c < 2048" | "2048 \<le> c" "c < 65536" | "65536 \<le> c" by linarith
  then have "128 \<le> unat (hd (encode_char c))"
    by cases (use d \<open>\<not> c < 128\<close> in \<open>simp_all add: encode_char_def\<close>)
  then show False using assms(2) by simp
qed

lemma ascii_boundary:
  assumes "text_of sql cs" and "p < length sql" and "unat (sql ! p) < 128"
  shows "is_char_boundary sql p" and "is_char_boundary sql (p + 1)"
proof -
  have sv: "\<forall>c \<in> set cs. scalar_value c" and sql: "sql = utf8_encode cs" using text_ofD [OF assms(1)] by simp_all
  show b: "is_char_boundary sql p" using assms(2,3) by (auto simp: is_char_boundary_def cont_def)
  then obtain i where i: "i \<le> length cs" "p = pos cs i" using boundary_pos [OF assms(1)] by blast
  then have lt: "i < length cs" using assms(2) sql pos_length [of cs i] by (cases "i = length cs") auto
  let ?c = "cs ! i"
  have "sql = utf8_encode (take i cs) @ encode_char ?c @ utf8_encode (drop (Suc i) cs)"
    unfolding sql by (metis id_take_nth_drop lt utf8_encode_append utf8_encode_simps(2))
  then have "sql ! p = hd (encode_char ?c)"
    using i(2) by (simp add: pos_def nth_append hd_conv_nth)
  then have "unat (hd (encode_char ?c)) < 128" using assms(3) by simp
  moreover have "scalar_value ?c" using sv nth_mem [OF lt] by blast
  ultimately have "?c < 128" by (rule encode_char_hd_ascii [rotated])
  then have "pos cs (Suc i) = pos cs i + 1"
    using pos_add [of cs i 1] lt Cons_nth_drop_Suc [OF lt, symmetric] by (simp add: encode_char_def)
  then show "is_char_boundary sql (p + 1)"
    using boundary_pos [OF assms(1)] i(2) lt by (metis Suc_leI)
qed


section \<open>Ranges\<close>

text \<open>Ranges in order, without overlap, on character boundaries, not empty, between two positions.\<close>

fun ranges_ok :: "rstr \<Rightarrow> nat \<Rightarrow> (nat \<times> nat) list \<Rightarrow> nat \<Rightarrow> bool" where
  "ranges_ok sql lo [] hi = (lo \<le> hi)"
| "ranges_ok sql lo ((a, b) # r) hi =
     (lo \<le> a \<and> a < b \<and> is_char_boundary sql a \<and> is_char_boundary sql b \<and> ranges_ok sql b r hi)"

lemma ranges_ok_append:
  "ranges_ok sql lo rs mid \<Longrightarrow> mid \<le> a \<Longrightarrow> a < b \<Longrightarrow> b \<le> hi \<Longrightarrow> is_char_boundary sql a \<Longrightarrow> is_char_boundary sql b
    \<Longrightarrow> ranges_ok sql lo (rs @ [(a, b)]) hi"
  by (induction sql lo rs mid rule: ranges_ok.induct) auto

lemma ranges_ok_mono: "ranges_ok sql lo rs mid \<Longrightarrow> mid \<le> hi \<Longrightarrow> ranges_ok sql lo rs hi"
  by (induction sql lo rs mid rule: ranges_ok.induct) auto

lemma trim_drop_take: "\<exists>k m. k + m \<le> length cs \<and> trim_start cs = drop k cs \<and> trim cs = take m (drop k cs)"
proof -
  let ?k = "length (takeWhile is_whitespace_char cs)" and ?e = "trim_start cs"
  have s: "?e = drop ?k cs" by (simp add: trim_start_def dropWhile_eq_drop)
  have "trim cs = take (length ?e - length (takeWhile is_whitespace_char (rev ?e))) ?e"
    by (simp add: trim_def trim_end_def dropWhile_eq_drop rev_drop)
  moreover have "length (drop ?k cs) + ?k = length cs" using length_takeWhile_le [of is_whitespace_char cs] by simp
  ultimately show ?thesis
    by (intro exI [of _ ?k] exI [of _ "length ?e - length (takeWhile is_whitespace_char (rev ?e))"]) (simp add: s)
qed

lemma push_statement_ok:
  assumes "text_of sql cs" and "is_char_boundary sql a" and "is_char_boundary sql b" and "a \<le> b" and "ranges_ok sql 0 rs a"
  obtains rs' where "push_statement rs sql a b = Done rs'" "ranges_ok sql 0 rs' b"
proof -
  have sv: "\<forall>c \<in> set cs. scalar_value c" and sql: "sql = utf8_encode cs" using text_ofD [OF assms(1)] by simp_all
  obtain i j where ij: "i \<le> length cs" "j \<le> length cs" "a = pos cs i" "b = pos cs j"
    using assms(2,3) boundary_pos [OF assms(1)] by blast
  then have le: "i \<le> j" using assms(4) pos_le_iff by simp
  let ?t = "take (j - i) (drop i cs)"
  have sl: "slice sql a b = Done (utf8_encode ?t)"
    using assms(2-4) slice_pos [OF le, of cs] ij sql by (simp add: slice_def)
  have dec: "utf8_decode (utf8_encode ?t) = Some ?t"
    by (rule utf8_decode_encode) (use sv in \<open>auto dest!: in_set_takeD in_set_dropD\<close>)
  obtain k m where km: "k + m \<le> length ?t" "trim_start ?t = drop k ?t" "trim ?t = take m (drop k ?t)"
    using trim_drop_take by blast
  show thesis
  proof (cases "trim ?t = []")
    case True
    then show thesis using that sl dec ranges_ok_mono [OF assms(5,4)] by (simp add: push_statement_def)
  next
    case False
    have m: "m > 0" using False km(3) by (cases m) auto
    have len: "i + k + m \<le> j" using km(1) le ij(2) by simp
    have t: "drop k ?t = take (j - (i + k)) (drop (i + k) cs)"
      by (simp add: drop_take add.commute)
    have e1: "length (utf8_encode ?t) = pos cs j - pos cs i" using pos_add [of cs i "j - i"] le by simp
    have e2: "length (utf8_encode (drop k ?t)) = pos cs j - pos cs (i + k)"
      using pos_add [of cs "i + k" "j - (i + k)"] len unfolding t by simp
    have e3: "length (utf8_encode (trim ?t)) = pos cs (i + k + m) - pos cs (i + k)"
      using pos_add [of cs "i + k" m] len km(3) unfolding t by (simp add: min_def)
    have ord: "pos cs i \<le> pos cs (i + k)" "pos cs (i + k) < pos cs (i + k + m)" "pos cs (i + k + m) \<le> pos cs j"
      using pos_less [of "i + k" "i + k + m" cs] m len ij(2) by (simp_all add: pos_mono)
    have start: "a + (length (utf8_encode ?t) - length (utf8_encode (trim_start ?t))) = pos cs (i + k)"
      unfolding km(2) e1 e2 ij(3) using ord by simp
    have "push_statement rs sql a b = Done (rs @ [(pos cs (i + k), pos cs (i + k + m))])"
      using sl dec False ord start e3 by (simp add: push_statement_def Let_def)
    moreover have "is_char_boundary sql (pos cs (i + k))" "is_char_boundary sql (pos cs (i + k + m))"
      using pos_boundary [OF assms(1)] len ij(2) by simp_all
    moreover have "ranges_ok sql 0 (rs @ [(pos cs (i + k), pos cs (i + k + m))]) b"
      by (rule ranges_ok_append [OF assms(5)]) (use ord ij calculation in simp_all)
    ultimately show thesis using that by blast
  qed
qed


lemma split_statements_ok:
  assumes "text_of sql cs" and "ranges_ok sql 0 rs start" and "is_char_boundary sql start" and "start \<le> at" and "at \<le> length sql"
  shows "\<exists>r. split_statements sql rs start at = Done r \<and> (\<forall>rs'. r = Some rs' \<longrightarrow> ranges_ok sql 0 rs' (length sql))"
  using assms(2-5)
proof (induction "length sql - at" arbitrary: rs start at rule: less_induct)
  case less
  show ?case
  proof (cases "at < length sql")
    case False
    have "is_char_boundary sql (length sql)" by (simp add: is_char_boundary_def)
    then obtain rs' where "push_statement rs sql start (length sql) = Done rs'" "ranges_ok sql 0 rs' (length sql)"
      using push_statement_ok [OF assms(1) less.prems(2)] less.prems by (metis le_trans)
    then show ?thesis using False by (simp add: split_statements.simps)
  next
    case True
    show ?thesis
    proof (cases "sql ! at = 59")
      case semi: True
      then have b: "is_char_boundary sql at" "is_char_boundary sql (at + 1)"
        using ascii_boundary [OF assms(1) True] by simp_all
      obtain rs' where p: "push_statement rs sql start at = Done rs'" "ranges_ok sql 0 rs' at"
        using push_statement_ok [OF assms(1) less.prems(2) b(1) less.prems(3,1)] by blast
      have "length sql - (at + 1) < length sql - at" using True by simp
      from less.hyps [OF this ranges_ok_mono [OF p(2)] b(2)] show ?thesis
        using True semi p(1) by (simp add: split_statements.simps [of sql rs start at])
    next
      case nsemi: False
      show ?thesis
      proof (cases "skip sql at")
        case None
        then show ?thesis using True nsemi by (simp add: split_statements.simps [of sql rs start at])
      next
        case (Some at')
        have g: "at < at'" "at' \<le> length sql" using skip_greater [OF True Some] by simp_all
        then have "length sql - at' < length sql - at" using True by simp
        from less.hyps [OF this less.prems(1,2)] show ?thesis
          using True nsemi Some g less.prems(3) by (simp add: split_statements.simps [of sql rs start at])
      qed
    qed
  qed
qed

lemma statement_ranges_ok:
  assumes "text_of sql cs"
  shows "\<exists>r. statement_ranges sql = Done r \<and> (\<forall>rs. r = Some rs \<longrightarrow> ranges_ok sql 0 rs (length sql))"
  unfolding statement_ranges_def
  by (rule split_statements_ok [OF assms]) (simp_all add: is_char_boundary_def)


section \<open>Putting the text back together\<close>

text \<open>Texts between gaps: one gap more than texts.\<close>

fun weave :: "rstr list \<Rightarrow> rstr list \<Rightarrow> rstr" where
  "weave (g # gs) (t # ts) = g @ t @ weave gs ts"
| "weave (g # gs) [] = g"
| "weave [] ts = []"

fun gaps :: "rstr \<Rightarrow> nat \<Rightarrow> (nat \<times> nat) list \<Rightarrow> rstr list" where
  "gaps sql lo [] = [drop lo sql]"
| "gaps sql lo ((a, b) # r) = take (a - lo) (drop lo sql) # gaps sql b r"

definition cuts :: "rstr \<Rightarrow> (nat \<times> nat) list \<Rightarrow> rstr list" where
  "cuts sql rs = map (\<lambda>(a, b). take (b - a) (drop a sql)) rs"

lemma length_gaps [simp]: "length (gaps sql lo rs) = Suc (length rs)"
  by (induction sql lo rs rule: gaps.induct) simp_all

lemma ranges_ok_le: "ranges_ok sql lo rs hi \<Longrightarrow> lo \<le> hi"
  by (induction sql lo rs hi rule: ranges_ok.induct) auto

lemma weave_gaps_cuts: "ranges_ok sql lo rs (length sql) \<Longrightarrow> weave (gaps sql lo rs) (cuts sql rs) = drop lo sql"
proof (induction sql lo rs rule: gaps.induct)
  case (1 sql lo)
  then show ?case by (simp add: cuts_def)
next
  case (2 sql lo a b r)
  then have le: "lo \<le> a" "a \<le> b" "b \<le> length sql" by (auto dest: ranges_ok_le)
  have "drop lo sql = take (a - lo) (drop lo sql) @ take (b - a) (drop a sql) @ drop b sql"
    using le by (metis append_take_drop_id drop_drop le_add_diff_inverse2)
  then show ?case using 2 by (simp add: cuts_def)
qed

text \<open>What a statement becomes: its own text, or a rendering that parses back to it.\<close>

definition rewritten_as :: "('tok, 'stmt) sqlparser \<Rightarrow> 'stmt \<Rightarrow> bool \<Rightarrow> rstr \<Rightarrow> rstr \<Rightarrow> bool" where
  "rewritten_as sp st changed old new \<longleftrightarrow>
     (if changed then new = sp_to_string sp st \<and> parse_sql sp new = Ok [st] else new = old)"

lemma render_validated_Ok: "render_validated sp st = Ok s \<longleftrightarrow> s = sp_to_string sp st \<and> parse_sql sp s = Ok [st]"
  by (auto simp: render_validated_def Let_def split: sum.splits if_splits)

lemma put_statements_ok:
  assumes "ranges_ok sql lo rs (length sql)" and "is_char_boundary sql lo"
    and "length sts = length rs" and "length ch = length rs"
  shows "\<exists>r. put_statements sp sql (zip rs (zip sts ch)) lo out = Done r \<and>
    (\<forall>s. r = Ok s \<longrightarrow> (\<exists>ts. s = out @ weave (gaps sql lo rs) ts \<and> length ts = length rs
       \<and> (\<forall>i < length rs. rewritten_as sp (sts ! i) (ch ! i) (cuts sql rs ! i) (ts ! i))))
    \<and> (\<forall>e. r = Err e \<longrightarrow> e = RewriteDiverged)"
  using assms
proof (induction rs arbitrary: lo sts ch out)
  case Nil
  have "is_char_boundary sql (length sql)" by (simp add: is_char_boundary_def)
  then show ?case using Nil by (auto simp: slice_def)
next
  case (Cons ab rs)
  obtain a b st sts' c ch' where ab: "ab = (a, b)" and sts: "sts = st # sts'" and ch: "ch = c # ch'"
    using Cons.prems by (metis length_Suc_conv surj_pair)
  have bd: "lo \<le> a" "a < b" "is_char_boundary sql a" "is_char_boundary sql b" "ranges_ok sql b rs (length sql)"
    using Cons.prems(1) ab by simp_all
  have gap: "slice sql lo a = Done (take (a - lo) (drop lo sql))" using bd Cons.prems(2) by (simp add: slice_def)
  have cut: "slice sql a b = Done (take (b - a) (drop a sql))" using bd by (simp add: slice_def)
  have rec: "\<exists>r. put_statements sp sql (zip rs (zip sts' ch')) b (out @ take (a - lo) (drop lo sql) @ s) = Done r \<and>
    (\<forall>s'. r = Ok s' \<longrightarrow> (\<exists>ts. s' = out @ weave (gaps sql lo (ab # rs)) ts \<and> length ts = length (ab # rs)
       \<and> (\<forall>i < length (ab # rs). rewritten_as sp (sts ! i) (ch ! i) (cuts sql (ab # rs) ! i) (ts ! i))))
    \<and> (\<forall>e. r = Err e \<longrightarrow> e = RewriteDiverged)"
    if s: "rewritten_as sp st c (take (b - a) (drop a sql)) s" for s
  proof -
    obtain r where r: "put_statements sp sql (zip rs (zip sts' ch')) b (out @ take (a - lo) (drop lo sql) @ s) = Done r"
      "\<forall>s'. r = Ok s' \<longrightarrow> (\<exists>ts. s' = (out @ take (a - lo) (drop lo sql) @ s) @ weave (gaps sql b rs) ts \<and> length ts = length rs
         \<and> (\<forall>i < length rs. rewritten_as sp (sts' ! i) (ch' ! i) (cuts sql rs ! i) (ts ! i)))"
      "\<forall>e. r = Err e \<longrightarrow> e = RewriteDiverged"
      using Cons.IH [OF bd(5,4), of sts' ch' "out @ take (a - lo) (drop lo sql) @ s"] Cons.prems(3,4) sts ch by auto
    have "\<exists>ts. s' = out @ weave (gaps sql lo (ab # rs)) ts \<and> length ts = length (ab # rs)
       \<and> (\<forall>i < length (ab # rs). rewritten_as sp (sts ! i) (ch ! i) (cuts sql (ab # rs) ! i) (ts ! i))" if "r = Ok s'" for s'
    proof -
      obtain ts where ts: "s' = (out @ take (a - lo) (drop lo sql) @ s) @ weave (gaps sql b rs) ts" "length ts = length rs"
        "\<forall>i < length rs. rewritten_as sp (sts' ! i) (ch' ! i) (cuts sql rs ! i) (ts ! i)"
        using r(2) \<open>r = Ok s'\<close> by blast
      show ?thesis
        by (rule exI [of _ "s # ts"]) (use ts s in \<open>auto simp: ab sts ch cuts_def nth_Cons split: nat.splits\<close>)
    qed
    then show ?thesis using r(1,3) by blast
  qed
  show ?case
  proof (cases c)
    case True
    show ?thesis
    proof (cases "render_validated sp st")
      case (Inl e)
      then have "e = RewriteDiverged" by (auto simp: render_validated_def Let_def split: sum.splits if_splits)
      then show ?thesis using Inl True gap by (simp add: ab sts ch)
    next
      case (Inr s)
      then have "rewritten_as sp st c (take (b - a) (drop a sql)) s"
        using True by (auto simp: rewritten_as_def render_validated_Ok)
      from rec [OF this] show ?thesis using Inr True gap by (simp add: ab sts ch)
    qed
  next
    case False
    then show ?thesis using rec [of "take (b - a) (drop a sql)"] gap cut by (simp add: ab sts ch rewritten_as_def)
  qed
qed




text \<open>A parser of one-statement texts.\<close>

definition sample_parser :: "(byte, rstr) sqlparser" where
  "sample_parser = \<lparr>sp_tokenize = Ok, sp_parse_statements = (\<lambda>tokens. Ok [tokens]), sp_parse_sql = (\<lambda>s. Ok [s]), sp_to_string = id\<rparr>"


end
