(* ===== verification/Settings.thy ===== *)
theory Settings
  imports RustText
begin

text \<open>
  Which session settings a statement moves (\<open>crates/proxy/src/encrypt/settings.rs\<close>), read from its
  tokens. A token keeps what the source tells apart: the variants it matches, with the text and, for
  a word, whether it was quoted; every other token is \<open>OtherToken\<close>.
\<close>

datatype token =
    Whitespace
  | SemiColon
  | Word rstr bool
  | EqSign
  | LParen
  | RParen
  | Comma
  | SingleQuotedString rstr
  | Number rstr
  | OtherToken

datatype setting_moved =
    MovedSearchPath
  | MovedEscapeStrings

definition eq_ignore_ascii_case :: "rstr \<Rightarrow> rstr \<Rightarrow> bool" where
  "eq_ignore_ascii_case a b \<longleftrightarrow> map to_ascii_lowercase a = map to_ascii_lowercase b"

fun keyword :: "token \<Rightarrow> rstr option" where
  "keyword (Word w quoted) = (if quoted then None else Some w)"
| "keyword _ = None"

definition is_keyword :: "token \<Rightarrow> rstr \<Rightarrow> bool" where
  "is_keyword t w = (case keyword t of None \<Rightarrow> False | Some v \<Rightarrow> eq_ignore_ascii_case v w)"


section \<open>Values\<close>

text \<open>\<open>text.split(',')\<close>, and \<open>part.trim().trim_matches('"')\<close> of each part.\<close>

fun split_on :: "'a \<Rightarrow> 'a list \<Rightarrow> 'a list list" where
  "split_on c [] = [[]]"
| "split_on c (b # r) =
     (if b = c then [] # split_on c r
      else case split_on c r of p # ps \<Rightarrow> (b # p) # ps | [] \<Rightarrow> [[b]])"

definition trim_quotes :: "rchar list \<Rightarrow> rchar list" where
  "trim_quotes cs = rev (dropWhile (\<lambda>c. c = 34) (rev (dropWhile (\<lambda>c. c = 34) cs)))"

definition text_parts :: "rstr \<Rightarrow> rstr list" where
  "text_parts s =
     (case utf8_decode s of
        None \<Rightarrow> []
      | Some cs \<Rightarrow> map (\<lambda>p. utf8_encode (trim_quotes (trim p))) (split_on 44 cs))"

text \<open>A token's text is a \<open>String\<close>, so it decodes.\<close>

fun setting_values :: "token list \<Rightarrow> rstr list option" where
  "setting_values [] = Some []"
| "setting_values (SemiColon # r) = Some []"
| "setting_values (RParen # r) = Some []"
| "setting_values (Comma # r) = setting_values r"
| "setting_values (Word w quoted # r) =
     map_option ((#) (if quoted then w else map to_ascii_lowercase w)) (setting_values r)"
| "setting_values (SingleQuotedString s # r) = map_option ((@) (text_parts s)) (setting_values r)"
| "setting_values (Number n # r) = map_option ((#) n) (setting_values r)"
| "setting_values (_ # r) = None"

definition is_default_search_path :: "rstr list option \<Rightarrow> bool" where
  "is_default_search_path values =
     (case values of
        None \<Rightarrow> False
      | Some vs \<Rightarrow> list_all (\<lambda>n. n = bs ''public'' \<or> n = bs ''$user'') vs \<and> bs ''public'' \<in> set vs)"

definition is_on_value :: "rstr \<Rightarrow> bool" where
  "is_on_value v = list_ex (eq_ignore_ascii_case v) [bs ''on'', bs ''true'', bs ''t'', bs ''yes'', bs ''y'', bs ''1'']"

definition is_on_setting :: "rstr list option \<Rightarrow> bool" where
  "is_on_setting values = (case values of Some [v] \<Rightarrow> is_on_value v | _ \<Rightarrow> False)"

definition moved_by :: "rstr \<Rightarrow> rstr list option \<Rightarrow> setting_moved option" where
  "moved_by name values =
     (if eq_ignore_ascii_case name (bs ''search_path'')
      then (if is_default_search_path values then None else Some MovedSearchPath)
      else if eq_ignore_ascii_case name (bs ''standard_conforming_strings'')
      then (if is_on_setting values then None else Some MovedEscapeStrings)
      else None)"


section \<open>Statements\<close>

definition set_statement :: "token list \<Rightarrow> setting_moved option" where
  "set_statement tokens =
     (case tokens of
        [] \<Rightarrow> None
      | t # r \<Rightarrow>
     (case (if is_keyword t (bs ''session'') \<or> is_keyword t (bs ''local'') then r else tokens) of
        [] \<Rightarrow> None
      | n # r \<Rightarrow>
     (case keyword n of
        None \<Rightarrow> None
      | Some name \<Rightarrow>
          if eq_ignore_ascii_case name (bs ''schema'') then moved_by (bs ''search_path'') (setting_values r)
          else (case r of
                  [] \<Rightarrow> None
                | t # r \<Rightarrow> if t = EqSign \<or> is_keyword t (bs ''to'') then moved_by name (setting_values r) else None))))"

definition set_config_call :: "token list \<Rightarrow> setting_moved option" where
  "set_config_call tokens =
     (case tokens of
        LParen # SingleQuotedString setting # Comma # v # _ \<Rightarrow> moved_by setting (setting_values [v])
      | LParen # SingleQuotedString setting # Comma # [] \<Rightarrow> None
      | LParen # SingleQuotedString setting # [] \<Rightarrow> None
      | LParen # _ \<Rightarrow> Some MovedSearchPath
      | _ \<Rightarrow> None)"

definition found_at :: "nat \<Rightarrow> token \<Rightarrow> token list \<Rightarrow> setting_moved option" where
  "found_at index t rest =
     (case keyword t of
        None \<Rightarrow> None
      | Some w \<Rightarrow>
          if index = 0 \<and> eq_ignore_ascii_case w (bs ''set'') then set_statement rest
          else if eq_ignore_ascii_case w (bs ''set_config'') then set_config_call rest
          else None)"

fun scan_settings :: "nat \<Rightarrow> token list \<Rightarrow> setting_moved list \<Rightarrow> setting_moved list" where
  "scan_settings index [] moved = moved"
| "scan_settings index (t # rest) moved =
     scan_settings (index + 1) rest
       (case found_at index t rest of
          None \<Rightarrow> moved
        | Some setting \<Rightarrow> if setting \<in> set moved then moved else moved @ [setting])"

definition statement_settings_moved :: "token list \<Rightarrow> setting_moved list" where
  "statement_settings_moved tokens = scan_settings 0 tokens []"

definition settings_moved :: "token list \<Rightarrow> setting_moved list list" where
  "settings_moved all =
     map statement_settings_moved
       (filter (\<lambda>s. s \<noteq> []) (split_on SemiColon (filter (\<lambda>t. t \<noteq> Whitespace) all)))"


section \<open>What the scan sees\<close>

lemma split_on_none: "c \<notin> set xs \<Longrightarrow> split_on c xs = [xs]"
  by (induction xs) auto

lemma text_parts_plain:
  assumes "\<forall>b \<in> set s. unat b < 128 \<and> \<not> is_whitespace_char (unat b) \<and> unat b \<noteq> 34 \<and> unat b \<noteq> 44"
  shows "text_parts s = [s]"
proof -
  have "utf8_decode s = Some (map unat s)" by (rule utf8_decode_ascii) (use assms in auto)
  moreover have "split_on 44 (map unat s) = [map unat s]" by (rule split_on_none) (use assms in auto)
  moreover have "trim (map unat s) = map unat s" by (rule trim_no_ws) (use assms in auto)
  moreover have "trim_quotes (map unat s) = map unat s"
  proof -
    have dw: "dropWhile (\<lambda>c. c = 34) xs = xs" if "34 \<notin> set xs" for xs :: "nat list" using that by (cases xs) auto
    have no: "34 \<notin> set (map unat s)" using assms by auto
    then have "34 \<notin> set (rev (map unat s))" by simp
    from dw [OF this] show ?thesis by (simp only: trim_quotes_def dw [OF no] rev_rev_ident)
  qed
  moreover have "utf8_encode (map unat s) = s" by (subst utf8_encode_ascii) (use assms in \<open>auto simp: o_def\<close>)
  ultimately show ?thesis by (simp add: text_parts_def)
qed

lemma scan_settings_keeps: "m \<in> set moved \<Longrightarrow> m \<in> set (scan_settings i ts moved)"
  by (induction i ts moved rule: scan_settings.induct) (auto split: option.splits)

lemma scan_settings_append: "scan_settings i (xs @ ys) moved = scan_settings (i + length xs) ys
    (foldl (\<lambda>moved k. case found_at (i + k) (xs ! k) (drop (Suc k) xs @ ys) of None \<Rightarrow> moved
       | Some m \<Rightarrow> if m \<in> set moved then moved else moved @ [m]) moved [0..<length xs])"
proof (induction xs arbitrary: i moved)
  case Nil
  then show ?case by simp
next
  case (Cons x xs)
  have up: "[0..<length (x # xs)] = 0 # map Suc [0..<length xs]" by (simp add: map_Suc_upt upt_conv_Cons del: upt_Suc)
  show ?case unfolding up by (simp add: Cons foldl_map)
qed

lemma found_at_seen: "found_at (length xs) t rest = Some m \<Longrightarrow> m \<in> set (statement_settings_moved (xs @ t # rest))"
  by (auto simp: statement_settings_moved_def scan_settings_append intro: scan_settings_keeps)

lemma set_statement_seen:
  "set_statement rest = Some m \<Longrightarrow> eq_ignore_ascii_case w (bs ''set'') \<Longrightarrow> m \<in> set (statement_settings_moved (Word w False # rest))"
  using found_at_seen [of "[]" "Word w False" rest m] by (simp add: found_at_def)

lemma set_not_set_config: "eq_ignore_ascii_case w (bs ''set_config'') \<Longrightarrow> \<not> eq_ignore_ascii_case w (bs ''set'')"
  by (auto simp: eq_ignore_ascii_case_def bs_def dest: arg_cong [where f = length])

lemma set_config_seen:
  "set_config_call rest = Some m \<Longrightarrow> eq_ignore_ascii_case w (bs ''set_config'')
    \<Longrightarrow> m \<in> set (statement_settings_moved (xs @ Word w False # rest))"
  using found_at_seen [of xs "Word w False" rest m] set_not_set_config [of w] by (auto simp: found_at_def)


section \<open>Properties\<close>



text \<open>
  C31. Three spellings the server honours move \<open>search_path\<close> unseen, whatever schema they name: the
  setting name written as a quoted identifier, \<open>set_config\<close> written as a quoted identifier, and a
  value expression that begins with the literal \<open>'public'\<close>, of which only the first token is read.
\<close>

theorem search_path_moved_unseen:
  "statement_settings_moved [Word (bs ''SET'') False, Word (bs ''search_path'') True, EqSign, Word schema True] = []
   \<and> statement_settings_moved [Word (bs ''SELECT'') False, Word (bs ''set_config'') True, LParen,
        SingleQuotedString (bs ''search_path''), Comma, SingleQuotedString schema, Comma, Word (bs ''false'') False, RParen] = []
   \<and> statement_settings_moved [Word (bs ''SELECT'') False, Word (bs ''set_config'') False, LParen,
        SingleQuotedString (bs ''search_path''), Comma, SingleQuotedString (bs ''public''), OtherToken,
        SingleQuotedString schema, Comma, Word (bs ''false'') False, RParen] = []"
proof -
  have eq: "\<not> eq_ignore_ascii_case (bs ''SELECT'') (bs ''set'')" "\<not> eq_ignore_ascii_case (bs ''SELECT'') (bs ''set_config'')"
    "\<not> eq_ignore_ascii_case (bs ''false'') (bs ''set_config'')" "\<not> eq_ignore_ascii_case (bs ''SET'') (bs ''set_config'')"
    "eq_ignore_ascii_case (bs ''set_config'') (bs ''set_config'')" "eq_ignore_ascii_case (bs ''SET'') (bs ''set'')"
    "eq_ignore_ascii_case (bs ''search_path'') (bs ''search_path'')"
    by code_simp+
  have "is_default_search_path (setting_values [SingleQuotedString (bs ''public'')])"
    by (simp add: text_parts_plain is_default_search_path_def bs_def is_whitespace_char_def)
  then show ?thesis
    by (simp add: statement_settings_moved_def found_at_def set_statement_def is_keyword_def set_config_call_def moved_by_def eq)
qed

end
