(* ===== verification/Catalog.thy ===== *)
theory Catalog
  imports Policies Unprotected
begin

text \<open>
  The write path's name-keyed view of the protected columns (\<open>crates/proxy/src/encrypt/catalog.rs\<close>)
  and the session-aware lookups over it (\<open>QueryRewriter::table\<close> and \<open>reads_protected\<close> in
  \<open>encrypt/mod.rs\<close>). A SQL identifier is its text and whether it was quoted, an object name its
  identifiers; hash maps are maps and hash sets are sets.
\<close>

record ident =
  id_value :: rstr
  id_quoted :: bool

type_synonym object_name = "ident list"
type_synonym columns = "rstr \<rightharpoonup> field_transform"
type_synonym read_columns = "rstr set"

record write_catalog =
  wc_tables :: "rstr \<times> rstr \<rightharpoonup> columns"
  wc_bare_names :: "rstr set"
  wc_read_columns :: "rstr \<times> rstr \<rightharpoonup> read_columns"
  wc_read_bare_names :: "rstr set"
  wc_on_unprotected :: on_unprotected

definition add_column :: "protected_column \<Rightarrow> write_catalog \<Rightarrow> write_catalog" where
  "add_column c cat =
     (let key = (pc_schema c, pc_table c);
          read = (case wc_read_columns cat key of Some r \<Rightarrow> r | None \<Rightarrow> {});
          cat = cat\<lparr>wc_read_bare_names := insert (pc_table c) (wc_read_bare_names cat),
                    wc_read_columns := (wc_read_columns cat)(key \<mapsto> insert (pc_column c) read)\<rparr> in
      case pc_transform c of
        None \<Rightarrow> cat
      | Some t \<Rightarrow>
          let cols = (case wc_tables cat key of Some m \<Rightarrow> m | None \<Rightarrow> Map.empty) in
          cat\<lparr>wc_bare_names := insert (pc_table c) (wc_bare_names cat),
              wc_tables := (wc_tables cat)(key \<mapsto> cols(pc_column c \<mapsto> t))\<rparr>)"

definition catalog_new :: "protected_column list \<Rightarrow> on_unprotected \<Rightarrow> write_catalog" where
  "catalog_new cs mode =
     fold add_column cs
       \<lparr>wc_tables = Map.empty, wc_bare_names = {}, wc_read_columns = Map.empty, wc_read_bare_names = {},
        wc_on_unprotected = mode\<rparr>"

definition normalize :: "ident \<Rightarrow> rstr" where
  "normalize i = fold_identifier (id_value i) (id_quoted i)"

definition resolved_name :: "object_name \<Rightarrow> (rstr \<times> rstr) option" where
  "resolved_name name =
     (case rev name of
        [] \<Rightarrow> None
      | [t] \<Rightarrow> Some (bs ''public'', normalize t)
      | t # s # _ \<Rightarrow> Some (normalize s, normalize t))"

definition catalog_table :: "write_catalog \<Rightarrow> object_name \<Rightarrow> columns option" where
  "catalog_table cat name = (case resolved_name name of None \<Rightarrow> None | Some key \<Rightarrow> wc_tables cat key)"

definition may_be_protected :: "write_catalog \<Rightarrow> object_name \<Rightarrow> bool" where
  "may_be_protected cat name \<longleftrightarrow> name \<noteq> [] \<and> normalize (last name) \<in> wc_bare_names cat"

definition protects_reads :: "write_catalog \<Rightarrow> object_name \<Rightarrow> bool" where
  "protects_reads cat name = (case resolved_name name of None \<Rightarrow> False | Some key \<Rightarrow> wc_read_columns cat key \<noteq> None)"

definition read_columns_of :: "write_catalog \<Rightarrow> object_name \<Rightarrow> read_columns" where
  "read_columns_of cat name =
     (case resolved_name name of
        None \<Rightarrow> {}
      | Some key \<Rightarrow> (case wc_read_columns cat key of None \<Rightarrow> {} | Some r \<Rightarrow> r))"

definition scoped :: "write_catalog \<Rightarrow> object_name \<Rightarrow> (columns \<times> read_columns) option" where
  "scoped cat name =
     (case resolved_name name of
        None \<Rightarrow> None
      | Some key \<Rightarrow>
          (case wc_read_columns cat key of
             None \<Rightarrow> None
           | Some read \<Rightarrow> Some (case wc_tables cat key of Some m \<Rightarrow> m | None \<Rightarrow> Map.empty, read)))"

definition may_protect_reads :: "write_catalog \<Rightarrow> object_name \<Rightarrow> bool" where
  "may_protect_reads cat name \<longleftrightarrow> name \<noteq> [] \<and> normalize (last name) \<in> wc_read_bare_names cat"


section \<open>Lookups of a session\<close>

text \<open>The argument \<open>render\<close> is the \<open>Display\<close> of an object name.\<close>

definition rewriter_table :: "write_catalog \<Rightarrow> (object_name \<Rightarrow> rstr) \<Rightarrow> bool \<Rightarrow> object_name \<Rightarrow> rstr rejection + columns option" where
  "rewriter_table cat render search_path_trusted name =
     (if search_path_trusted \<or> length name > 1 then Ok (catalog_table cat name)
      else res_bind (if may_be_protected cat name then unprotected (wc_on_unprotected cat) (SearchPath (render name)) else Ok ())
             (\<lambda>_. Ok None))"

definition rewriter_reads_protected :: "write_catalog \<Rightarrow> (object_name \<Rightarrow> rstr) \<Rightarrow> bool \<Rightarrow> object_name \<Rightarrow> rstr rejection + bool" where
  "rewriter_reads_protected cat render search_path_trusted name =
     (if search_path_trusted \<or> length name > 1 then Ok (protects_reads cat name)
      else res_bind (if may_protect_reads cat name then unprotected (wc_on_unprotected cat) (SearchPath (render name)) else Ok ())
             (\<lambda>_. Ok False))"


section \<open>What a catalog holds\<close>

definition cell :: "protected_column \<Rightarrow> (rstr \<times> rstr) \<times> rstr" where
  "cell c = ((pc_schema c, pc_table c), pc_column c)"

definition sealed_by :: "write_catalog \<Rightarrow> rstr \<times> rstr \<Rightarrow> rstr \<Rightarrow> field_transform option" where
  "sealed_by cat key col = (case wc_tables cat key of None \<Rightarrow> None | Some m \<Rightarrow> m col)"

definition holds :: "protected_column set \<Rightarrow> write_catalog \<Rightarrow> bool" where
  "holds P cat \<longleftrightarrow>
     (\<forall>key col t. sealed_by cat key col = Some t \<longrightarrow> (\<exists>p \<in> P. cell p = (key, col) \<and> pc_transform p = Some t))
     \<and> (\<forall>p \<in> P. pc_transform p \<noteq> None \<longrightarrow> sealed_by cat (pc_schema p, pc_table p) (pc_column p) \<noteq> None \<and> pc_table p \<in> wc_bare_names cat)
     \<and> (\<forall>key. wc_read_columns cat key = (if \<exists>p \<in> P. fst (cell p) = key then Some {snd (cell p) |p. p \<in> P \<and> fst (cell p) = key} else None))
     \<and> (\<forall>p \<in> P. pc_table p \<in> wc_read_bare_names cat)"

lemma holds_add_column:
  assumes "holds P cat"
  shows "holds (insert c P) (add_column c cat)"
proof -
  let ?cat = "add_column c cat" and ?key = "(pc_schema c, pc_table c)"
  have sealed: "sealed_by ?cat key col = (if (key, col) = cell c \<and> pc_transform c \<noteq> None then pc_transform c else sealed_by cat key col)" for key col
    by (auto simp: sealed_by_def add_column_def cell_def Let_def split: option.splits)
  have bare: "pc_table p \<in> wc_bare_names ?cat" if "pc_table p \<in> wc_bare_names cat" for p
    using that by (auto simp: add_column_def Let_def split: option.splits)
  have bare_c: "pc_table c \<in> wc_bare_names ?cat" if "pc_transform c \<noteq> None"
    using that by (auto simp: add_column_def Let_def)
  have reads: "wc_read_columns ?cat key = (if key = ?key then Some (insert (pc_column c) (case wc_read_columns cat ?key of Some r \<Rightarrow> r | None \<Rightarrow> {}))
      else wc_read_columns cat key)" for key
    by (auto simp: add_column_def Let_def split: option.splits)
  have rbare: "wc_read_bare_names ?cat = insert (pc_table c) (wc_read_bare_names cat)"
    by (auto simp: add_column_def Let_def split: option.splits)
  have old: "\<forall>key. wc_read_columns cat key = (if \<exists>p \<in> P. fst (cell p) = key then Some {snd (cell p) |p. p \<in> P \<and> fst (cell p) = key} else None)"
    using assms by (simp add: holds_def)
  have "wc_read_columns ?cat key = (if \<exists>p \<in> insert c P. fst (cell p) = key
      then Some {snd (cell p) |p. p \<in> insert c P \<and> fst (cell p) = key} else None)" for key
    unfolding reads old [rule_format] by (auto simp: cell_def)
  moreover have "\<exists>p \<in> insert c P. cell p = (key, col) \<and> pc_transform p = Some t" if "sealed_by ?cat key col = Some t" for key col t
    using that assms unfolding sealed holds_def by (metis insertI1 insertI2)
  moreover have "sealed_by ?cat (pc_schema p, pc_table p) (pc_column p) \<noteq> None \<and> pc_table p \<in> wc_bare_names ?cat"
    if p: "p \<in> insert c P" "pc_transform p \<noteq> None" for p
  proof (cases "p \<in> P")
    case True
    then have "sealed_by cat (pc_schema p, pc_table p) (pc_column p) \<noteq> None" "pc_table p \<in> wc_bare_names cat"
      using assms p(2) by (simp_all add: holds_def)
    then show ?thesis using bare [of p] by (auto simp: sealed)
  next
    case False
    then show ?thesis using p bare_c by (simp add: sealed cell_def)
  qed
  ultimately show ?thesis using assms rbare unfolding holds_def by auto
qed

lemma holds_fold: "holds P cat \<Longrightarrow> holds (set cs \<union> P) (fold add_column cs cat)"
proof (induction cs arbitrary: P cat)
  case Nil
  then show ?case by simp
next
  case (Cons c cs)
  from Cons.IH [OF holds_add_column [OF Cons.prems]] show ?case by simp
qed

lemma catalog_new_holds: "holds (set cs) (catalog_new cs mode)"
  unfolding catalog_new_def by (rule holds_fold [of "{}", simplified]) (simp add: holds_def sealed_by_def)

lemma add_column_mode: "wc_on_unprotected (add_column c cat) = wc_on_unprotected cat"
  by (simp add: add_column_def Let_def split: option.splits)

lemma catalog_new_mode: "wc_on_unprotected (catalog_new cs mode) = mode"
proof -
  have "wc_on_unprotected (fold add_column cs cat) = wc_on_unprotected cat" for cat
    by (induction cs arbitrary: cat) (simp_all add: add_column_mode)
  then show ?thesis by (simp add: catalog_new_def)
qed


section \<open>Properties\<close>



end
