(* ===== verification/Statements.thy ===== *)
theory Statements
  imports LexerProps Settings Catalog Portal
begin

text \<open>
  One SQL text through the rewriter (\<open>QueryRewriter::rewrite_sql\<close> and \<open>note_session_state\<close> in
  \<open>crates/proxy/src/encrypt/statement.rs\<close>, the settings it keeps in \<open>encrypt/mod.rs\<close>). The SQL
  parser is the argument \<open>sp\<close>, \<open>view\<close> reads a token of it, and \<open>rewrite\<close> is the rewrite of one
  parsed statement, which works on the parser's syntax trees: it is given the session settings, may
  seal literals, and says whether it changed the statement.
\<close>

record startup_settings =
  ss_search_path_trusted :: bool
  ss_escape_strings :: bool

definition default_settings :: startup_settings where
  "default_settings = \<lparr>ss_search_path_trusted = True, ss_escape_strings = False\<rparr>"

record sql_session =
  search_path_trusted :: bool
  escape_strings :: bool
  startup_moved :: "setting_moved list"

definition sql_session_new :: "startup_settings \<Rightarrow> sql_session" where
  "sql_session_new startup =
     \<lparr>search_path_trusted = ss_search_path_trusted startup, escape_strings = ss_escape_strings startup,
      startup_moved = (if ss_escape_strings startup then [MovedEscapeStrings] else [])\<rparr>"

record 't rewrite_outcome =
  ro_rewritten :: "rstr option"
  ro_params :: "'t param_transforms"

definition passthrough :: "'t rewrite_outcome" where
  "passthrough = \<lparr>ro_rewritten = None, ro_params = []\<rparr>"

datatype 't sql_outcome =
    Rewrite "'t rewrite_outcome"
  | Refuse rstr

definition unprotected_sql :: "on_unprotected \<Rightarrow> unprotected_site \<Rightarrow> proxy_error + 't sql_outcome" where
  "unprotected_sql mode site =
     (case unprotected mode site of
        Ok _ \<Rightarrow> Ok (Rewrite passthrough)
      | Err (Refused m) \<Rightarrow> Ok (Refuse m)
      | Err (Fatal e) \<Rightarrow> Err e)"

fun note_session_state :: "on_unprotected \<Rightarrow> setting_moved list \<Rightarrow> (sql_session, rstr rejection, unit) comp" where
  "note_session_state mode [] s = (Ok (), s)"
| "note_session_state mode (MovedSearchPath # r) s =
     comp_bind (comp_of (unprotected mode SearchPathChanged)) (\<lambda>_. note_session_state mode r) (s\<lparr>search_path_trusted := False\<rparr>)"
| "note_session_state mode (MovedEscapeStrings # r) s =
     comp_bind (comp_of (unprotected mode EscapeStringsChanged)) (\<lambda>_. note_session_state mode r) (s\<lparr>escape_strings := True\<rparr>)"

type_synonym ('stmt, 't, 'w) statement_rewrite =
  "sql_session \<Rightarrow> 'stmt \<Rightarrow> 't param_transforms \<Rightarrow> ('w, rstr rejection, bool \<times> 'stmt \<times> 't param_transforms) comp"

text \<open>The settings and the process state side by side.\<close>

definition on_settings :: "(sql_session, 'e, 'a) comp \<Rightarrow> (sql_session \<times> 'w, 'e, 'a) comp" where
  "on_settings m s = (case m (fst s) of (r, q) \<Rightarrow> (r, (q, snd s)))"

definition on_process :: "(sql_session \<Rightarrow> ('w, 'e, 'a) comp) \<Rightarrow> (sql_session \<times> 'w, 'e, 'a) comp" where
  "on_process m s = (case m (fst s) (snd s) of (r, w) \<Rightarrow> (r, (fst s, w)))"

fun rewrite_statements :: "on_unprotected \<Rightarrow> ('stmt, 't, 'w) statement_rewrite \<Rightarrow> 'stmt list \<Rightarrow> setting_moved list list
    \<Rightarrow> 't param_transforms \<Rightarrow> (sql_session \<times> 'w, rstr rejection, ('stmt \<times> bool) list \<times> 't param_transforms) comp" where
  "rewrite_statements mode rewrite [] moved params = comp_ret ([], params)"
| "rewrite_statements mode rewrite (st # sts) moved params =
     comp_bind (on_settings (note_session_state mode (case moved of m # _ \<Rightarrow> m | [] \<Rightarrow> []))) (\<lambda>_.
     comp_bind (on_process (\<lambda>q. rewrite q st params)) (\<lambda>(changed, st, params).
     comp_bind (rewrite_statements mode rewrite sts (tl moved) params) (\<lambda>(rest, params).
       comp_ret ((st, changed) # rest, params))))"

text \<open>
  A refusal is an outcome, anything fatal an error. A panic of \<open>reassemble\<close>, which valid UTF-8
  excludes, would end the session task as an error does.
\<close>

definition settle :: "(sql_session \<times> 'w, rstr rejection, 'a) comp \<Rightarrow> ('a \<Rightarrow> (sql_session \<times> 'w, proxy_error, 't sql_outcome) comp)
    \<Rightarrow> (sql_session \<times> 'w, proxy_error, 't sql_outcome) comp" where
  "settle m k s =
     (case m s of
        (Ok a, s') \<Rightarrow> k a s'
      | (Err (Refused msg), s') \<Rightarrow> (Ok (Refuse msg), s')
      | (Err (Fatal e), s') \<Rightarrow> (Err e, s'))"

definition render_changed :: "('tok, 'stmt) sqlparser \<Rightarrow> rstr \<Rightarrow> ('stmt \<times> bool) list \<Rightarrow> proxy_error + rstr option" where
  "render_changed sp s out =
     (if list_ex snd out
      then (case reassemble sp s (map fst out) (map snd out) of Done r \<Rightarrow> map_ok Some r | Panic \<Rightarrow> Err (Io (bs ''panic'')))
      else Ok None)"

definition rewrite_sql :: "('tok, 'stmt) sqlparser \<Rightarrow> ('tok \<Rightarrow> token) \<Rightarrow> on_unprotected \<Rightarrow> ('stmt, 't, 'w) statement_rewrite
    \<Rightarrow> bytes \<Rightarrow> (sql_session \<times> 'w, proxy_error, 't sql_outcome) comp" where
  "rewrite_sql sp view mode rewrite query s =
     (if utf8_decode query = None then (unprotected_sql mode NonUtf8, s)
      else
        let (moved, parsed) = (case sp_tokenize sp query of
               Ok tokens \<Rightarrow> (settings_moved (map view tokens), parse_tokens sp tokens query)
             | Err error \<Rightarrow> ([], Err error));
            aligned = (case parsed of Ok sts \<Rightarrow> length sts = length moved | Err _ \<Rightarrow> False);
            upfront = startup_moved (fst s) @ (if aligned then [] else concat moved);
            s = ((fst s)\<lparr>startup_moved := []\<rparr>, snd s) in
        settle (on_settings (note_session_state mode upfront)) (\<lambda>_ s.
          case parsed of
            Err error \<Rightarrow> (unprotected_sql mode (Unparseable error), s)
          | Ok sts \<Rightarrow>
              settle (rewrite_statements mode rewrite sts (if aligned then moved else []) []) (\<lambda>(out, params).
                comp_bind (comp_of (render_changed sp query out)) (\<lambda>rewritten.
                  comp_ret (Rewrite \<lparr>ro_rewritten = rewritten, ro_params = params\<rparr>))) s) s)"


section \<open>Settings move in statement order\<close>

definition apply_moves :: "setting_moved list \<Rightarrow> sql_session \<Rightarrow> sql_session" where
  "apply_moves moved q = q\<lparr>search_path_trusted := search_path_trusted q \<and> MovedSearchPath \<notin> set moved,
     escape_strings := escape_strings q \<or> MovedEscapeStrings \<in> set moved\<rparr>"

lemma apply_moves_Nil [simp]: "apply_moves [] q = q"
  by (simp add: apply_moves_def)

lemma apply_moves_append: "apply_moves (a @ b) q = apply_moves b (apply_moves a q)"
  by (simp add: apply_moves_def conj_ac disj_ac)

lemma note_session_state_warn: "note_session_state Warn moved q = (Ok (), apply_moves moved q)"
proof (induction moved arbitrary: q)
  case Nil
  then show ?case by simp
next
  case (Cons m moved)
  have "apply_moves (m # moved) q = apply_moves moved (apply_moves [m] q)" using apply_moves_append [of "[m]" moved q] by simp
  then show ?case using Cons by (cases m) (simp_all add: unprotected_def apply_moves_def)
qed

text \<open>Each statement rewritten under the settings it is given.\<close>

fun rewrite_each :: "('stmt, 't, 'w) statement_rewrite \<Rightarrow> sql_session list \<Rightarrow> 'stmt list \<Rightarrow> 't param_transforms
    \<Rightarrow> ('w, rstr rejection, ('stmt \<times> bool) list \<times> 't param_transforms) comp" where
  "rewrite_each rewrite qs [] params = comp_ret ([], params)"
| "rewrite_each rewrite qs (st # sts) params =
     comp_bind (rewrite (hd qs) st params) (\<lambda>(changed, st, params).
     comp_bind (rewrite_each rewrite (tl qs) sts params) (\<lambda>(rest, params).
       comp_ret ((st, changed) # rest, params)))"

definition sessions :: "sql_session \<Rightarrow> setting_moved list list \<Rightarrow> sql_session list" where
  "sessions q moved = map (\<lambda>j. apply_moves (concat (take (Suc j) moved)) q) [0..<length moved]"

lemma sessions_Cons: "sessions q (m # moved) = apply_moves m q # sessions (apply_moves m q) moved"
proof -
  have up: "[0..<length (m # moved)] = 0 # map Suc [0..<length moved]" by (simp add: map_Suc_upt upt_conv_Cons del: upt_Suc)
  show ?thesis unfolding sessions_def up by (simp add: apply_moves_append)
qed

lemma rewrite_statements_each:
  assumes "length moved = length sts"
  shows "\<exists>q'. rewrite_statements Warn rewrite sts moved params (q, w) =
    (case rewrite_each rewrite (sessions q moved) sts params w of (r, w') \<Rightarrow> (r, (q', w')))"
  using assms
proof (induction sts arbitrary: moved params q w)
  case Nil
  then show ?case by simp
next
  case (Cons st sts)
  then obtain m ms where m: "moved = m # ms" "length ms = length sts" by (cases moved) auto
  let ?q = "apply_moves m q"
  obtain r w1 where r: "rewrite ?q st params w = (r, w1)" by force
  show ?case
  proof (cases r)
    case (Inl e)
    then show ?thesis
      using r by (simp add: m sessions_Cons comp_bind_def on_settings_def note_session_state_warn on_process_def)
  next
    case (Inr p)
    obtain changed st' params' where p: "p = (changed, st', params')" by (metis prod_cases3)
    obtain q' where "rewrite_statements Warn rewrite sts ms params' (?q, w1) =
        (case rewrite_each rewrite (sessions ?q ms) sts params' w1 of (r, w') \<Rightarrow> (r, (q', w')))"
      using Cons.IH [OF m(2)] by blast
    then show ?thesis
      using r Inr p
      by (auto simp: m sessions_Cons comp_bind_def on_settings_def note_session_state_warn on_process_def
          split: prod.splits sum.splits intro!: exI [of _ q'])
  qed
qed


section \<open>Properties\<close>



text \<open>
  C39. In reject mode no text the proxy cannot read reaches the server: a query that is not UTF-8,
  does not tokenize or does not parse is refused, as is one that moves a tracked setting somewhere in
  a batch whose tokens do not line up with its statements.
\<close>

theorem unreadable_sql_refused:
  assumes "utf8_decode query = None
    \<or> (\<exists>e. sp_tokenize sp query = Err e)
    \<or> (\<exists>ts e. sp_tokenize sp query = Ok ts \<and> parse_tokens sp ts query = Err e)
    \<or> (\<exists>ts sts. sp_tokenize sp query = Ok ts \<and> parse_tokens sp ts query = Ok sts
        \<and> length sts \<noteq> length (settings_moved (map view ts)) \<and> concat (settings_moved (map view ts)) \<noteq> [])"
  shows "\<exists>site s'. rewrite_sql sp view Reject rewrite query s = (Ok (Refuse (message site)), s')"
proof -
  have refused: "\<exists>site q'. note_session_state Reject (m # moved) q = (Err (Refused (message site)), q')" for m moved q
    by (cases m) (auto simp: unprotected_def comp_bind_def)
  have settled: "\<exists>site s'. settle (on_settings (note_session_state Reject moved)) k s = (Ok (Refuse (message site)), s')"
    if k: "moved \<noteq> [] \<or> (\<forall>s. \<exists>site. k () s = (Ok (Refuse (message site)), s))" for moved k s
  proof (cases moved)
    case Nil
    then obtain site where "k () s = (Ok (Refuse (message site)), s)" using k by blast
    then show ?thesis using Nil by (intro exI [of _ site] exI [of _ s]) (simp add: settle_def on_settings_def)
  next
    case (Cons m ms)
    obtain site q' where "note_session_state Reject (m # ms) (fst s) = (Err (Refused (message site)), q')" using refused by blast
    then show ?thesis using Cons by (auto simp: settle_def on_settings_def)
  qed
  consider "utf8_decode query = None" | e where "utf8_decode query \<noteq> None" "sp_tokenize sp query = Err e"
    | ts e where "utf8_decode query \<noteq> None" "sp_tokenize sp query = Ok ts" "parse_tokens sp ts query = Err e"
    | ts sts where "utf8_decode query \<noteq> None" "sp_tokenize sp query = Ok ts" "parse_tokens sp ts query = Ok sts"
        "length sts \<noteq> length (settings_moved (map view ts))" "concat (settings_moved (map view ts)) \<noteq> []"
    using assms by (cases "utf8_decode query = None") (simp, elim disjE exE conjE, simp_all)
  then show ?thesis
    by cases (auto simp: rewrite_sql_def unprotected_sql_def unprotected_def Let_def simp del: concat_eq_Nil_conv split_paired_Ex split_paired_All intro!: settled)
qed

theorem unreadable_sql_refused_witness:
  "\<exists>site s'. rewrite_sql sample_parser (\<lambda>_. OtherToken) Reject (\<lambda>q st params w. (Ok (False, st, params), w)) [255] (sql_session_new default_settings, ())
     = (Ok (Refuse (message site)), s')"
proof -
  have "utf8_decode [255] = None" by code_simp
  then show ?thesis using unreadable_sql_refused by blast
qed

end
