(* ===== verification/Frame.thy ===== *)
theory Frame
  imports Statements ArrayCodec
begin

text \<open>
  The frame layer of the write path (\<open>crates/proxy/src/encrypt/frame.rs\<close>): every frame a client
  sends passes \<open>QueryRewriter::on_frame\<close>. The fixed parts of a \<open>QueryRewriter\<close> are the record
  \<open>rewriter\<close>, what it changes is the record \<open>write_state\<close>: the settings of its session, the process
  state behind the transforms, the state it shares with the read path, the transaction status the
  read path stores, and whether it discards until a Sync.

  \<open>rw_deref\<close> is the transform behind a handle, \<open>rw_why\<close> renders the reason a row key was refused
  for, and \<open>rw_rewrite\<close> is the rewrite of one parsed statement.
\<close>

record ('tok, 'stmt, 't, 'k) rewriter =
  rw_externs :: externs
  rw_keys :: "'k key_source"
  rw_parser :: "('tok, 'stmt) sqlparser"
  rw_view :: "'tok \<Rightarrow> token"
  rw_mode :: on_unprotected
  rw_rewrite :: "('stmt, 't, 'k world) statement_rewrite"
  rw_deref :: "'t \<Rightarrow> field_transform"
  rw_why :: "row_key_why \<Rightarrow> rstr"

record ('t, 'p, 'k) write_state =
  ws_session :: sql_session
  ws_world :: "'k world"
  ws_tracked :: "('t, 'p) tracked"
  ws_tx_status :: byte
  ws_awaiting_sync :: bool

definition write_state_new :: "startup_settings \<Rightarrow> 'k world \<Rightarrow> ('t, 'p) tracked \<Rightarrow> byte \<Rightarrow> ('t, 'p, 'k) write_state" where
  "write_state_new startup wd t tx =
     \<lparr>ws_session = sql_session_new startup, ws_world = wd, ws_tracked = t, ws_tx_status = tx, ws_awaiting_sync = False\<rparr>"

definition on_tracked :: "(('t, 'p) tracked, 'e, 'a) comp \<Rightarrow> (('t, 'p, 'k) write_state, 'e, 'a) comp" where
  "on_tracked m s = (case m (ws_tracked s) of (r, t) \<Rightarrow> (r, s\<lparr>ws_tracked := t\<rparr>))"

definition on_world :: "('k world, 'e, 'a) comp \<Rightarrow> (('t, 'p, 'k) write_state, 'e, 'a) comp" where
  "on_world m s = (case m (ws_world s) of (r, wd) \<Rightarrow> (r, s\<lparr>ws_world := wd\<rparr>))"

definition on_sql :: "(sql_session \<times> 'k world, 'e, 'a) comp \<Rightarrow> (('t, 'p, 'k) write_state, 'e, 'a) comp" where
  "on_sql m s = (case m (ws_session s, ws_world s) of (r, (q, wd)) \<Rightarrow> (r, s\<lparr>ws_session := q, ws_world := wd\<rparr>))"


section \<open>Parameters\<close>

definition record_param :: "'t param_transforms \<Rightarrow> nat \<Rightarrow> 't param_action \<Rightarrow> rstr rejection + 't param_transforms" where
  "record_param params index action =
     (case record_action params index action of
        Ok params \<Rightarrow> Ok params
      | Err (ConflictingParameter placeholder) \<Rightarrow> Err (Refused (
          bs ''dbsec refused this statement: placeholder $'' @ dec_of (int placeholder)
          @ bs '' feeds two protected positions that need different values, and a Bind carries one value per ''
          @ bs ''placeholder; give each position its own placeholder''))
      | Err other \<Rightarrow> Err (Fatal other))"

text \<open>\<open>bind.params.get(index).copied().flatten()\<close>.\<close>

definition bound_param :: "bind_message \<Rightarrow> nat \<Rightarrow> bytes option" where
  "bound_param m index = (if index < length (bm_params m) then bm_params m ! index else None)"

fun bind_row_key :: "externs \<Rightarrow> (row_key_why \<Rightarrow> rstr) \<Rightarrow> row_key_source \<Rightarrow> bind_message \<Rightarrow> rstr rejection + row_key option" where
  "bind_row_key x show_why NoRow m = Ok None"
| "bind_row_key x show_why (Literal key) m = Ok (Some key)"
| "bind_row_key x show_why (Param index tyoid col) m =
     (case res_bind (value_format (param_format m index)) (\<lambda>fmt. canonical x tyoid fmt (bound_param m index)) of
        Ok key \<Rightarrow> Ok (Some key)
      | Err (RowKeyType why) \<Rightarrow> Err (Refused (
          bs ''dbsec refused this statement: placeholder $'' @ dec_of (int (index + 1)) @ bs '' supplies the row key ''
          @ col @ bs '' that this statement's protected values are sealed against, but '' @ show_why why
          @ bs ''; bind a usable '' @ col @ bs '' for the row being written''))
      | Err other \<Rightarrow> Err (Fatal (Wire other)))"

definition encode_param :: "externs \<Rightarrow> bytes \<Rightarrow> wire_form \<Rightarrow> bool \<Rightarrow> bytes" where
  "encode_param x value wire binary =
     (case wire of
        TextForm \<Rightarrow> value
      | Bytea \<Rightarrow> if binary then value else bs [CHR 0x5C, CHR ''x''] @ x_hex_encode x value)"

definition describe_target :: "bytes \<Rightarrow> proxy_error + target \<times> bytes" where
  "describe_target body =
     (case body of
        [] \<Rightarrow> Err (Wire Malformed)
      | kind # rest \<Rightarrow>
          res_bind (if kind = 83 then Ok TStatement else if kind = 80 then Ok TPortal else Err (Wire Malformed)) (\<lambda>target.
          res_bind (of_wire (take_cstr rest)) (\<lambda>(name, _). Ok (target, name))))"


section \<open>Bind\<close>

text \<open>Errors of a transform end the session: \<open>?\<close> in a function that returns \<open>Error\<close>.\<close>

definition fatal :: "('s, core_error, 'a) comp \<Rightarrow> ('s, rstr rejection, 'a) comp" where
  "fatal m s = (case m s of (r, s') \<Rightarrow> (map_err (\<lambda>e. Fatal (Wire e)) r, s'))"

text \<open>What replaces one bound value, or the column whose array could not be indexed.\<close>

fun bind_action :: "('tok, 'stmt, 't, 'k) rewriter \<Rightarrow> bind_message \<Rightarrow> bool \<Rightarrow> 't param_action \<Rightarrow> bytes
    \<Rightarrow> ('k world, rstr rejection, rstr + bytes) comp" where
  "bind_action W m binary (Seal t rk) v =
     comp_bind (comp_of (bind_row_key (rw_externs W) (rw_why W) rk m)) (\<lambda>key.
     comp_bind (fatal (tr_seal (rw_externs W) (rw_keys W) (rw_deref W t) v key)) (\<lambda>stored.
       comp_ret (Ok (encode_param (rw_externs W) stored (tr_wire (rw_deref W t)) binary))))"
| "bind_action W m binary (SearchIndex t) v =
     comp_bind (fatal (tr_search_index (rw_externs W) (rw_keys W) (rw_deref W t) v)) (\<lambda>token.
       case token of
         None \<Rightarrow> comp_of (Err (Fatal (Wire Malformed)))
       | Some token \<Rightarrow> comp_ret (Ok (encode_param (rw_externs W) token Bytea binary)))"
| "bind_action W m binary (SearchIndexArray t col) v =
     comp_bind (fatal (index_array (rw_externs W) (rw_keys W) v binary (rw_deref W t))) (\<lambda>indexed.
       comp_ret (case indexed of Some a \<Rightarrow> Ok a | None \<Rightarrow> Err col))"

fun bind_params :: "('tok, 'stmt, 't, 'k) rewriter \<Rightarrow> bind_message \<Rightarrow> 't param_transforms \<Rightarrow> bytes option list \<Rightarrow> rstr list
    \<Rightarrow> ('k world, rstr rejection, bytes option list \<times> rstr list) comp" where
  "bind_params W m [] vs unindexed = comp_ret (vs, unindexed)"
| "bind_params W m ((index, action) # ps) vs unindexed =
     (case (if index < length vs then vs ! index else None) of
        None \<Rightarrow> bind_params W m ps vs unindexed
      | Some v \<Rightarrow>
          comp_bind (bind_action W m (param_format m index = 1) action v) (\<lambda>r.
            case r of
              Ok replacement \<Rightarrow> bind_params W m ps (vs[index := Some replacement]) unindexed
            | Err col \<Rightarrow> bind_params W m ps vs (unindexed @ [col])))"

text \<open>A refusal is answered by the proxy, which then owns the batch until Sync.\<close>

definition or_refuse :: "(('t, 'p, 'k) write_state, rstr rejection, 'a) comp
    \<Rightarrow> ('a \<Rightarrow> (('t, 'p, 'k) write_state, proxy_error, frame_action) comp) \<Rightarrow> (('t, 'p, 'k) write_state, proxy_error, frame_action) comp" where
  "or_refuse m k s =
     (case m s of
        (Ok a, s') \<Rightarrow> k a s'
      | (Err (Refused msg), s') \<Rightarrow> (Ok (Reply (error_response msg)), s'\<lparr>ws_awaiting_sync := True\<rparr>)
      | (Err (Fatal e), s') \<Rightarrow> (Err e, s'))"

definition check_unindexed :: "on_unprotected \<Rightarrow> rstr list \<Rightarrow> rstr rejection + unit" where
  "check_unindexed mode unindexed =
     (if unindexed = [] then Ok ()
      else unprotected mode (Predicate (join (bs '', '') unindexed) (bs ''= ANY bound array'')))"

text \<open>A Bind of a statement with recorded parameters.\<close>

definition bind_recorded :: "('tok, 'stmt, 't, 'k) rewriter \<Rightarrow> bind_message \<Rightarrow> 't param_transforms
    \<Rightarrow> (('t, 'p, 'k) write_state, proxy_error, frame_action) comp" where
  "bind_recorded W m params =
     or_refuse (on_world (bind_params W m params (bm_params m) [])) (\<lambda>(vs, unindexed).
     or_refuse (comp_of (check_unindexed (rw_mode W) unindexed)) (\<lambda>_.
     comp_bind (comp_of (of_wire (encode_bind (bm_portal m) (bm_statement m) (bm_param_formats m) vs (bm_result_formats m)))) (\<lambda>b.
       comp_ret (Replace b))))"

definition rewriter_bind :: "('tok, 'stmt, 't, 'k) rewriter \<Rightarrow> bytes \<Rightarrow> (('t, 'p, 'k) write_state, proxy_error, frame_action) comp" where
  "rewriter_bind W body =
     comp_bind (comp_of (of_wire (parse_bind body))) (\<lambda>m.
     comp_bind (comp_of (of_wire (result_format_codes m))) (\<lambda>codes.
     comp_bind (on_tracked (bind_portal (bm_portal m) (bm_statement m) (Some codes))) (\<lambda>params.
       case params of
         None \<Rightarrow> comp_ret Relay
       | Some params \<Rightarrow> if params = [] then comp_ret Relay else bind_recorded W m params)))"


section \<open>Every frame\<close>

definition ready_for_query :: "byte \<Rightarrow> bytes" where
  "ready_for_query tx = frame 90 [if tx = 84 \<or> tx = 69 then 69 else 73]"

definition discard_until_sync :: "byte \<Rightarrow> ('t, 'p, 'k) write_state \<Rightarrow> frame_action \<times> ('t, 'p, 'k) write_state" where
  "discard_until_sync msg_type s =
     (if msg_type = 83 then (Reply (ready_for_query (ws_tx_status s)), s\<lparr>ws_awaiting_sync := False\<rparr>)
      else if msg_type = 88 then (Relay, s\<lparr>ws_awaiting_sync := False\<rparr>)
      else (Reply [], s))"

definition rewriter_sql :: "('tok, 'stmt, 't, 'k) rewriter \<Rightarrow> bytes \<Rightarrow> (('t, 'p, 'k) write_state, proxy_error, 't sql_outcome) comp" where
  "rewriter_sql W query = on_sql (rewrite_sql (rw_parser W) (rw_view W) (rw_mode W) (rw_rewrite W) query)"

definition on_query :: "('tok, 'stmt, 't, 'k) rewriter \<Rightarrow> bytes \<Rightarrow> (('t, 'p, 'k) write_state, proxy_error, frame_action) comp" where
  "on_query W body =
     comp_bind (comp_of (of_wire (take_cstr body))) (\<lambda>(query, _).
     comp_bind (rewriter_sql W query) (\<lambda>outcome.
       case outcome of
         Refuse msg \<Rightarrow> (\<lambda>s. (Ok (Reply (error_response msg @ ready_for_query (ws_tx_status s))), s))
       | Rewrite out \<Rightarrow>
           comp_bind (on_tracked expect_batch) (\<lambda>_.
             comp_ret (case ro_rewritten out of None \<Rightarrow> Relay | Some sql \<Rightarrow> Replace (sql @ [0])))))"

definition on_parse :: "('tok, 'stmt, 't, 'k) rewriter \<Rightarrow> bytes \<Rightarrow> (('t, 'p, 'k) write_state, proxy_error, frame_action) comp" where
  "on_parse W body =
     comp_bind (comp_of (of_wire (parse_parse body))) (\<lambda>p.
     comp_bind (rewriter_sql W (pm_query p)) (\<lambda>outcome.
       case outcome of
         Refuse msg \<Rightarrow> (\<lambda>s. (Ok (Reply (error_response msg)), s\<lparr>ws_awaiting_sync := True\<rparr>))
       | Rewrite out \<Rightarrow>
           comp_bind (on_tracked (parse (pm_statement p) (ro_params out))) (\<lambda>_.
             comp_ret (case ro_rewritten out of
               None \<Rightarrow> Relay
             | Some sql \<Rightarrow> Replace (encode_parse (pm_statement p) sql (pm_param_types p))))))"

definition rewriter_on_frame :: "('tok, 'stmt, 't, 'k) rewriter \<Rightarrow> byte \<Rightarrow> bytes
    \<Rightarrow> (('t, 'p, 'k) write_state, proxy_error, frame_action) comp" where
  "rewriter_on_frame W msg_type body s =
     (if ws_awaiting_sync s then (case discard_until_sync msg_type s of (a, s') \<Rightarrow> (Ok a, s'))
      else if msg_type = 81 then on_query W body s
      else if msg_type = 80 then on_parse W body s
      else if msg_type = 66 then rewriter_bind W body s
      else if msg_type = 68 then
        comp_bind (comp_of (describe_target body)) (\<lambda>(target, name).
        comp_bind (on_tracked (expect_describe target name)) (\<lambda>_. comp_ret Relay)) s
      else if msg_type = 69 then
        comp_bind (comp_of (of_wire (take_cstr body))) (\<lambda>(po, _).
        comp_bind (on_tracked (expect_execute po)) (\<lambda>_. comp_ret Relay)) s
      else if msg_type = 83 \<or> msg_type = 70 then
        comp_bind (on_tracked expect_batch) (\<lambda>_. comp_ret Relay) s
      else if msg_type = 100 \<or> msg_type = 99 \<or> msg_type = 102 then
        (Ok Relay, s\<lparr>ws_tracked := copy_data msg_type (ws_tracked s)\<rparr>)
      else if msg_type = 67 then
        comp_bind (comp_of (describe_target body)) (\<lambda>(target, name) s.
          (Ok Relay, s\<lparr>ws_tracked :=
             (case target of TStatement \<Rightarrow> close_statement name (ws_tracked s) | TPortal \<Rightarrow> close_portal name (ws_tracked s))\<rparr>)) s
      else (Ok Relay, s))"

end
