(* ===== verification/FrameProps.thy ===== *)
theory FrameProps
  imports Frame RowsProps PortalSystem
begin

text \<open>
  What the write path puts on the wire: every recorded parameter of a forwarded Bind is sealed or
  indexed and nothing else changes, sealed parameters read back through the read path, and a refused
  batch is answered by the proxy alone.
\<close>

section \<open>Actions on the process state\<close>

fun handle :: "'t param_action \<Rightarrow> 't" where
  "handle (Seal t _) = t"
| "handle (SearchIndex t) = t"
| "handle (SearchIndexArray t _) = t"

definition params_wf :: "(nat \<Rightarrow> rstr) \<Rightarrow> ('t \<Rightarrow> field_transform) \<Rightarrow> 't param_transforms \<Rightarrow> bool" where
  "params_wf nm deref ps \<longleftrightarrow> list_all (\<lambda>(_, a). tr_wf nm (deref (handle a))) ps"

text \<open>
  What one action makes of a bound value, in some state of the process that satisfies \<open>good\<close>. An array
  that cannot be indexed is left as it is.
\<close>

fun bound_as :: "('tok, 'stmt, 't, 'k) rewriter \<Rightarrow> ('k world \<Rightarrow> bool) \<Rightarrow> bind_message \<Rightarrow> bool \<Rightarrow> 't param_action \<Rightarrow> bytes \<Rightarrow> bytes \<Rightarrow> bool" where
  "bound_as W good m binary (Seal t rk) v v' \<longleftrightarrow>
     (\<exists>key wd s wd'. bind_row_key (rw_externs W) (rw_why W) rk m = Ok key \<and> good wd
        \<and> tr_seal (rw_externs W) (rw_keys W) (rw_deref W t) v key wd = (Ok s, wd')
        \<and> v' = encode_param (rw_externs W) s (tr_wire (rw_deref W t)) binary)"
| "bound_as W good m binary (SearchIndex t) v v' \<longleftrightarrow>
     (\<exists>wd token wd'. good wd \<and> tr_search_index (rw_externs W) (rw_keys W) (rw_deref W t) v wd = (Ok (Some token), wd')
        \<and> v' = encode_param (rw_externs W) token Bytea binary)"
| "bound_as W good m binary (SearchIndexArray t col) v v' \<longleftrightarrow>
     (\<exists>wd r wd'. good wd \<and> index_array (rw_externs W) (rw_keys W) v binary (rw_deref W t) wd = (Ok r, wd')
        \<and> v' = (case r of Some a \<Rightarrow> a | None \<Rightarrow> v) \<and> (r = None \<longrightarrow> rw_mode W = Warn))"

lemma fatal_eq [simp]: "fatal m s = (Ok a, s') \<longleftrightarrow> m s = (Ok a, s')"
  by (auto simp: fatal_def map_err_eq_Ok split: prod.splits)

text \<open>The same before the mode has been consulted: an array left as it is is named by its column.\<close>

definition replaced_by :: "('tok, 'stmt, 't, 'k) rewriter \<Rightarrow> ('k world \<Rightarrow> bool) \<Rightarrow> bind_message \<Rightarrow> bool \<Rightarrow> 't param_action
    \<Rightarrow> bytes \<Rightarrow> rstr + bytes \<Rightarrow> bool" where
  "replaced_by W good m binary a v r \<longleftrightarrow>
     (case r of Ok v' \<Rightarrow> bound_as (W\<lparr>rw_mode := Reject\<rparr>) good m binary a v v'
      | Err col \<Rightarrow> bound_as (W\<lparr>rw_mode := Warn\<rparr>) good m binary a v v)"

text \<open>One position of a Bind after the loop: \<open>un\<close> are the columns whose arrays could not be indexed.\<close>

definition carried :: "('tok, 'stmt, 't, 'k) rewriter \<Rightarrow> ('k world \<Rightarrow> bool) \<Rightarrow> bind_message \<Rightarrow> 't param_transforms \<Rightarrow> rstr list
    \<Rightarrow> nat \<Rightarrow> bytes option \<Rightarrow> bytes option \<Rightarrow> bool" where
  "carried W good m ps un i old new \<longleftrightarrow>
     (case (old, map_of ps i) of
        (Some v, Some a) \<Rightarrow> \<exists>v' r. new = Some v' \<and> replaced_by W good m (param_format m i = 1) a v r
           \<and> (case r of Ok b \<Rightarrow> v' = b | Err _ \<Rightarrow> v' = v \<and> un \<noteq> [])
      | _ \<Rightarrow> new = old)"

context key_source_laws
begin

lemma index_array_inv:
  assumes "world_inv ok dek ikey nm w" and "tr_wf nm t" and "index_array x ks v binary t w = (r, u)"
  shows "world_inv ok dek ikey nm u"
  using assms index_elements_inv [OF assms(1,2)]
  by (auto simp: index_array_def split: option.splits elim!: comp_bindE)

lemma bind_action_replaced:
  assumes ks: "rw_keys W = ks" and wd: "world_inv ok dek ikey nm wd" and wf: "tr_wf nm (rw_deref W (handle a))"
    and act: "bind_action W m binary a v wd = (Ok r, wd')"
  shows "world_inv ok dek ikey nm wd' \<and> replaced_by W (world_inv ok dek ikey nm) m binary a v r"
proof (cases a)
  case (Seal t rk)
  with act obtain key s where k: "bind_row_key (rw_externs W) (rw_why W) rk m = Ok key"
    and s: "tr_seal (rw_externs W) ks (rw_deref W t) v key wd = (Ok s, wd')"
    and r: "r = Ok (encode_param (rw_externs W) s (tr_wire (rw_deref W t)) binary)"
    by (auto simp: comp_bind_eq_Ok ks)
  then show ?thesis
    using tr_seal_inv [OF wd _ s] wf wd Seal ks by (auto simp: replaced_by_def)
next
  case (SearchIndex t)
  with act obtain token where s: "tr_search_index (rw_externs W) ks (rw_deref W t) v wd = (Ok (Some token), wd')"
    and r: "r = Ok (encode_param (rw_externs W) token Bytea binary)"
    by (auto simp: comp_bind_eq_Ok ks split: option.splits)
  have "world_inv ok dek ikey nm wd'" using search_index_inv [OF wd _ s] wf SearchIndex by simp
  then show ?thesis using s r wd SearchIndex ks by (auto simp: replaced_by_def)
next
  case (SearchIndexArray t col)
  with act obtain ix where s: "index_array (rw_externs W) ks v binary (rw_deref W t) wd = (Ok ix, wd')"
    and r: "r = (case ix of Some b \<Rightarrow> Ok b | None \<Rightarrow> Err col)"
    by (auto simp: comp_bind_eq_Ok ks)
  have "world_inv ok dek ikey nm wd'" by (rule index_array_inv [OF wd _ s]) (use wf SearchIndexArray in simp)
  moreover have "replaced_by W (world_inv ok dek ikey nm) m binary a v r"
    unfolding replaced_by_def SearchIndexArray r using s wd ks
    by (cases ix) (auto intro!: exI [of _ wd])
  ultimately show ?thesis by blast
qed

lemma bind_params_carried:
  assumes ks: "rw_keys W = ks" and "world_inv ok dek ikey nm wd" and "params_wf nm (rw_deref W) ps" and "distinct (map fst ps)"
    and "bind_params W m ps vs un wd = (Ok (vs', un'), wd')"
  shows "world_inv ok dek ikey nm wd' \<and> length vs' = length vs \<and> (un \<noteq> [] \<longrightarrow> un' \<noteq> [])
    \<and> (\<forall>i < length vs. carried W (world_inv ok dek ikey nm) m ps un' i (vs ! i) (vs' ! i))"
  using assms(2-)
proof (induction ps arbitrary: vs un wd)
  case Nil
  then show ?case by (auto simp: carried_def split: option.splits)
next
  case (Cons p ps)
  obtain i a where p: "p = (i, a)" by force
  have wf: "tr_wf nm (rw_deref W (handle a))" "params_wf nm (rw_deref W) ps" and d: "i \<notin> fst ` set ps" "distinct (map fst ps)"
    using Cons.prems(2,3) by (auto simp: p params_wf_def)
  let ?v = "if i < length vs then vs ! i else None"
  show ?case
  proof (cases ?v)
    case None
    then have "bind_params W m ps vs un wd = (Ok (vs', un'), wd')" using Cons.prems(4) by (simp add: p)
    note ih = Cons.IH [OF Cons.prems(1) wf(2) d(2) this]
    then show ?thesis using None by (auto simp: carried_def p split: if_splits option.splits)
  next
    case (Some v)
    then have i: "i < length vs" "vs ! i = Some v" by (auto split: if_splits)
    then obtain r u where act: "bind_action W m (param_format m i = 1) a v wd = (Ok r, u)"
      and rest: "(case r of Ok b \<Rightarrow> bind_params W m ps (vs[i := Some b]) un | Err col \<Rightarrow> bind_params W m ps vs (un @ [col])) u = (Ok (vs', un'), wd')"
      using Cons.prems(4) by (auto simp: p comp_bind_eq_Ok)
    have u: "world_inv ok dek ikey nm u" "replaced_by W (world_inv ok dek ikey nm) m (param_format m i = 1) a v r"
      using bind_action_replaced [OF ks Cons.prems(1) wf(1) act] by simp_all
    define vs1 where "vs1 = (case r of Ok b \<Rightarrow> vs[i := Some b] | Err _ \<Rightarrow> vs)"
    define un1 where "un1 = (case r of Ok _ \<Rightarrow> un | Err col \<Rightarrow> un @ [col])"
    have "bind_params W m ps vs1 un1 u = (Ok (vs', un'), wd')" using rest by (simp add: vs1_def un1_def split: sum.splits)
    note ih = Cons.IH [OF u(1) wf(2) d(2) this]
    have "map_of ps i = None" using d(1) by (simp add: map_of_eq_None_iff)
    then have at: "vs' ! i = vs1 ! i" using ih i(1) by (auto simp: carried_def vs1_def split: sum.splits option.splits)
    have other: "vs1 ! j = vs ! j" if "j \<noteq> i" for j using that by (simp add: vs1_def split: sum.splits)
    have "carried W (world_inv ok dek ikey nm) m (p # ps) un' j (vs ! j) (vs' ! j)" if j: "j < length vs" for j
    proof (cases "j = i")
      case True
      have "un' \<noteq> []" if "r = Err col" for col using ih that by (simp add: un1_def)
      then show ?thesis
        using u(2) i at by (cases r) (auto simp: True carried_def p vs1_def intro!: exI [of _ r])
    next
      case False
      then have "carried W (world_inv ok dek ikey nm) m ps un' j (vs ! j) (vs' ! j)"
        using ih j other [OF False] by (auto simp: vs1_def split: sum.splits)
      then show ?thesis using False by (simp add: carried_def p split: option.splits)
    qed
    then show ?thesis using ih by (auto simp: vs1_def un1_def split: sum.splits)
  qed
qed

end


section \<open>A forwarded Bind\<close>

lemma parse_encode_bind:
  assumes "parse_bind body = Ok m"
    and "encode_bind (bm_portal m) (bm_statement m) (bm_param_formats m) vs (bm_result_formats m) = Ok b"
  shows "parse_bind b = Ok (m\<lparr>bm_params := vs\<rparr>)"
proof -
  have self: "n < 2 ^ 15 \<Longrightarrow> counts_for n (of_nat n)" for n by (auto simp: counts_for_def)
  show ?thesis using assms self unfolding parse_bind_eq_Ok encode_bind_eq_Ok by auto
qed

definition forwarded :: "('tok, 'stmt, 't, 'k) rewriter \<Rightarrow> ('k world \<Rightarrow> bool) \<Rightarrow> bind_message \<Rightarrow> 't param_transforms
    \<Rightarrow> nat \<Rightarrow> bytes option \<Rightarrow> bytes option \<Rightarrow> bool" where
  "forwarded W good m ps i old new \<longleftrightarrow>
     (case (old, map_of ps i) of
        (Some v, Some a) \<Rightarrow> \<exists>v'. new = Some v' \<and> bound_as W good m (param_format m i = 1) a v v'
      | _ \<Rightarrow> new = old)"

lemma bound_as_strict: "bound_as (W\<lparr>rw_mode := Reject\<rparr>) good m binary a v v' \<Longrightarrow> bound_as W good m binary a v v'"
  by (cases a) fastforce+

lemma carried_forwarded:
  assumes "carried W good m ps un i old new" and "check_unindexed (rw_mode W) un = Ok ()"
  shows "forwarded W good m ps i old new"
proof -
  have warn: "W\<lparr>rw_mode := Warn\<rparr> = W" if "un \<noteq> []"
    using assms(2) that by (cases "rw_mode W") (simp_all add: check_unindexed_def unprotected_def)
  have "bound_as W good m binary a v (case r of Ok b \<Rightarrow> b | Err _ \<Rightarrow> v)"
    if "replaced_by W good m binary a v r" "\<And>c. r = Err c \<Longrightarrow> un \<noteq> []" for binary a v r
    using that warn bound_as_strict by (cases r) (auto simp: replaced_by_def)
  note bound = this
  show ?thesis
  proof (cases "old = None \<or> map_of ps i = None")
    case True
    then show ?thesis using assms(1) by (auto simp: carried_def forwarded_def split: option.splits)
  next
    case False
    then obtain v a where va: "old = Some v" "map_of ps i = Some a" by auto
    then obtain v' r where r: "new = Some v'" "replaced_by W good m (param_format m i = 1) a v r"
      "case r of Ok b \<Rightarrow> v' = b | Err _ \<Rightarrow> v' = v \<and> un \<noteq> []"
      using assms(1) by (auto simp: carried_def)
    have "v' = (case r of Ok b \<Rightarrow> b | Err _ \<Rightarrow> v)" and "\<And>c. r = Err c \<Longrightarrow> un \<noteq> []"
      using r(3) by (auto split: sum.splits)
    then show ?thesis using bound [OF r(2)] va r(1) by (simp add: forwarded_def)
  qed
qed

lemma or_refuse_eq:
  "or_refuse m k s = (r, s') \<longleftrightarrow>
     (\<exists>a u. m s = (Ok a, u) \<and> k a u = (r, s'))
     \<or> (\<exists>msg u. m s = (Err (Refused msg), u) \<and> r = Ok (Reply (error_response msg)) \<and> s' = u\<lparr>ws_awaiting_sync := True\<rparr>)
     \<or> (\<exists>e. m s = (Err (Fatal e), s') \<and> r = Err e)"
  by (auto simp: or_refuse_def split: prod.splits sum.splits rejection.splits)

lemma on_tracked_eq: "on_tracked m s = (r, u) \<longleftrightarrow> (\<exists>t. m (ws_tracked s) = (r, t) \<and> u = s\<lparr>ws_tracked := t\<rparr>)"
  by (auto simp: on_tracked_def split: prod.splits)

lemma on_world_eq: "on_world m s = (r, u) \<longleftrightarrow> (\<exists>wd. m (ws_world s) = (r, wd) \<and> u = s\<lparr>ws_world := wd\<rparr>)"
  by (auto simp: on_world_def split: prod.splits)

lemma rewriter_bindE:
  assumes "rewriter_bind W body s = (Ok a, s')"
  obtains m codes ps t where "parse_bind body = Ok m" "result_format_codes m = Ok codes"
    "bind_portal (bm_portal m) (bm_statement m) (Some codes) (ws_tracked s) = (Ok ps, t)"
    "if ps = None \<or> ps = Some [] then a = Relay \<and> s' = s\<lparr>ws_tracked := t\<rparr>
     else bind_recorded W m (the ps) (s\<lparr>ws_tracked := t\<rparr>) = (Ok a, s')"
proof -
  obtain m codes ps u where m: "parse_bind body = Ok m" "result_format_codes m = Ok codes"
    and b: "on_tracked (bind_portal (bm_portal m) (bm_statement m) (Some codes)) s = (Ok ps, u)"
    and rest: "(case ps of None \<Rightarrow> comp_ret Relay | Some params \<Rightarrow> if params = [] then comp_ret Relay else bind_recorded W m params) u = (Ok a, s')"
    using assms by (auto simp: rewriter_bind_def comp_bind_eq_Ok map_err_eq_Ok)
  from b obtain t where t: "bind_portal (bm_portal m) (bm_statement m) (Some codes) (ws_tracked s) = (Ok ps, t)" "u = s\<lparr>ws_tracked := t\<rparr>"
    by (auto simp: on_tracked_eq)
  show thesis
    by (rule that [OF m t(1)]) (use rest t(2) in \<open>cases ps; auto\<close>)
qed

lemma bind_frame:
  assumes laws: "key_source_laws (rw_keys W) ok dek ikey" and wd: "world_inv ok dek ikey nm (ws_world s)" and run: "\<not> ws_awaiting_sync s"
    and m: "parse_bind body = Ok m" and st: "map_of (statements (ws_tracked s)) (bm_statement m) = Some st"
    and d: "distinct (map fst (st_params st))" and wf: "params_wf nm (rw_deref W) (st_params st)"
    and on: "rewriter_on_frame W 66 body s = (Ok a, s')"
  shows "case a of
      Relay \<Rightarrow> st_params st = []
    | Replace b \<Rightarrow> (\<exists>vs. parse_bind b = Ok (m\<lparr>bm_params := vs\<rparr>) \<and> length vs = length (bm_params m)
        \<and> (\<forall>i < length vs. forwarded W (world_inv ok dek ikey nm) m (st_params st) i (bm_params m ! i) (vs ! i)))
    | Reply r \<Rightarrow> ws_awaiting_sync s'
    | RefuseAndClose r \<Rightarrow> False"
proof -
  from on run have "rewriter_bind W body s = (Ok a, s')" by (simp add: rewriter_on_frame_def)
  then obtain m' codes ps t where "parse_bind body = Ok m'" "result_format_codes m' = Ok codes"
    and b: "bind_portal (bm_portal m') (bm_statement m') (Some codes) (ws_tracked s) = (Ok ps, t)"
    and rest: "if ps = None \<or> ps = Some [] then a = Relay \<and> s' = s\<lparr>ws_tracked := t\<rparr>
     else bind_recorded W m' (the ps) (s\<lparr>ws_tracked := t\<rparr>) = (Ok a, s')"
    by (rule rewriter_bindE)
  with m have m': "m' = m" by simp
  have ps: "ps = Some (st_params st)" using bind_portal_Ok(2) [OF b] st by (simp add: m')
  let ?u = "s\<lparr>ws_tracked := t\<rparr>"
  have uw: "ws_world ?u = ws_world s" by simp
  show ?thesis
  proof (cases "st_params st = []")
    case True
    then show ?thesis using rest ps by simp
  next
    case False
    then have "bind_recorded W m (st_params st) ?u = (Ok a, s')" using rest ps m' by simp
    then show ?thesis
      unfolding bind_recorded_def or_refuse_eq
    proof (elim disjE exE conjE, goal_cases)
      case (1 r u1)
      obtain vs un where r: "r = (vs, un)" by force
      obtain wd' where b: "bind_params W m (st_params st) (bm_params m) [] (ws_world ?u) = (Ok (vs, un), wd')"
        using 1(1) r by (auto simp: on_world_eq)
      note c = key_source_laws.bind_params_carried [OF laws refl wd [folded uw] wf d b]
      from 1(2) show ?case
        unfolding r prod.case or_refuse_eq
        using c parse_encode_bind [OF m]
        by (auto simp: comp_bind_eq_Ok map_err_eq_Ok intro!: exI [of _ vs] carried_forwarded [of W _ _ _ un])
    qed auto
  qed
qed


section \<open>From a Bind to the rows that read it back\<close>

text \<open>
  What the server stores for a bound value. A text-format parameter of a \<open>bytea\<close> column is written in
  the hex input form, any other value is stored as sent.
\<close>

definition server_stores :: "externs \<Rightarrow> wire_form \<Rightarrow> bool \<Rightarrow> bytes \<Rightarrow> bytes \<Rightarrow> bool" where
  "server_stores x wire binary v s \<longleftrightarrow> (if wire = Bytea \<and> \<not> binary then v = hex_text_form x s else s = v)"

lemma server_stores_encoded:
  assumes "hex_encode_ok x" and "server_stores x wire binary (encode_param x s wire binary) s'"
  shows "s' = s"
proof (cases "wire = Bytea \<and> \<not> binary")
  case True
  then have "push_hex s = push_hex s'"
    using assms by (simp add: server_stores_def encode_param_def hex_text_form_def hex_encode_ok_def)
  then show ?thesis using push_hex_inject by blast
next
  case False
  then show ?thesis using assms(2) by (cases wire) (simp_all add: server_stores_def encode_param_def)
qed

lemma opened_row_single:
  "i < length vs \<Longrightarrow> vs ! i = Some v \<Longrightarrow> opened_row x [(i, c, kref)] (\<lambda>_. pt) (\<lambda>_. hex) vs = vs[i := Some (stored_wire x hex pt)]"
  by (auto simp: list_eq_iff_nth_eq opened_row_nth nth_list_update)


text \<open>A rewriter over the sample keys, with a statement that seals its second parameter for the row its first one names.\<close>

definition sample_rewriter :: "(byte, rstr, unit, file_key_source) rewriter" where
  "sample_rewriter = \<lparr>rw_externs = sample, rw_keys = file_source sample,
     rw_parser = sample_parser, rw_view = (\<lambda>_. OtherToken), rw_mode = Reject, rw_rewrite = (\<lambda>q st params w. (Ok (False, st, params), w)),
     rw_deref = (\<lambda>_. EncryptT sample_enc), rw_why = (\<lambda>_. [])\<rparr>"

definition sample_statement :: "(unit, unit) statement" where
  "sample_statement = \<lparr>st_id = 0, st_params = [(1, Seal () (Param 0 25 (bs ''id'')))], st_described = None\<rparr>"

definition sample_write :: "(unit, unit, file_key_source) write_state" where
  "sample_write = write_state_new default_settings (build_world sample_file)
     (tracked_new\<lparr>statements := [([97], sample_statement)], next_statement_id := 1\<rparr>) 73"

definition sample_bind :: bind_message where
  "sample_bind = \<lparr>bm_portal = [], bm_statement = [97], bm_param_formats = [1], bm_params = [Some [52], Some [9]], bm_result_formats = [0, 0]\<rparr>"

definition sample_bind_body :: bytes where
  "sample_bind_body = [0, 97, 0, 0, 1, 0, 1, 0, 2, 0, 0, 0, 1, 52, 0, 0, 0, 1, 9, 0, 0]"

lemma sample_bind_parses: "parse_bind sample_bind_body = Ok sample_bind" "result_format_codes sample_bind = Ok []"
  by code_simp+

lemma sample_bind_key: "bind_row_key sample (rw_why sample_rewriter) (Param 0 25 (bs ''id'')) sample_bind = Ok (Some [52])"
proof -
  have "utf8_decode [52] = Some [52]" by code_simp
  then show ?thesis
    by (simp add: sample_bind_def param_format_def value_format_def bound_param_def canonical_def INT2_def INT4_def INT8_def UUID_def TEXT_def
        key_utf8_def)
qed

lemma sample_write_facts:
  "\<not> ws_awaiting_sync sample_write" "ws_world sample_write = build_world sample_file"
  "map_of (statements (ws_tracked sample_write)) (bm_statement sample_bind) = Some sample_statement"
  "distinct (map fst (st_params sample_statement))" "params_wf (\<lambda>_. sample_column) (rw_deref sample_rewriter) (st_params sample_statement)"
  "rw_keys sample_rewriter = file_source sample" "rw_externs sample_rewriter = sample"
  "rw_deref sample_rewriter () = EncryptT sample_enc"
  using sample_enc_wf
  by (simp_all add: sample_write_def write_state_new_def sample_bind_def sample_statement_def params_wf_def sample_rewriter_def)

lemma sample_bind_forwarded:
  obtains s v b s' where
    "encrypt_seal sample (file_source sample) sample_enc [9] (Some [52]) (build_world sample_file) = (Ok s, v)" "length s \<le> 300"
    "rewriter_on_frame sample_rewriter 66 sample_bind_body sample_write = (Ok (Replace b), s')"
    "parse_bind b = Ok (sample_bind\<lparr>bm_params := [Some [52], Some s]\<rparr>)"
proof -
  obtain s v where s: "encrypt_seal sample (file_source sample) sample_enc [9] (Some [52]) (build_world sample_file) = (Ok s, v)"
    and len: "length s \<le> 300" by (rule sample_enc_seal)
  obtain b where b: "encode_bind [] [97] [1] [Some [52], Some s] [0, 0] = Ok b"
    using len by (auto simp: encode_bind_eq_Ok res_simps)
  have "bm_portal sample_bind = []" "bm_statement sample_bind = [97]" "bm_param_formats sample_bind = [1]" "bm_result_formats sample_bind = [0, 0]"
    "bm_params sample_bind = [Some [52], Some [9]]"
    by (simp_all add: sample_bind_def)
  note f = this
  have t: "tr_wire (EncryptT sample_enc) = Bytea" "param_format sample_bind (Suc 0) = 1" by (simp_all add: param_format_def f)
  have "\<exists>s'. rewriter_on_frame sample_rewriter 66 sample_bind_body sample_write = (Ok (Replace b), s')"
    using s b sample_bind_parses sample_bind_key
    by (simp add: rewriter_on_frame_def rewriter_bind_def bind_recorded_def comp_bind_def sample_write_def sample_statement_def write_state_new_def f t
        on_tracked_def bind_portal_def check_name_def MAX_NAME_LEN_def MAX_PORTALS_def tracked_new_def or_refuse_def on_world_def
        fatal_def sample_rewriter_def check_unindexed_def encode_param_def del: bind_row_key.simps)
  then show thesis
    using that s len parse_encode_bind [OF sample_bind_parses(1)] b unfolding f by blast
qed


section \<open>Properties\<close>



text \<open>
  C35. What a client binds comes back to it. Let a forwarded Bind seal a value under the row key it
  supplies, let the server store the parameter it was sent, and let a row with the stored value and
  that row key reach the read path later, in this process or another one over the same keys: the
  client receives the row with the value it bound.
\<close>

theorem bound_value_reads_back:
  assumes "available_source (rw_keys W) ok dek ikey" and "rw_externs W = x"
    and "hex_encode_ok x" and "hex_decode_ok x" and "hex_decode_only x"
    and "world_inv ok dek ikey nm (ws_world s)" and "\<not> ws_awaiting_sync s"
    and "parse_bind body = Ok m" and "map_of (statements (ws_tracked s)) (bm_statement m) = Some st"
    and "distinct (map fst (st_params st))" and "params_wf nm (rw_deref W) (st_params st)"
    and "map_of (st_params st) j = Some (Seal h rk)" and "j < length (bm_params m)" and "bm_params m ! j = Some v"
    and "rewriter_on_frame W 66 body s = (Ok (Replace b), s')" and "parse_bind b = Ok m'"
    and "bm_params m' ! j = Some sent" and "server_stores x (tr_wire (rw_deref W h)) (param_format m j = 1) sent stored"
    and "tr_good x (rw_deref W h) stored" and "rcol_transform c = Some (rw_deref W h)" and "rcol_mask c = None"
    and "parse_data_row data = Ok vs" and "i < length vs" and "vs ! i = Some (stored_wire x hex stored)"
    and "hex \<longrightarrow> tr_wire (rw_deref W h) = Bytea" and "length (stored_wire x hex stored) \<le> max_value bnd"
    and "first_refused [(i, c, kref)] = None" and "bind_row_key x (rw_why W) rk m = Ok key"
    and "key_given (map (\<lambda>(index, tyoid). row_key_once_read x index tyoid formats vs) (distinct_slots [(i, c, kref)])) kref key"
    and "world_inv ok dek ikey nm wd" and "length data \<le> max_body bnd" and "max_body bnd < 2 ^ 31"
  shows "\<exists>out wd'. decrypt_row x (rw_keys W) [(i, c, kref)] formats data bnd wd = (Ok out, wd')
    \<and> (case out of None \<Rightarrow> vs[i := Some (stored_wire x hex v)] = vs
        | Some b \<Rightarrow> parse_data_row b = Ok (vs[i := Some (stored_wire x hex v)]))"
proof -
  note laws = available_source.axioms(1) [OF assms(1)]
  have wf: "tr_wf nm (rw_deref W h)"
    using map_of_SomeD [OF assms(12)] assms(11) by (auto simp: params_wf_def list_all_iff)
  obtain ws where ws: "parse_bind b = Ok (m\<lparr>bm_params := ws\<rparr>)" "length ws = length (bm_params m)"
    "\<forall>i < length ws. forwarded W (world_inv ok dek ikey nm) m (st_params st) i (bm_params m ! i) (ws ! i)"
    using bind_frame [OF laws assms(6-11) assms(15)] unfolding frame_action.case by (elim exE conjE)
  have sent: "ws ! j = Some sent" using assms(16,17) ws(1) by auto
  have "forwarded W (world_inv ok dek ikey nm) m (st_params st) j (Some v) (Some sent)"
    using ws(3) [rule_format, of j] unfolding ws(2) assms(14) sent by (simp only: assms(13))
  then obtain u u' sealed where seal: "world_inv ok dek ikey nm u" "tr_seal x (rw_keys W) (rw_deref W h) v key u = (Ok sealed, u')"
    "sent = encode_param x sealed (tr_wire (rw_deref W h)) (param_format m j = 1)"
    using assms(2,12,28) by (auto simp: forwarded_def)
  have same: "stored = sealed" by (rule server_stores_encoded [OF assms(3) assms(18) [unfolded seal(3)]])
  have "list_all (sealed_position x (rw_keys W) (world_inv ok dek ikey nm) nm bnd
      (map (\<lambda>(index, tyoid). row_key_once_read x index tyoid formats vs) (distinct_slots [(i, c, kref)])) vs (\<lambda>_. v) (\<lambda>_. hex)) [(i, c, kref)]"
    unfolding list.pred_inject sealed_position_def prod.case simp_thms assms(24) option.inject
  proof (intro allI impI conjI)
    fix r assume r: "i < length vs \<and> stored_wire x hex stored = r"
    then show "length r \<le> max_value bnd" using assms(26) by simp
    show "\<exists>t s k w u. rcol_transform c = Some t \<and> rcol_mask c = None \<and> tr_wf nm t \<and> tr_good x t s \<and> world_inv ok dek ikey nm w
       \<and> tr_seal x (rw_keys W) t v k w = (Ok s, u) \<and> r = stored_wire x hex s \<and> (hex \<longrightarrow> tr_wire t = Bytea)
       \<and> key_given (map (\<lambda>(index, tyoid). row_key_once_read x index tyoid formats vs) (distinct_slots [(i, c, kref)])) kref k"
      using assms(19-21,25,29) wf seal(1,2) r unfolding same
      by (intro exI [of _ "rw_deref W h"] exI [of _ sealed] exI [of _ key] exI [of _ u] exI [of _ u']) simp
  qed simp
  from decrypt_row_sealed [OF assms(1,3-5) _ assms(27,22) this assms(30-32)]
  show ?thesis unfolding opened_row_single [OF assms(23,24)] by simp
qed

theorem bound_value_reads_back_witness:
  "\<exists>stored body out wd'. parse_data_row body = Ok [Some [52], Some stored]
    \<and> decrypt_row sample (file_source sample) sample_positions None body sample_bounds (build_world sample_file) = (Ok out, wd')
    \<and> (case out of None \<Rightarrow> [Some [52], Some [9]] = [Some [52], Some stored] | Some b \<Rightarrow> parse_data_row b = Ok [Some [52], Some [9]])"
proof -
  obtain s v b s' where s: "encrypt_seal sample (file_source sample) sample_enc [9] (Some [52]) (build_world sample_file) = (Ok s, v)"
    and len: "length s \<le> 300" and run: "rewriter_on_frame sample_rewriter 66 sample_bind_body sample_write = (Ok (Replace b), s')"
    and b: "parse_bind b = Ok (sample_bind\<lparr>bm_params := [Some [52], Some s]\<rparr>)"
    by (rule sample_bind_forwarded)
  obtain body where body: "parse_data_row body = Ok [Some [52], Some s]" "length body \<le> max_body sample_bounds"
    by (rule sample_row_body [OF len])
  have ks: "available_source (rw_keys sample_rewriter) sample_src (fkeys sample_file) (index_keys sample_file)"
    unfolding sample_write_facts(6) by (rule fks.available_source_axioms [of sample])
  have wd: "world_inv sample_src (fkeys sample_file) (index_keys sample_file) (\<lambda>_. sample_column) (ws_world sample_write)"
    unfolding sample_write_facts(2) by (rule sample_policy_world)
  have p: "map_of (st_params sample_statement) 1 = Some (Seal () (Param 0 25 (bs ''id'')))" "1 < length (bm_params sample_bind)"
    "bm_params sample_bind ! 1 = Some [9]" "bm_params (sample_bind\<lparr>bm_params := [Some [52], Some s]\<rparr>) ! 1 = Some s"
    "server_stores sample (tr_wire (rw_deref sample_rewriter ())) (param_format sample_bind 1 = 1) s s"
    by (simp_all add: sample_statement_def sample_bind_def server_stores_def param_format_def)
  have c: "tr_good sample (rw_deref sample_rewriter ()) s" "rcol_transform sample_read_column = Some (rw_deref sample_rewriter ())"
    "rcol_mask sample_read_column = None" "1 < length [Some [52], Some s]" "[Some [52], Some s] ! 1 = Some (stored_wire sample False s)"
    "False \<longrightarrow> tr_wire (rw_deref sample_rewriter ()) = Bytea" "length (stored_wire sample False s) \<le> max_value sample_bounds"
    "first_refused [(1, sample_read_column, Slot 0 25)] = None"
    using sample_enc_good len
    by (simp_all add: sample_write_facts(8) sample_read_column_def stored_wire_def sample_bounds_def refused_key_def)
  have k: "key_given (map (\<lambda>(index, tyoid). row_key_once_read sample index tyoid None [Some [52], Some s])
      (distinct_slots [(1, sample_read_column, Slot 0 25)])) (Slot 0 25) (Some [52])"
    using sample_row_keys [of "Some s"] by (simp add: sample_positions_def key_given_def)
  from bound_value_reads_back [OF ks sample_write_facts(7) sample_hex_encode_ok sample_hex_decode_ok sample_hex_decode_only wd
      sample_write_facts(1) sample_bind_parses(1) sample_write_facts(3-5) p(1-3) run b p(4,5) c(1-3) body(1) c(4-8) sample_bind_key k
      sample_policy_world body(2) sample_position_facts(3)]
  obtain out wd' where out: "decrypt_row sample (file_source sample) sample_positions None body sample_bounds (build_world sample_file) = (Ok out, wd')"
    "case out of None \<Rightarrow> [Some [52], Some s][1 := Some (stored_wire sample False [9])] = [Some [52], Some s]
      | Some b \<Rightarrow> parse_data_row b = Ok ([Some [52], Some s][1 := Some (stored_wire sample False [9])])"
    unfolding sample_write_facts(6) sample_positions_def by (elim exE conjE)
  have "[Some [52], Some s][1 := Some (stored_wire sample False [9])] = [Some [52], Some [9]]" by (simp add: stored_wire_def)
  then show ?thesis using body(1) out by (intro exI [of _ s] exI [of _ body] exI [of _ out] exI [of _ wd']) (simp only: simp_thms)
qed

end
