(* ===== verification/FrameSystem.thy ===== *)
theory FrameSystem
  imports FrameProps
begin

text \<open>
  The write path as the sender of the session system: every frame it forwards is one sending step of
  the transition system of \<open>PortalSystem\<close>, and a batch it refuses is answered without the server.
\<close>

section \<open>Frames and sending steps\<close>

definition forwards :: "frame_action \<Rightarrow> bool" where
  "forwards a = (case a of Relay \<Rightarrow> True | Replace _ \<Rightarrow> True | _ \<Rightarrow> False)"

text \<open>Query, Parse, Bind, Describe, Execute, Sync, FunctionCall and Close.\<close>

definition tracked_type :: "byte \<Rightarrow> bool" where
  "tracked_type t = (t \<in> set [81, 80, 66, 68, 69, 83, 70, 67])"

text \<open>CopyData, CopyDone and CopyFail.\<close>

definition copy_type :: "byte \<Rightarrow> bool" where
  "copy_type t = (t \<in> set [100, 99, 102])"

text \<open>The types the server owes an answer of their own for.\<close>

definition owing_type :: "byte \<Rightarrow> bool" where
  "owing_type t = (t \<in> set [81, 68, 69, 83, 70])"

text \<open>One sending step: a message more for the server, which owes an answer for it or not.\<close>

definition sends :: "('p \<Rightarrow> 'p \<Rightarrow> bool) \<Rightarrow> bool \<Rightarrow> ('t, 'p) session_sys \<Rightarrow> ('t, 'p) tracked \<Rightarrow> bool" where
  "sends R owes y t \<longleftrightarrow> (\<exists>y' it. sys_step R y y' \<and> ss_tracked y' = t \<and> ss_inbox y' = ss_inbox y @ [it]
     \<and> (it \<noteq> Silent \<longleftrightarrow> owes) \<and> ss_chan y' = ss_chan y \<and> ss_skip y' = ss_skip y)"

lemma sends_batch: "expect_batch (ss_tracked y) = (Ok (), t) \<Longrightarrow> sends R True y t"
  unfolding sends_def by (rule exI, rule exI, rule conjI, erule send_batch) (rule conjI, simp, rule conjI, simp, simp)

lemma sends_parse:
  "parse name params (ss_tracked y) = (Ok (), t) \<Longrightarrow> next_statement_id (ss_tracked y) \<noteq> - 1 \<Longrightarrow> sends R False y t"
  unfolding sends_def by (rule exI, rule exI, rule conjI, erule (1) send_parse) simp

lemma sends_bind: "bind_portal po name formats (ss_tracked y) = (Ok ps, t) \<Longrightarrow> sends R False y t"
  unfolding sends_def by (rule exI, rule exI, rule conjI, erule send_bind) simp

lemma sends_describe: "expect_describe target name (ss_tracked y) = (Ok (), t) \<Longrightarrow> sends R True y t"
  unfolding sends_def by (rule exI, rule exI, rule conjI, erule send_describe) (rule conjI, simp, rule conjI, simp, simp)

lemma sends_execute:
  "expect_execute po (ss_tracked y) = (Ok (), t) \<Longrightarrow> next_execute_id (ss_tracked y) \<noteq> - 1 \<Longrightarrow> sends R True y t"
  unfolding sends_def by (rule exI, rule exI, rule conjI, erule (1) send_execute) (rule conjI, simp, rule conjI, simp, simp)

lemma sends_close:
  "sends R False y (close_statement name (ss_tracked y))" "sends R False y (close_portal name (ss_tracked y))"
  unfolding sends_def
  by ((rule exI, rule exI, rule conjI, rule send_close_statement, simp), (rule exI, rule exI, rule conjI, rule send_close_portal, simp))

lemma rewriter_sql_tracked: "rewriter_sql W query s = (r, u) \<Longrightarrow> ws_tracked u = ws_tracked s \<and> ws_awaiting_sync u = ws_awaiting_sync s"
  by (auto simp: rewriter_sql_def on_sql_def split: prod.splits)

lemma on_world_tracked: "on_world m s = (r, u) \<Longrightarrow> ws_tracked u = ws_tracked s"
  by (auto simp: on_world_eq)

lemma on_queryE:
  assumes "on_query W body s = (Ok a, s')"
  obtains (refused) query msg where "rewriter_sql W query s = (Ok (Refuse msg), s')"
      "a = Reply (error_response msg @ ready_for_query (ws_tx_status s'))"
    | (sent) query out u t where "rewriter_sql W query s = (Ok (Rewrite out), u)" "expect_batch (ws_tracked u) = (Ok (), t)"
      "s' = u\<lparr>ws_tracked := t\<rparr>" "a = (case ro_rewritten out of None \<Rightarrow> Relay | Some sql \<Rightarrow> Replace (sql @ [0]))"
proof -
  obtain query outcome u where sql: "rewriter_sql W query s = (Ok outcome, u)"
    and rest: "(case outcome of
         Refuse msg \<Rightarrow> (\<lambda>s. (Ok (Reply (error_response msg @ ready_for_query (ws_tx_status s))), s))
       | Rewrite out \<Rightarrow>
           comp_bind (on_tracked expect_batch) (\<lambda>_.
             comp_ret (case ro_rewritten out of None \<Rightarrow> Relay | Some sql \<Rightarrow> Replace (sql @ [0])))) u = (Ok a, s')"
    using assms unfolding on_query_def comp_bind_eq_Ok case_prod_beta comp_of_apply prod.inject by (elim exE conjE) blast
  show thesis
  proof (cases outcome)
    case (Rewrite out)
    then obtain t where "expect_batch (ws_tracked u) = (Ok (), t)" "s' = u\<lparr>ws_tracked := t\<rparr>"
      "a = (case ro_rewritten out of None \<Rightarrow> Relay | Some sql \<Rightarrow> Replace (sql @ [0]))"
      using rest by (auto simp: comp_bind_eq_Ok on_tracked_eq)
    then show thesis using sent sql Rewrite by blast
  next
    case (Refuse msg)
    then show thesis using refused sql rest by auto
  qed
qed

lemma on_parseE:
  assumes "on_parse W body s = (Ok a, s')"
  obtains (refused) p :: parse_message and msg u where "rewriter_sql W (pm_query p) s = (Ok (Refuse msg), u)" "s' = u\<lparr>ws_awaiting_sync := True\<rparr>"
      "a = Reply (error_response msg)"
    | (sent) p :: parse_message and out u t where "rewriter_sql W (pm_query p) s = (Ok (Rewrite out), u)" "parse (pm_statement p) (ro_params out) (ws_tracked u) = (Ok (), t)"
      "s' = u\<lparr>ws_tracked := t\<rparr>"
      "a = (case ro_rewritten out of None \<Rightarrow> Relay | Some sql \<Rightarrow> Replace (encode_parse (pm_statement p) sql (pm_param_types p)))"
proof -
  obtain p :: parse_message and outcome u where sql: "rewriter_sql W (pm_query p) s = (Ok outcome, u)"
    and rest: "(case outcome of
         Refuse msg \<Rightarrow> (\<lambda>s. (Ok (Reply (error_response msg)), s\<lparr>ws_awaiting_sync := True\<rparr>))
       | Rewrite out \<Rightarrow>
           comp_bind (on_tracked (parse (pm_statement p) (ro_params out))) (\<lambda>_.
             comp_ret (case ro_rewritten out of
               None \<Rightarrow> Relay
             | Some sql \<Rightarrow> Replace (encode_parse (pm_statement p) sql (pm_param_types p))))) u = (Ok a, s')"
    using assms unfolding on_parse_def comp_bind_eq_Ok comp_of_apply prod.inject by (elim exE conjE) blast
  show thesis
  proof (cases outcome)
    case (Rewrite out)
    then obtain t where "parse (pm_statement p) (ro_params out) (ws_tracked u) = (Ok (), t)" "s' = u\<lparr>ws_tracked := t\<rparr>"
      "a = (case ro_rewritten out of None \<Rightarrow> Relay | Some sql \<Rightarrow> Replace (encode_parse (pm_statement p) sql (pm_param_types p)))"
      using rest by (auto simp: comp_bind_eq_Ok on_tracked_eq)
    then show thesis using sent sql Rewrite by blast
  next
    case (Refuse msg)
    then show thesis using refused sql rest by auto
  qed
qed

lemma query_tracked:
  assumes "on_query W body s = (Ok a, s')"
  shows "if forwards a then expect_batch (ws_tracked s) = (Ok (), ws_tracked s') else ws_tracked s' = ws_tracked s"
  using assms by (cases rule: on_queryE) (auto simp: forwards_def split: option.splits dest!: rewriter_sql_tracked)

lemma parse_tracked:
  assumes "on_parse W body s = (Ok a, s')"
  shows "if forwards a then \<exists>name params. parse name params (ws_tracked s) = (Ok (), ws_tracked s') else ws_tracked s' = ws_tracked s"
  using assms
proof (cases rule: on_parseE)
  case (sent p out u t)
  then have "parse (pm_statement p) (ro_params out) (ws_tracked s) = (Ok (), ws_tracked s')" by (auto dest!: rewriter_sql_tracked)
  moreover have "forwards a" using sent(4) by (simp add: forwards_def split: option.splits)
  ultimately show ?thesis by auto
qed (auto simp: forwards_def dest!: rewriter_sql_tracked)

lemma bind_recorded_tracked: "bind_recorded W m ps s = (Ok a, s') \<Longrightarrow> ws_tracked s' = ws_tracked s"
  by (auto simp: bind_recorded_def or_refuse_eq comp_bind_eq_Ok dest!: on_world_tracked)

lemma bind_tracked:
  assumes "rewriter_bind W body s = (Ok a, s')"
  obtains m codes ps where "parse_bind body = Ok m" "result_format_codes m = Ok codes"
    "bind_portal (bm_portal m) (bm_statement m) (Some codes) (ws_tracked s) = (Ok ps, ws_tracked s')"
proof -
  obtain m codes ps t where m: "parse_bind body = Ok m" "result_format_codes m = Ok codes"
    and b: "bind_portal (bm_portal m) (bm_statement m) (Some codes) (ws_tracked s) = (Ok ps, t)"
    and rest: "if ps = None \<or> ps = Some [] then a = Relay \<and> s' = s\<lparr>ws_tracked := t\<rparr>
     else bind_recorded W m (the ps) (s\<lparr>ws_tracked := t\<rparr>) = (Ok a, s')"
    using assms by (rule rewriter_bindE)
  have "ws_tracked s' = t" using rest bind_recorded_tracked by (fastforce split: if_splits)
  then show thesis using that m b by blast
qed

lemma bind_portal_rest: "bind_portal po n f t = (Ok ps, t') \<Longrightarrow> pending t' = pending t \<and> statements t' = statements t"
  by (auto dest: bind_portal_Ok(1))

lemma expect_frame:
  assumes "comp_bind (on_tracked m) (\<lambda>_. comp_ret Relay) s = (Ok a, s')"
  shows "a = Relay \<and> (\<exists>r. m (ws_tracked s) = (Ok r, ws_tracked s'))"
  using assms by (auto simp: comp_bind_eq_Ok on_tracked_eq)

lemma frame_cases:
  assumes "rewriter_on_frame W t body s = (Ok a, s')" and "\<not> ws_awaiting_sync s" and "tracked_type t"
  shows "t = 81 \<and> on_query W body s = (Ok a, s') \<or> t = 80 \<and> on_parse W body s = (Ok a, s') \<or> t = 66 \<and> rewriter_bind W body s = (Ok a, s')
    \<or> a = Relay \<and> t = 68 \<and> (\<exists>g n. expect_describe g n (ws_tracked s) = (Ok (), ws_tracked s'))
    \<or> a = Relay \<and> t = 69 \<and> (\<exists>n. expect_execute n (ws_tracked s) = (Ok (), ws_tracked s'))
    \<or> a = Relay \<and> (t = 83 \<or> t = 70) \<and> expect_batch (ws_tracked s) = (Ok (), ws_tracked s')
    \<or> a = Relay \<and> t = 67 \<and> (\<exists>n. ws_tracked s' = close_statement n (ws_tracked s) \<or> ws_tracked s' = close_portal n (ws_tracked s))"
proof -
  have d: "\<exists>g n. expect_describe g n (ws_tracked s) = (Ok (), ws_tracked s') \<and> a = Relay"
    if "comp_bind (comp_of (describe_target body)) (\<lambda>(target, name). comp_bind (on_tracked (expect_describe target name)) (\<lambda>_. comp_ret Relay)) s = (Ok a, s')"
    using that by (force simp: comp_bind_eq_Ok on_tracked_eq)
  have e: "\<exists>n. expect_execute n (ws_tracked s) = (Ok (), ws_tracked s') \<and> a = Relay"
    if "comp_bind (comp_of (of_wire (take_cstr body))) (\<lambda>(po, _). comp_bind (on_tracked (expect_execute po)) (\<lambda>_. comp_ret Relay)) s = (Ok a, s')"
    using that by (force simp: comp_bind_eq_Ok on_tracked_eq)
  have b: "expect_batch (ws_tracked s) = (Ok (), ws_tracked s') \<and> a = Relay"
    if "comp_bind (on_tracked expect_batch) (\<lambda>_. comp_ret Relay) s = (Ok a, s')"
    using that expect_frame by fastforce
  have c: "(\<exists>n. ws_tracked s' = close_statement n (ws_tracked s) \<or> ws_tracked s' = close_portal n (ws_tracked s)) \<and> a = Relay"
    if "comp_bind (comp_of (describe_target body)) (\<lambda>(target, name) s.
          (Ok Relay, s\<lparr>ws_tracked :=
             (case target of TStatement \<Rightarrow> close_statement name (ws_tracked s) | TPortal \<Rightarrow> close_portal name (ws_tracked s))\<rparr>)) s = (Ok a, s')"
  proof -
    from that obtain g n where "a = Relay" "ws_tracked s' = (case g of TStatement \<Rightarrow> close_statement n (ws_tracked s) | TPortal \<Rightarrow> close_portal n (ws_tracked s))"
      by (auto simp: comp_bind_eq_Ok)
    then show ?thesis by (cases g) auto
  qed
  note r = assms(1) [unfolded rewriter_on_frame_def]
  consider "t = 81" | "t = 80" | "t = 66" | "t = 68" | "t = 69" | "t = 83 \<or> t = 70" | "t = 67"
    using assms(3) by (auto simp: tracked_type_def)
  then show ?thesis
  proof cases
    case 4
    have "\<exists>g n. expect_describe g n (ws_tracked s) = (Ok (), ws_tracked s') \<and> a = Relay"
      by (rule d) (use r assms(2) 4 in simp)
    then show ?thesis using 4 by blast
  next
    case 5
    have "\<exists>n. expect_execute n (ws_tracked s) = (Ok (), ws_tracked s') \<and> a = Relay"
      by (rule e) (use r assms(2) 5 in simp)
    then show ?thesis using 5 by blast
  next
    case 6
    have "expect_batch (ws_tracked s) = (Ok (), ws_tracked s') \<and> a = Relay"
      by (rule b) (use r assms(2) 6 in auto)
    then show ?thesis using 6 by blast
  next
    case 7
    have "(\<exists>n. ws_tracked s' = close_statement n (ws_tracked s) \<or> ws_tracked s' = close_portal n (ws_tracked s)) \<and> a = Relay"
      by (rule c) (use r assms(2) 7 in simp)
    then show ?thesis using 7 by blast
  qed (use r assms(2) in simp_all)
qed




section \<open>A refused batch\<close>

fun run_frames :: "('tok, 'stmt, 't, 'k) rewriter \<Rightarrow> (byte \<times> bytes) list \<Rightarrow> (('t, 'p, 'k) write_state, proxy_error, frame_action list) comp" where
  "run_frames W [] = comp_ret []"
| "run_frames W ((t, body) # ms) =
     comp_bind (rewriter_on_frame W t body) (\<lambda>a. comp_bind (run_frames W ms) (\<lambda>as. comp_ret (a # as)))"

lemma run_frames_append:
  "run_frames W (ms @ ns) = comp_bind (run_frames W ms) (\<lambda>as. comp_bind (run_frames W ns) (\<lambda>bs. comp_ret (as @ bs)))"
proof (induction ms)
  case Nil
  show ?case by (rule ext) (simp add: comp_bind_def split: prod.splits sum.splits)
next
  case (Cons m ms)
  then show ?case by (cases m, intro ext) (auto simp: comp_bind_def split: prod.splits sum.splits)
qed

lemma discarded:
  assumes "ws_awaiting_sync s" and "list_all (\<lambda>(t, _). t \<noteq> 83 \<and> t \<noteq> 88) ms"
  shows "run_frames W ms s = (Ok (replicate (length ms) (Reply [])), s)"
  using assms by (induction ms) (auto simp: comp_bind_def rewriter_on_frame_def discard_until_sync_def)

lemma or_refuse_reply:
  assumes "or_refuse m k s = (Ok (Reply r), s')" and "\<And>a u. k a u = (Ok (Reply r), s') \<Longrightarrow> \<exists>msg. r = error_response msg"
  shows "\<exists>msg. r = error_response msg"
  using assms by (auto simp: or_refuse_eq)

lemma bind_reply:
  assumes "rewriter_bind W body s = (Ok (Reply r), s')"
  shows "\<exists>msg. r = error_response msg"
proof -
  obtain m codes ps t where "parse_bind body = Ok m" "result_format_codes m = Ok codes"
    "bind_portal (bm_portal m) (bm_statement m) (Some codes) (ws_tracked s) = (Ok ps, t)"
    and rest: "if ps = None \<or> ps = Some [] then Reply r = Relay \<and> s' = s\<lparr>ws_tracked := t\<rparr>
     else bind_recorded W m (the ps) (s\<lparr>ws_tracked := t\<rparr>) = (Ok (Reply r), s')"
    using assms by (rule rewriter_bindE)
  have no: "\<not> comp_bind (comp_of (of_wire b)) (\<lambda>b. comp_ret (Replace b)) v = (Ok (Reply r), s')" for b :: "wire_error + bytes" and v
    by (auto simp: comp_bind_eq_Ok)
  have "bind_recorded W m (the ps) (s\<lparr>ws_tracked := t\<rparr>) = (Ok (Reply r), s')" using rest by (simp split: if_splits)
  then show ?thesis unfolding bind_recorded_def or_refuse_eq using no by (auto simp: or_refuse_eq)
qed

lemma refusal_frame:
  assumes "rewriter_on_frame W t body s = (Ok (Reply r), s')" and "\<not> ws_awaiting_sync s" and "ws_awaiting_sync s'"
  shows "\<exists>msg. r = error_response msg"
proof -
  have tr: "tracked_type t"
    using assms(1,2) by (auto simp: rewriter_on_frame_def tracked_type_def split: if_splits)
  have parse: "\<exists>msg. r = error_response msg" if "on_parse W body s = (Ok (Reply r), s')"
    using that by (cases rule: on_parseE) (auto split: option.splits)
  have query: "ws_awaiting_sync s' = ws_awaiting_sync s" if "on_query W body s = (Ok (Reply r), s')"
    using that by (cases rule: on_queryE) (auto dest!: rewriter_sql_tracked)
  show ?thesis
    using frame_cases [OF assms(1,2) tr] parse query bind_reply assms(2,3) by (elim disjE conjE) simp_all
qed


text \<open>A Bind whose row key is not UTF-8.\<close>

definition bad_key_body :: bytes where
  "bad_key_body = [0, 97, 0, 0, 1, 0, 1, 0, 2, 0, 0, 0, 1, 255, 0, 0, 0, 1, 9, 0, 0]"

definition bad_key_bind :: bind_message where
  "bad_key_bind = sample_bind\<lparr>bm_params := [Some [255], Some [9]]\<rparr>"

lemma bad_key_parses: "parse_bind bad_key_body = Ok bad_key_bind" "result_format_codes bad_key_bind = Ok []"
  by code_simp+

lemma bad_key_refused:
  obtains r s' where "rewriter_on_frame sample_rewriter 66 bad_key_body sample_write = (Ok (Reply r), s')" "ws_awaiting_sync s'"
proof -
  have "bm_portal bad_key_bind = []" "bm_statement bad_key_bind = [97]" "bm_params bad_key_bind = [Some [255], Some [9]]"
    by (simp_all add: bad_key_bind_def sample_bind_def)
  note f = this
  have "utf8_decode [255] = None" by code_simp
  then have "\<exists>msg. bind_row_key sample (rw_why sample_rewriter) (Param 0 25 (bs ''id'')) bad_key_bind = Err (Refused msg)"
    by (simp add: bad_key_bind_def sample_bind_def param_format_def value_format_def bound_param_def canonical_def INT2_def INT4_def INT8_def
        UUID_def TEXT_def key_utf8_def)
  then obtain msg where "bind_row_key sample (\<lambda>_. []) (Param 0 25 (bs ''id'')) bad_key_bind = Err (Refused msg)"
    by (auto simp: sample_rewriter_def)
  then have "\<exists>r s'. rewriter_on_frame sample_rewriter 66 bad_key_body sample_write = (Ok (Reply r), s') \<and> ws_awaiting_sync s'"
    using bad_key_parses
    by (simp add: rewriter_on_frame_def rewriter_bind_def bind_recorded_def comp_bind_def sample_write_def sample_statement_def write_state_new_def f
        on_tracked_def bind_portal_def check_name_def MAX_NAME_LEN_def MAX_PORTALS_def tracked_new_def or_refuse_def on_world_def
        sample_rewriter_def del: bind_row_key.simps)
  then show thesis using that by blast
qed


text \<open>
  C38. A refused Bind still rebinds the portal. The tracker records the portal of a Bind before the
  Bind may be refused, and a refused Bind is not forwarded: the server keeps the portal it has, while
  the proxy takes rows of that portal for rows of the refused statement, read with its description
  and in the formats the refused Bind asked for.
\<close>

theorem refused_bind_rebinds_portal:
  assumes "rewriter_on_frame W 66 body s = (Ok (Reply r), s')" and "\<not> ws_awaiting_sync s" and "parse_bind body = Ok m"
  shows "\<exists>codes. result_format_codes m = Ok codes
    \<and> exec_of (bm_portal m) (ws_tracked s') = (map_option st_id (map_of (statements (ws_tracked s)) (bm_statement m)), Some codes)"
proof -
  have "rewriter_bind W body s = (Ok (Reply r), s')" using assms(1,2) by (simp add: rewriter_on_frame_def)
  then obtain m' codes ps where "parse_bind body = Ok m'" "result_format_codes m' = Ok codes"
    "bind_portal (bm_portal m') (bm_statement m') (Some codes) (ws_tracked s) = (Ok ps, ws_tracked s')"
    by (rule bind_tracked)
  then show ?thesis
    using assms(3) bind_portal_Ok(1) [of "bm_portal m'" "bm_statement m'" "Some codes" "ws_tracked s" ps "ws_tracked s'"]
    by (auto simp: exec_of_def update_conv')
qed

theorem refused_bind_rebinds_portal_witness:
  "\<exists>r s' codes. rewriter_on_frame sample_rewriter 66 bad_key_body sample_write = (Ok (Reply r), s')
    \<and> exec_of [] (ws_tracked sample_write) = (None, None) \<and> exec_of [] (ws_tracked s') = (Some 0, Some codes)"
proof -
  obtain r s' where run: "rewriter_on_frame sample_rewriter 66 bad_key_body sample_write = (Ok (Reply r), s')"
    by (rule bad_key_refused)
  have "bm_portal bad_key_bind = []" "exec_of [] (ws_tracked sample_write) = (None, None)"
    "map_option st_id (map_of (statements (ws_tracked sample_write)) (bm_statement bad_key_bind)) = Some 0"
    by (simp_all add: bad_key_bind_def sample_bind_def exec_of_def sample_write_def write_state_new_def tracked_new_def sample_statement_def)
  then show ?thesis
    using refused_bind_rebinds_portal [OF run sample_write_facts(1) bad_key_parses(1)] run by auto
qed

end
