(* ===== verification/Vault.thy ===== *)
theory Vault
  imports Keys RustText "HOL-Library.AList"
begin

text \<open>
  The Vault key source (\<open>crates/vault/src/source.rs\<close> and the configuration in
  \<open>crates/vault/src/lib.rs\<close>). The \<open>KeyStore\<close> trait is the record \<open>key_store\<close>, its implementation
  over the \<open>vaultrs\<close> client is \<open>vault_store\<close>, and the key source with its caches is
  \<open>vault_key_source\<close>.

  The client, the server behind it, the clock and the entropy source are outside the repository: \<open>'v\<close>
  is the state of all of them, and the client's calls are the fields of \<open>vault_client\<close>. A call is
  answered, refused, or cut off by the budget of the lookup it belongs to, after which the server may
  or may not have seen it. Times are in milliseconds.
\<close>

section \<open>Configuration\<close>

record vault_config =
  vc_addr :: rstr
  vc_allow_insecure_addr :: bool
  vc_token :: "rstr option"
  vc_token_file :: "rstr option"
  vc_mount :: rstr
  vc_path :: rstr
  vc_transit_mount :: rstr
  vc_transit_key :: rstr
  vc_timeout_secs :: nat

definition default_mount :: rstr where
  "default_mount = bs ''secret''"

definition default_path :: rstr where
  "default_path = bs ''dbsec''"

definition default_transit_mount :: rstr where
  "default_transit_mount = bs ''transit''"

definition default_timeout_secs :: nat where
  "default_timeout_secs = 5"

definition vault_config_default :: vault_config where
  "vault_config_default =
     \<lparr>vc_addr = [], vc_allow_insecure_addr = False, vc_token = None, vc_token_file = None, vc_mount = default_mount,
      vc_path = default_path, vc_transit_mount = default_transit_mount, vc_transit_key = default_path,
      vc_timeout_secs = default_timeout_secs\<rparr>"

datatype vault_why =
    ZeroTimeout
  | NotAUrl rstr
  | PlaintextHttp rstr
  | OtherScheme rstr rstr
  | TokenSources
  | TokenFileMode core_error

datatype vault_error =
    VaultConfigError vault_why
  | TokenFile rstr
  | VaultKeyError core_error

record vault_setup =
  su_config :: vault_config
  su_token :: rstr

text \<open>\<open>url_scheme\<close> is \<open>Url::parse\<close> followed by \<open>scheme\<close>.\<close>

definition validate_addr :: "(rstr \<Rightarrow> rstr option) \<Rightarrow> vault_config \<Rightarrow> vault_error + unit" where
  "validate_addr url_scheme c =
     res_bind (ok_or (url_scheme (vc_addr c)) (VaultConfigError (NotAUrl (vc_addr c)))) (\<lambda>scheme.
       if scheme = bs ''https'' then Ok ()
       else if scheme = bs ''http'' then
         if vc_allow_insecure_addr c then Ok () else Err (VaultConfigError (PlaintextHttp (vc_addr c)))
       else Err (VaultConfigError (OtherScheme (vc_addr c) scheme)))"

text \<open>The token file: its mode, if it can be stat'ed, and its contents, if it can be read.\<close>

definition check_token_file :: "(rstr \<Rightarrow> u32 option) \<Rightarrow> rstr \<Rightarrow> vault_error + unit" where
  "check_token_file mode path =
     map_err (\<lambda>e. VaultConfigError (TokenFileMode e)) (check_secret_file_mode path (bs ''the Vault token'') (mode path))"

definition resolve_token :: "(rstr \<Rightarrow> u32 option) \<Rightarrow> (rstr \<Rightarrow> bytes option) \<Rightarrow> vault_config \<Rightarrow> vault_error + rstr" where
  "resolve_token mode contents c =
     (case (vc_token c, vc_token_file c) of
        (Some token, None) \<Rightarrow> Ok token
      | (None, Some path) \<Rightarrow>
          res_bind (check_token_file mode path) (\<lambda>_.
          res_bind (ok_or (case contents path of Some raw \<Rightarrow> utf8_decode raw | None \<Rightarrow> None) (TokenFile path)) (\<lambda>raw.
            Ok (utf8_encode (trim raw))))
      | _ \<Rightarrow> Err (VaultConfigError TokenSources))"

definition vault_resolve :: "(rstr \<Rightarrow> rstr option) \<Rightarrow> (rstr \<Rightarrow> u32 option) \<Rightarrow> (rstr \<Rightarrow> bytes option) \<Rightarrow> vault_config
    \<Rightarrow> vault_error + vault_setup" where
  "vault_resolve url_scheme mode contents c =
     (if vc_timeout_secs c = 0 then Err (VaultConfigError ZeroTimeout)
      else res_bind (validate_addr url_scheme c) (\<lambda>_.
           res_bind (resolve_token mode contents c) (\<lambda>token. Ok \<lparr>su_config = c, su_token = token\<rparr>)))"


section \<open>Records and the store interface\<close>

record index_key_record =
  ir_current :: u32
  ir_versions :: "(u32 \<times> rstr) list"

definition record_first :: "rstr \<Rightarrow> index_key_record" where
  "record_first hex_key = \<lparr>ir_current = 1, ir_versions = [(1, hex_key)]\<rparr>"

definition decode_key_hex :: "externs \<Rightarrow> rstr \<Rightarrow> core_error + key" where
  "decode_key_hex x encoded =
     res_bind (ok_or (x_hex_decode x encoded) (KeyBackend (bs ''stored index key is not valid hex''))) (\<lambda>raw.
       if length raw = 32 then Ok raw else Err (KeySourceFailed (BackendSays (bs ''stored index key must be 32 bytes''))))"

definition current_key :: "externs \<Rightarrow> index_key_record \<Rightarrow> core_error + key" where
  "current_key x r =
     res_bind (ok_or (map_of (ir_versions r) (ir_current r))
       (KeySourceFailed (BackendSays (bs ''stored index key names version '' @ dec_of (uint (ir_current r)) @ bs '' but does not carry it''))))
       (decode_key_hex x)"

text \<open>\<open>LegacyIndexKeys\<close>, the shared map of the older layout.\<close>

type_synonym legacy_index_keys = "rstr \<rightharpoonup> rstr"

record token_status =
  ts_ttl :: nat
  ts_renewable :: bool

definition never_expires :: "token_status \<Rightarrow> bool" where
  "never_expires t \<longleftrightarrow> ts_ttl t = 0"

text \<open>A store operation fails with an error of its own, or its lookup is cut off while it runs.\<close>

datatype interruption =
    Failed core_error
  | Elapsed

record 'v key_store =
  kst_read_index_key :: "rstr \<Rightarrow> ('v, interruption, index_key_record option) comp"
  kst_create_index_key :: "rstr \<Rightarrow> index_key_record \<Rightarrow> ('v, interruption, bool) comp"
  kst_read_legacy :: "('v, interruption, legacy_index_keys option) comp"
  kst_fetch_dek :: "key_id \<Rightarrow> ('v, interruption, key option) comp"
  kst_token_status :: "('v, interruption, token_status) comp"
  kst_renew_token :: "('v, interruption, token_status) comp"


section \<open>The store over the Vault client\<close>

datatype client_error =
    APIError nat "rstr list"
  | OtherClientError rstr

datatype client_failure =
    ClientErr client_error
  | CutOff

text \<open>
  The calls of the \<open>vaultrs\<close> client, each with its mount and path; the secrets it deserializes have
  the type the caller reads. \<open>vl_data_key\<close> returns the plaintext, if any, and the wrapped key.
\<close>

record 'v vault_client =
  vl_read_record :: "rstr \<Rightarrow> rstr \<Rightarrow> ('v, client_failure, index_key_record) comp"
  vl_create_record :: "rstr \<Rightarrow> rstr \<Rightarrow> index_key_record \<Rightarrow> ('v, client_failure, unit) comp"
  vl_read_legacy :: "rstr \<Rightarrow> rstr \<Rightarrow> ('v, client_failure, legacy_index_keys) comp"
  vl_read_wrapped :: "rstr \<Rightarrow> rstr \<Rightarrow> ('v, client_failure, rstr) comp"
  vl_set_wrapped :: "rstr \<Rightarrow> rstr \<Rightarrow> rstr \<Rightarrow> ('v, client_failure, unit) comp"
  vl_decrypt :: "rstr \<Rightarrow> rstr \<Rightarrow> rstr \<Rightarrow> ('v, client_failure, rstr) comp"
  vl_data_key :: "rstr \<Rightarrow> rstr \<Rightarrow> ('v, client_failure, rstr option \<times> rstr) comp"
  vl_lookup_self :: "('v, client_failure, nat \<times> bool) comp"
  vl_renew_self :: "('v, client_failure, nat \<times> bool) comp"

definition is_not_found :: "client_error \<Rightarrow> bool" where
  "is_not_found e = (case e of APIError code _ \<Rightarrow> code = 404 | _ \<Rightarrow> False)"

definition contains_text :: "rstr \<Rightarrow> rstr \<Rightarrow> bool" where
  "contains_text s needle = list_ex (\<lambda>n. starts_with (drop n s) needle) [0..<Suc (length s)]"

definition is_cas_conflict :: "client_error \<Rightarrow> bool" where
  "is_cas_conflict e =
     (case e of
        APIError code errors \<Rightarrow> code = 400 \<and> list_ex (\<lambda>m. contains_text (map to_ascii_lowercase m) (bs ''check-and-set'')) errors
      | _ \<Rightarrow> False)"

text \<open>
  The three ways a call ends. \<open>special\<close> is the answer an error stands for, such as "no such secret";
  every other error of the client is a backend error with its context.
\<close>

definition answered :: "rstr \<Rightarrow> (client_error \<Rightarrow> 'a option) \<Rightarrow> ('b \<Rightarrow> 'a) \<Rightarrow> ('v, client_failure, 'b) comp \<Rightarrow> ('v, interruption, 'a) comp" where
  "answered doing special f call v =
     (case call v of
        (Ok b, v') \<Rightarrow> (Ok (f b), v')
      | (Err (ClientErr e), v') \<Rightarrow>
          (case special e of Some a \<Rightarrow> Ok a | None \<Rightarrow> Err (Failed (KeyBackend doing)), v')
      | (Err CutOff, v') \<Rightarrow> (Err Elapsed, v'))"

definition index_key_path :: "vault_config \<Rightarrow> rstr \<Rightarrow> core_error + rstr" where
  "index_key_path c name =
     (if name = [] \<or> 47 \<in> set name \<or> name = [46] \<or> name = [46, 46]
      then Err (KeySourceFailed (BackendSays (bs ''index key name '' @ name @ bs '' is not a usable Vault path segment'')))
      else Ok (vc_path c @ bs ''/index_keys/'' @ name))"

definition legacy_index_keys_path :: "vault_config \<Rightarrow> rstr" where
  "legacy_index_keys_path c = vc_path c @ bs ''/index_keys''"

definition dek_path :: "externs \<Rightarrow> vault_config \<Rightarrow> key_id \<Rightarrow> rstr" where
  "dek_path x c i = vc_path c @ bs ''/deks/'' @ x_hex_encode x i"

definition decode_key_b64 :: "(rstr \<Rightarrow> bytes option) \<Rightarrow> rstr \<Rightarrow> core_error + key" where
  "decode_key_b64 unbase64 encoded =
     res_bind (ok_or (unbase64 encoded) (KeyBackend (bs ''data key is not valid base64''))) (\<lambda>raw.
       if length raw = 32 then Ok raw
       else Err (KeySourceFailed (BackendSays (bs ''data key must be 32 bytes, got '' @ dec_of (int (length raw))))))"

definition absent :: "client_error \<Rightarrow> 'a option option" where
  "absent e = (if is_not_found e then Some None else None)"

definition store_read_index_key :: "vault_config \<Rightarrow> 'v vault_client \<Rightarrow> rstr \<Rightarrow> ('v, interruption, index_key_record option) comp" where
  "store_read_index_key c cl name =
     comp_bind (comp_of (map_err Failed (index_key_path c name))) (\<lambda>path.
       answered (bs ''reading index key '' @ name) absent Some (vl_read_record cl (vc_mount c) path))"

definition store_create_index_key :: "vault_config \<Rightarrow> 'v vault_client \<Rightarrow> rstr \<Rightarrow> index_key_record \<Rightarrow> ('v, interruption, bool) comp" where
  "store_create_index_key c cl name r =
     comp_bind (comp_of (map_err Failed (index_key_path c name))) (\<lambda>path.
       answered (bs ''storing index key '' @ name) (\<lambda>e. if is_cas_conflict e then Some False else None) (\<lambda>_. True)
         (vl_create_record cl (vc_mount c) path r))"

definition store_read_legacy :: "vault_config \<Rightarrow> 'v vault_client \<Rightarrow> ('v, interruption, legacy_index_keys option) comp" where
  "store_read_legacy c cl =
     answered (bs ''reading '' @ legacy_index_keys_path c) absent Some (vl_read_legacy cl (vc_mount c) (legacy_index_keys_path c))"

definition store_fetch_dek :: "externs \<Rightarrow> (rstr \<Rightarrow> bytes option) \<Rightarrow> vault_config \<Rightarrow> 'v vault_client \<Rightarrow> key_id
    \<Rightarrow> ('v, interruption, key option) comp" where
  "store_fetch_dek x unbase64 c cl i =
     comp_bind (answered (bs ''reading wrapped DEK '' @ x_hex_encode x i) absent Some
         (vl_read_wrapped cl (vc_mount c) (dek_path x c i))) (\<lambda>wrapped.
       case wrapped of
         None \<Rightarrow> comp_ret None
       | Some w \<Rightarrow>
           comp_bind (answered (bs ''transit unwrap of DEK '' @ x_hex_encode x i) (\<lambda>_. None) id
               (vl_decrypt cl (vc_transit_mount c) (vc_transit_key c) w)) (\<lambda>plaintext.
             comp_of (map_err Failed (map_ok Some (decode_key_b64 unbase64 plaintext)))))"

definition token_status_of :: "nat \<times> bool \<Rightarrow> token_status" where
  "token_status_of t = \<lparr>ts_ttl = fst t * 1000, ts_renewable = snd t\<rparr>"

definition store_token_status :: "'v vault_client \<Rightarrow> ('v, interruption, token_status) comp" where
  "store_token_status cl = answered (bs ''looking up the vault token'') (\<lambda>_. None) token_status_of (vl_lookup_self cl)"

definition store_renew_token :: "'v vault_client \<Rightarrow> ('v, interruption, token_status) comp" where
  "store_renew_token cl = answered (bs ''renewing the vault token'') (\<lambda>_. None) token_status_of (vl_renew_self cl)"

definition vault_store :: "externs \<Rightarrow> (rstr \<Rightarrow> bytes option) \<Rightarrow> vault_config \<Rightarrow> 'v vault_client \<Rightarrow> 'v key_store" where
  "vault_store x unbase64 c cl =
     \<lparr>kst_read_index_key = store_read_index_key c cl, kst_create_index_key = store_create_index_key c cl,
      kst_read_legacy = store_read_legacy c cl, kst_fetch_dek = store_fetch_dek x unbase64 c cl,
      kst_token_status = store_token_status cl, kst_renew_token = store_renew_token cl\<rparr>"

text \<open>The settings of the HTTP client; \<open>url\<close> is \<open>Url::parse\<close> with the rendering of its result.\<close>

record client_settings =
  cs_address :: rstr
  cs_token :: rstr
  cs_verify :: bool
  cs_timeout :: "nat option"

definition client_settings_of :: "(rstr \<Rightarrow> rstr option) \<Rightarrow> vault_config \<Rightarrow> rstr \<Rightarrow> nat \<Rightarrow> rstr option \<Rightarrow> core_error + client_settings" where
  "client_settings_of url c token timeout skip_verify_env =
     res_bind (ok_or (url (vc_addr c)) (KeyBackend (bs ''[vault] addr '' @ vc_addr c @ bs '' is not a URL''))) (\<lambda>addr.
       Ok \<lparr>cs_address = addr, cs_token = token, cs_verify = True, cs_timeout = Some timeout\<rparr>)"


section \<open>The key source\<close>

definition MISSING_DEK_CACHE_TTL :: nat where
  "MISSING_DEK_CACHE_TTL = 60 * 1000"

definition MISSING_DEK_CACHE_MAX :: nat where
  "MISSING_DEK_CACHE_MAX = 4096"

definition TOKEN_RENEW_THRESHOLD :: nat where
  "TOKEN_RENEW_THRESHOLD = 600 * 1000"

text \<open>The clock and the entropy source, and the flavour of the runtime.\<close>

record 'v vault_env =
  ve_clock :: "'v \<Rightarrow> nat"
  ve_draw :: "nat \<Rightarrow> 'v \<Rightarrow> bytes option \<times> 'v"
  ve_multi_thread :: bool

record 'v vault_source =
  vs_server :: 'v
  vs_active :: "key_id \<times> key"
  vs_deks :: "key_id \<rightharpoonup> key"
  vs_missing :: "(key_id \<times> nat) list"
  vs_index_keys :: "rstr \<rightharpoonup> key"

definition vault_source_new :: "'v \<Rightarrow> key_id \<times> key \<Rightarrow> 'v vault_source" where
  "vault_source_new v act =
     \<lparr>vs_server = v, vs_active = act, vs_deks = [fst act \<mapsto> snd act], vs_missing = [], vs_index_keys = Map.empty\<rparr>"

definition draw_bytes :: "'v vault_env \<Rightarrow> nat \<Rightarrow> ('v, interruption, bytes) comp" where
  "draw_bytes env n v = (case ve_draw env n v of (b, v') \<Rightarrow> (ok_or b (Failed Entropy), v'))"

text \<open>
  \<open>connect\<close>: the data key of this run, its wrapped form stored under a fresh id. Requests before the
  key source exists are bounded by the client's own timeout, which is an error of the client.
\<close>

definition startup_call :: "rstr \<Rightarrow> ('v, client_failure, 'a) comp \<Rightarrow> ('v, core_error, 'a) comp" where
  "startup_call doing call v = (case call v of (r, v') \<Rightarrow> (map_err (\<lambda>_. KeyBackend doing) r, v'))"

definition connect :: "externs \<Rightarrow> (rstr \<Rightarrow> bytes option) \<Rightarrow> (rstr \<Rightarrow> rstr option) \<Rightarrow> 'v vault_env \<Rightarrow> (client_settings \<Rightarrow> 'v vault_client option)
    \<Rightarrow> rstr option \<Rightarrow> vault_setup \<Rightarrow> ('v, core_error, 'v vault_client \<times> key_id \<times> key) comp" where
  "connect x unbase64 url env client_new skip_verify su =
     (let c = su_config su in
      comp_bind (comp_of (client_settings_of url c (su_token su) (vc_timeout_secs c * 1000) skip_verify)) (\<lambda>settings.
      comp_bind (comp_of (ok_or (client_new settings) (KeyBackend (bs ''connecting to vault'')))) (\<lambda>cl.
      comp_bind (startup_call (bs ''transit data key'') (vl_data_key cl (vc_transit_mount c) (vc_transit_key c))) (\<lambda>(plaintext, ciphertext).
      comp_bind (comp_of (ok_or plaintext (KeySourceFailed (BackendSays (bs ''transit returned no plaintext data key''))))) (\<lambda>plaintext.
      comp_bind (comp_of (decode_key_b64 unbase64 plaintext)) (\<lambda>key.
      comp_bind (\<lambda>v. case ve_draw env 16 v of (b, v') \<Rightarrow> (ok_or b Entropy, v')) (\<lambda>key_id.
      comp_bind (startup_call (bs ''storing wrapped DEK'') (vl_set_wrapped cl (vc_mount c) (dek_path x c key_id) ciphertext)) (\<lambda>_.
        comp_ret (cl, key_id, key)))))))))"

definition block_on :: "'v vault_env \<Rightarrow> nat \<Rightarrow> rstr \<Rightarrow> ('v, interruption, 'a) comp \<Rightarrow> ('v vault_source, core_error, 'a) comp" where
  "block_on env timeout what fut s =
     (if \<not> ve_multi_thread env
      then (Err (KeySourceFailed (BackendSays (what @ bs '': VaultKeySource needs a multi-thread tokio runtime''))), s)
      else (case fut (vs_server s) of
        (r, v) \<Rightarrow> (map_err (\<lambda>e. case e of
            Failed e \<Rightarrow> e
          | Elapsed \<Rightarrow> KeySourceFailed (BackendSays (what @ bs '': vault did not answer within '' @ dec_of (int timeout) @ bs ''s''))) r,
          s\<lparr>vs_server := v\<rparr>)))"

definition adopt_legacy_index_key :: "externs \<Rightarrow> 'v key_store \<Rightarrow> rstr \<Rightarrow> ('v, interruption, key option) comp" where
  "adopt_legacy_index_key x st name =
     comp_bind (kst_read_legacy st) (\<lambda>legacy.
       case (case legacy of None \<Rightarrow> None | Some m \<Rightarrow> m name) of
         None \<Rightarrow> comp_ret None
       | Some hex_key \<Rightarrow>
           comp_bind (comp_of (map_err Failed (decode_key_hex x hex_key))) (\<lambda>key.
           comp_bind (kst_create_index_key st name (record_first (x_hex_encode x key))) (\<lambda>_.
             comp_ret (Some key))))"

definition resolve_index_key :: "externs \<Rightarrow> 'v vault_env \<Rightarrow> 'v key_store \<Rightarrow> rstr \<Rightarrow> ('v, interruption, key) comp" where
  "resolve_index_key x env st name =
     comp_bind (kst_read_index_key st name) (\<lambda>r.
       case r of
         Some r \<Rightarrow> comp_of (map_err Failed (current_key x r))
       | None \<Rightarrow>
           comp_bind (adopt_legacy_index_key x st name) (\<lambda>adopted.
             case adopted of
               Some key \<Rightarrow> comp_ret key
             | None \<Rightarrow>
                 comp_bind (draw_bytes env 32) (\<lambda>fresh.
                 comp_bind (kst_create_index_key st name (record_first (x_hex_encode x fresh))) (\<lambda>created.
                   if created then comp_ret fresh
                   else
                     comp_bind (kst_read_index_key st name) (\<lambda>r.
                       case r of
                         None \<Rightarrow> comp_of (Err (Failed (KeySourceFailed (BackendSays (
                                   bs ''index key '' @ name @ bs '' disappeared after a create conflict'')))))
                       | Some r \<Rightarrow> comp_of (map_err Failed (current_key x r)))))))"

definition recently_missing :: "'v vault_env \<Rightarrow> key_id \<Rightarrow> 'v vault_source \<Rightarrow> bool" where
  "recently_missing env i s =
     (case map_of (vs_missing s) i of
        None \<Rightarrow> False
      | Some seen \<Rightarrow> ve_clock env (vs_server s) - seen < MISSING_DEK_CACHE_TTL)"

definition remember_missing :: "'v vault_env \<Rightarrow> key_id \<Rightarrow> 'v vault_source \<Rightarrow> 'v vault_source" where
  "remember_missing env i s =
     (let now = ve_clock env (vs_server s);
          kept = filter (\<lambda>(_, seen). now - seen < MISSING_DEK_CACHE_TTL) (vs_missing s);
          kept = (if length kept \<ge> MISSING_DEK_CACHE_MAX then [] else kept) in
      s\<lparr>vs_missing := AList.update i now kept\<rparr>)"

datatype token_check =
    Healthy
  | Renewed
  | Expiring
  | Unknown

definition check_token :: "'v key_store \<Rightarrow> 'v vault_source \<Rightarrow> token_check \<times> 'v vault_source" where
  "check_token st s =
     (case kst_token_status st (vs_server s) of
        (Err _, v) \<Rightarrow> (Unknown, s\<lparr>vs_server := v\<rparr>)
      | (Ok status, v) \<Rightarrow>
          if never_expires status \<or> ts_ttl status > TOKEN_RENEW_THRESHOLD then (Healthy, s\<lparr>vs_server := v\<rparr>)
          else if \<not> ts_renewable status then (Expiring, s\<lparr>vs_server := v\<rparr>)
          else (case kst_renew_token st v of
              (Ok _, v) \<Rightarrow> (Renewed, s\<lparr>vs_server := v\<rparr>)
            | (Err _, v) \<Rightarrow> (Expiring, s\<lparr>vs_server := v\<rparr>)))"

text \<open>
  \<open>token_watch\<close>: the select of each round is won by the interval, during which the server moved on
  (given as what happened to it), or by the shutdown. The list is the rounds so far; the result says
  whether the task has returned.
\<close>

datatype 'v watch_event =
    IntervalElapsed "'v \<Rightarrow> 'v"
  | Shutdown

fun token_watch :: "'v key_store \<Rightarrow> 'v watch_event list \<Rightarrow> 'v vault_source \<Rightarrow> bool \<times> token_check list \<times> 'v vault_source" where
  "token_watch st [] s = (False, [], s)"
| "token_watch st (Shutdown # evs) s = (True, [], s)"
| "token_watch st (IntervalElapsed f # evs) s =
     (case check_token st (s\<lparr>vs_server := f (vs_server s)\<rparr>) of
        (c, s) \<Rightarrow> (case token_watch st evs s of (ended, cs, s) \<Rightarrow> (ended, c # cs, s)))"

definition vks_active_key :: "('v vault_source, core_error, key_id \<times> key) comp" where
  "vks_active_key s = (Ok (vs_active s), s)"

definition vks_key :: "externs \<Rightarrow> 'v vault_env \<Rightarrow> nat \<Rightarrow> 'v key_store \<Rightarrow> key_id \<Rightarrow> ('v vault_source, core_error, key) comp" where
  "vks_key x env timeout st i s =
     (case vs_deks s i of
        Some key \<Rightarrow> (Ok key, s)
      | None \<Rightarrow>
          if recently_missing env i s then (Err (UnknownKey (x_hex_encode x i)), s)
          else
            comp_bind (block_on env timeout (bs ''fetching DEK'') (kst_fetch_dek st i)) (\<lambda>fetched s.
              case fetched of
                None \<Rightarrow> (Err (UnknownKey (x_hex_encode x i)), remember_missing env i s)
              | Some key \<Rightarrow> (Ok key, s\<lparr>vs_deks := (vs_deks s)(i \<mapsto> key)\<rparr>)) s)"

definition vks_index_key :: "externs \<Rightarrow> 'v vault_env \<Rightarrow> nat \<Rightarrow> 'v key_store \<Rightarrow> rstr \<Rightarrow> ('v vault_source, core_error, key) comp" where
  "vks_index_key x env timeout st name s =
     (case vs_index_keys s name of
        Some key \<Rightarrow> (Ok key, s)
      | None \<Rightarrow>
          comp_bind (block_on env timeout (bs ''resolving index key'') (resolve_index_key x env st name)) (\<lambda>key s.
            (Ok key, s\<lparr>vs_index_keys := (vs_index_keys s)(name \<mapsto> key)\<rparr>)) s)"

definition vault_key_source :: "externs \<Rightarrow> 'v vault_env \<Rightarrow> nat \<Rightarrow> 'v key_store \<Rightarrow> 'v vault_source key_source" where
  "vault_key_source x env timeout st =
     \<lparr>ks_active_key = vks_active_key, ks_key = vks_key x env timeout st, ks_index_key = vks_index_key x env timeout st\<rparr>"

end
