(* ===== verification/VaultProps.thy ===== *)
theory VaultProps
  imports Vault Sample
begin

text \<open>
  What the Vault key source promises. \<open>key_store_laws\<close> is the contract of the \<open>KeyStore\<close> trait;
  inside it, any number of processes resolving deterministic keys through one server agree on them.
  With the keys provisioned beforehand the key source satisfies the contract \<open>key_source_laws\<close> the
  rest of the library is proved against. The contracts are interpreted on \<open>vault_store\<close> over a KV
  server kept in maps.
\<close>

section \<open>The contract of the store\<close>

text \<open>
  \<open>stored\<close> is the record the server holds for a name, \<open>legacy\<close> the entry of the older shared map,
  \<open>dek\<close> the data key an id unwraps to. Reads answer what is there, or fail; a creation succeeds only
  where nothing is stored and is refused only where something is; one that fails may or may not have
  taken effect. Nothing ever replaces or removes a record.
\<close>

locale key_store_laws =
  fixes st :: "'v key_store" and env :: "'v vault_env"
    and good :: "'v \<Rightarrow> bool"
    and stored :: "'v \<Rightarrow> rstr \<rightharpoonup> index_key_record"
    and legacy :: "rstr \<rightharpoonup> rstr"
    and dek :: "key_id \<rightharpoonup> key"
  assumes read_keeps: "good v \<Longrightarrow> kst_read_index_key st name v = (r, v') \<Longrightarrow> good v' \<and> stored v' = stored v"
    and read_stored: "good v \<Longrightarrow> kst_read_index_key st name v = (Ok r', v') \<Longrightarrow> r' = stored v name"
    and create_done: "good v \<Longrightarrow> kst_create_index_key st name rec v = (Ok True, v') \<Longrightarrow>
          good v' \<and> stored v name = None \<and> stored v' = (stored v)(name \<mapsto> rec)"
    and create_conflict: "good v \<Longrightarrow> kst_create_index_key st name rec v = (Ok False, v') \<Longrightarrow>
          good v' \<and> stored v name \<noteq> None \<and> stored v' = stored v"
    and create_failed: "good v \<Longrightarrow> kst_create_index_key st name rec v = (Err e, v') \<Longrightarrow>
          good v' \<and> (stored v' = stored v \<or> stored v name = None \<and> stored v' = (stored v)(name \<mapsto> rec))"
    and legacy_keeps: "good v \<Longrightarrow> kst_read_legacy st v = (l, v') \<Longrightarrow> good v' \<and> stored v' = stored v"
    and legacy_read: "good v \<Longrightarrow> kst_read_legacy st v = (Ok m, v') \<Longrightarrow> (case m of None \<Rightarrow> Map.empty | Some m \<Rightarrow> m) = legacy"
    and fetch_keeps: "good v \<Longrightarrow> kst_fetch_dek st i v = (f, v') \<Longrightarrow> good v' \<and> stored v' = stored v"
    and fetch_dek: "good v \<Longrightarrow> kst_fetch_dek st i v = (Ok (Some d), v') \<Longrightarrow> dek i = Some d"
    and draw_keeps: "good v \<Longrightarrow> ve_draw env n v = (b, v') \<Longrightarrow> good v' \<and> stored v' = stored v"
    and draw_width: "ve_draw env n v = (Some bytes, v') \<Longrightarrow> length bytes = n"
begin

lemma create_grows:
  assumes "good v" and "kst_create_index_key st name rec v = (r, v')"
  shows "good v' \<and> stored v \<subseteq>\<^sub>m stored v' \<and> (\<forall>n. stored v' n = stored v n \<or> n = name \<and> stored v n = None \<and> stored v' n = Some rec)"
proof -
  have cases: "good v' \<and> (stored v' = stored v \<or> stored v name = None \<and> stored v' = (stored v)(name \<mapsto> rec))"
  proof (cases r)
    case (Inl e)
    then show ?thesis using create_failed [OF assms(1)] assms(2) by blast
  next
    case (Inr b)
    then show ?thesis using create_done [OF assms(1)] create_conflict [OF assms(1)] assms(2) by (cases b) auto
  qed
  then show ?thesis by (auto simp: map_le_def split: if_splits)
qed

end

lemma decode_key_hex_encode:
  "hex_encode_ok x \<Longrightarrow> hex_decode_ok x \<Longrightarrow> length k = 32 \<Longrightarrow> decode_key_hex x (x_hex_encode x k) = Ok k"
  by (simp add: decode_key_hex_def hex_encode_ok_def hex_decode_ok_def)

lemma current_key_first:
  "hex_encode_ok x \<Longrightarrow> hex_decode_ok x \<Longrightarrow> length k = 32 \<Longrightarrow> current_key x (record_first (x_hex_encode x k)) = Ok k"
  by (simp add: current_key_def record_first_def decode_key_hex_encode)

lemma decode_key_hex_width: "decode_key_hex x h = Ok k \<Longrightarrow> length k = 32"
  by (auto simp: decode_key_hex_def res_simps split: if_splits)


section \<open>Resolving a key, one store call at a time\<close>

datatype index_phase =
    ReadRecord
  | ReadLegacy
  | Migrate key
  | Mint key
  | Reread
  | Resolved key
  | GaveUp interruption

definition outcome :: "interruption + key \<Rightarrow> index_phase" where
  "outcome r = (case r of Ok k \<Rightarrow> Resolved k | Err e \<Rightarrow> GaveUp e)"

text \<open>\<open>resolve_index_key\<close> up to its next call; the draw of a fresh key is not a call.\<close>

fun index_step :: "externs \<Rightarrow> 'v vault_env \<Rightarrow> 'v key_store \<Rightarrow> rstr \<Rightarrow> index_phase \<Rightarrow> 'v \<Rightarrow> index_phase \<times> 'v" where
  "index_step x env st name ReadRecord v =
     (case kst_read_index_key st name v of
        (Ok (Some r), v') \<Rightarrow> (outcome (map_err Failed (current_key x r)), v')
      | (Ok None, v') \<Rightarrow> (ReadLegacy, v')
      | (Err e, v') \<Rightarrow> (GaveUp e, v'))"
| "index_step x env st name ReadLegacy v =
     (case kst_read_legacy st v of
        (Err e, v') \<Rightarrow> (GaveUp e, v')
      | (Ok m, v') \<Rightarrow>
          (case (case m of None \<Rightarrow> None | Some m \<Rightarrow> m name) of
             Some h \<Rightarrow> (case decode_key_hex x h of Ok k \<Rightarrow> (Migrate k, v') | Err e \<Rightarrow> (GaveUp (Failed e), v'))
           | None \<Rightarrow> (case draw_bytes env 32 v' of (Ok fresh, v'') \<Rightarrow> (Mint fresh, v'') | (Err e, v'') \<Rightarrow> (GaveUp e, v''))))"
| "index_step x env st name (Migrate k) v =
     (case kst_create_index_key st name (record_first (x_hex_encode x k)) v of
        (Ok _, v') \<Rightarrow> (Resolved k, v')
      | (Err e, v') \<Rightarrow> (GaveUp e, v'))"
| "index_step x env st name (Mint fresh) v =
     (case kst_create_index_key st name (record_first (x_hex_encode x fresh)) v of
        (Ok True, v') \<Rightarrow> (Resolved fresh, v')
      | (Ok False, v') \<Rightarrow> (Reread, v')
      | (Err e, v') \<Rightarrow> (GaveUp e, v'))"
| "index_step x env st name Reread v =
     (case kst_read_index_key st name v of
        (Ok (Some r), v') \<Rightarrow> (outcome (map_err Failed (current_key x r)), v')
      | (Ok None, v') \<Rightarrow> (GaveUp (Failed (KeySourceFailed (BackendSays (bs ''index key '' @ name @ bs '' disappeared after a create conflict'')))), v')
      | (Err e, v') \<Rightarrow> (GaveUp e, v'))"
| "index_step x env st name (Resolved k) v = (Resolved k, v)"
| "index_step x env st name (GaveUp e) v = (GaveUp e, v)"

primrec index_run :: "externs \<Rightarrow> 'v vault_env \<Rightarrow> 'v key_store \<Rightarrow> rstr \<Rightarrow> nat \<Rightarrow> index_phase \<times> 'v \<Rightarrow> index_phase \<times> 'v" where
  "index_run x env st name 0 s = s"
| "index_run x env st name (Suc n) s = index_run x env st name n (index_step x env st name (fst s) (snd s))"

text \<open>Any number of resolutions over one server: process \<open>i\<close> resolves the name \<open>nm i\<close>, and one that ended may start again.\<close>

inductive resolving :: "externs \<Rightarrow> 'v vault_env \<Rightarrow> 'v key_store \<Rightarrow> (nat \<Rightarrow> rstr) \<Rightarrow> 'v \<Rightarrow> 'v \<Rightarrow> (nat \<Rightarrow> index_phase) \<Rightarrow> bool"
  for x env st nm v\<^sub>0
  where
    start: "resolving x env st nm v\<^sub>0 v\<^sub>0 (\<lambda>_. ReadRecord)"
  | advance: "resolving x env st nm v\<^sub>0 v ph \<Longrightarrow> index_step x env st (nm i) (ph i) v = (p, v') \<Longrightarrow>
      resolving x env st nm v\<^sub>0 v' (ph(i := p))"
  | again: "resolving x env st nm v\<^sub>0 v ph \<Longrightarrow> ph i = GaveUp e \<Longrightarrow> resolving x env st nm v\<^sub>0 v (ph(i := ReadRecord))"

lemma index_run_ended [simp]:
  "index_run x env st name n (Resolved k, v) = (Resolved k, v)"
  "index_run x env st name n (GaveUp e, v) = (GaveUp e, v)"
  "index_run x env st name n (outcome r, v) = (outcome r, v)"
proof -
  show r: "index_run x env st name n (Resolved k, v) = (Resolved k, v)" for k by (induction n) simp_all
  show g: "index_run x env st name n (GaveUp e, v) = (GaveUp e, v)" for e by (induction n) simp_all
  show "index_run x env st name n (outcome r, v) = (outcome r, v)" by (cases r) (simp_all add: outcome_def r g)
qed

lemma outcome_simps [simp]: "outcome (Ok k) = Resolved k" "outcome (Err e) = GaveUp e"
  by (simp_all add: outcome_def)

text \<open>The rest of \<open>resolve_index_key\<close> from each of its calls on.\<close>

definition after_conflict :: "externs \<Rightarrow> 'v key_store \<Rightarrow> rstr \<Rightarrow> ('v, interruption, key) comp" where
  "after_conflict x st name =
     comp_bind (kst_read_index_key st name) (\<lambda>r.
       case r of
         None \<Rightarrow> comp_of (Err (Failed (KeySourceFailed (BackendSays (
                   bs ''index key '' @ name @ bs '' disappeared after a create conflict'')))))
       | Some r \<Rightarrow> comp_of (map_err Failed (current_key x r)))"

definition after_draw :: "externs \<Rightarrow> 'v key_store \<Rightarrow> rstr \<Rightarrow> key \<Rightarrow> ('v, interruption, key) comp" where
  "after_draw x st name fresh =
     comp_bind (kst_create_index_key st name (record_first (x_hex_encode x fresh))) (\<lambda>created.
       if created then comp_ret fresh else after_conflict x st name)"

lemma resolve_index_key_eq:
  "resolve_index_key x env st name =
     comp_bind (kst_read_index_key st name) (\<lambda>r.
       case r of
         Some r \<Rightarrow> comp_of (map_err Failed (current_key x r))
       | None \<Rightarrow>
           comp_bind (adopt_legacy_index_key x st name) (\<lambda>adopted.
             case adopted of Some key \<Rightarrow> comp_ret key | None \<Rightarrow> comp_bind (draw_bytes env 32) (after_draw x st name)))"
  by (simp only: resolve_index_key_def after_draw_def [abs_def] after_conflict_def)

lemma reread_runs: "after_conflict x st name v = (r, v') \<Longrightarrow> index_run x env st name (Suc n) (Reread, v) = (outcome r, v')"
  by (auto simp: after_conflict_def elim!: comp_bindE split: option.splits)

lemma mint_runs: "after_draw x st name fresh v = (r, v') \<Longrightarrow> index_run x env st name (Suc (Suc n)) (Mint fresh, v) = (outcome r, v')"
  using reread_runs by (fastforce simp: after_draw_def elim!: comp_bindE split: if_splits bool.splits)

lemma legacy_runs:
  assumes "comp_bind (adopt_legacy_index_key x st name) (\<lambda>adopted.
      case adopted of Some key \<Rightarrow> comp_ret key | None \<Rightarrow> comp_bind (draw_bytes env 32) (after_draw x st name)) v = (r, v')"
  shows "index_run x env st name (Suc (Suc (Suc n))) (ReadLegacy, v) = (outcome r, v')"
proof -
  obtain l u where l: "kst_read_legacy st v = (l, u)" by force
  show ?thesis
  proof (cases l)
    case (Inl e)
    then show ?thesis using assms l by (auto simp: adopt_legacy_index_key_def comp_bind_def)
  next
    case (Inr m)
    let ?h = "case m of None \<Rightarrow> None | Some m \<Rightarrow> m name"
    show ?thesis
    proof (cases ?h)
      case None
      then have "comp_bind (draw_bytes env 32) (after_draw x st name) u = (r, v')"
        using assms l Inr by (simp add: adopt_legacy_index_key_def comp_bind_def)
      then show ?thesis using l Inr None mint_runs by (auto elim!: comp_bindE simp del: index_run.simps(2) simp: index_run.simps(2) [of _ _ _ _ "Suc (Suc n)"])
    next
      case (Some h)
      then show ?thesis
        using assms l Inr
        by (cases "decode_key_hex x h")
          (auto simp: adopt_legacy_index_key_def comp_bind_def split: prod.splits sum.splits)
    qed
  qed
qed

lemma resolve_runs:
  assumes "resolve_index_key x env st name v = (r, v')"
  shows "index_run x env st name 4 (ReadRecord, v) = (outcome r, v')"
proof -
  have four: "index_run x env st name 4 (ReadRecord, v)
      = index_run x env st name (Suc (Suc (Suc 0))) (index_step x env st name ReadRecord v)"
    by (simp only: numeral_eq_Suc pred_numeral_simps BitM.simps index_run.simps fst_conv snd_conv)
  show ?thesis
    using assms unfolding resolve_index_key_eq
  proof (cases rule: comp_bindE)
    case (ok a s')
    show ?thesis
    proof (cases a)
      case None
      then have "index_step x env st name ReadRecord v = (ReadLegacy, s')" using ok by simp
      then show ?thesis using ok(2) None legacy_runs [of x st name env s' r v' 0] by (simp only: option.case four simp_thms)
    qed (use ok in \<open>auto simp: four simp del: index_run.simps\<close>)
  qed (auto simp: four simp del: index_run.simps)
qed


section \<open>Agreement\<close>

text \<open>No record contradicts the shared map.\<close>

definition consistent :: "externs \<Rightarrow> (rstr \<rightharpoonup> rstr) \<Rightarrow> (rstr \<rightharpoonup> index_key_record) \<Rightarrow> bool" where
  "consistent x legacy recs \<longleftrightarrow>
     (\<forall>name r h. recs name = Some r \<longrightarrow> legacy name = Some h \<longrightarrow> current_key x r = decode_key_hex x h)"

definition phase_ok :: "externs \<Rightarrow> (rstr \<rightharpoonup> rstr) \<Rightarrow> (rstr \<rightharpoonup> index_key_record) \<Rightarrow> rstr \<Rightarrow> index_phase \<Rightarrow> bool" where
  "phase_ok x legacy recs name p =
     (case p of
        Migrate k \<Rightarrow> \<exists>h. legacy name = Some h \<and> decode_key_hex x h = Ok k
      | Mint k \<Rightarrow> legacy name = None \<and> length k = 32
      | Resolved k \<Rightarrow> \<exists>r. recs name = Some r \<and> current_key x r = Ok k
      | _ \<Rightarrow> True)"

lemma phase_ok_grows: "recs \<subseteq>\<^sub>m recs' \<Longrightarrow> phase_ok x legacy recs name p \<Longrightarrow> phase_ok x legacy recs' name p"
  by (cases p) (auto simp: phase_ok_def map_le_def dom_def)

lemma phase_ok_simps [simp]:
  "phase_ok x legacy recs name ReadRecord" "phase_ok x legacy recs name ReadLegacy" "phase_ok x legacy recs name Reread"
  "phase_ok x legacy recs name (GaveUp e)"
  by (simp_all add: phase_ok_def)

lemma phase_ok_outcome:
  "recs name = Some r \<Longrightarrow> phase_ok x legacy recs name (outcome (map_err Failed (current_key x r)))"
  by (cases "current_key x r") (auto simp: phase_ok_def)

context key_store_laws
begin

lemma create_step:
  assumes "good v" and c: "consistent x legacy (stored v)" and "kst_create_index_key st name (record_first (x_hex_encode x k)) v = (r, v')"
    and hex: "hex_encode_ok x" "hex_decode_ok x" "length k = 32" and l: "\<And>h. legacy name = Some h \<Longrightarrow> decode_key_hex x h = Ok k"
  shows "good v' \<and> consistent x legacy (stored v') \<and> stored v \<subseteq>\<^sub>m stored v'"
proof -
  note g = create_grows [OF assms(1,3)]
  have "current_key x r' = decode_key_hex x h" if r': "stored v' n = Some r'" "legacy n = Some h" for n r' h
  proof (cases "stored v' n = stored v n")
    case True
    then show ?thesis using c r' by (simp add: consistent_def)
  next
    case False
    then have "n = name" "r' = record_first (x_hex_encode x k)" using g r'(1) by (metis option.inject)+
    then show ?thesis using l [of h] r'(2) current_key_first [OF hex] by simp
  qed
  then show ?thesis using g by (simp add: consistent_def)
qed

lemma index_step_ok:
  assumes hex: "hex_encode_ok x" "hex_decode_ok x"
    and v: "good v" "consistent x legacy (stored v)" "phase_ok x legacy (stored v) name p" and s: "index_step x env st name p v = (p', v')"
  shows "good v' \<and> consistent x legacy (stored v') \<and> stored v \<subseteq>\<^sub>m stored v' \<and> phase_ok x legacy (stored v') name p'"
proof (cases p)
  case ReadRecord
  obtain r u where r: "kst_read_index_key st name v = (r, u)" by force
  note keeps = read_keeps [OF v(1) r]
  show ?thesis
    using s ReadRecord r keeps v(2) read_stored [OF v(1), of name _ u]
    by (auto simp del: outcome_simps intro!: phase_ok_outcome split: sum.splits option.splits)
next
  case ReadLegacy
  obtain l u where l: "kst_read_legacy st v = (l, u)" by force
  note keeps = legacy_keeps [OF v(1) l]
  show ?thesis
  proof (cases l)
    case (Inl e)
    then show ?thesis using s ReadLegacy l keeps v(2) by (auto simp: consistent_def phase_ok_def)
  next
    case (Inr m)
    have h: "(case m of None \<Rightarrow> None | Some m \<Rightarrow> m name) = legacy name"
      using legacy_read [OF v(1), of m u] l Inr by (auto split: option.splits)
    obtain b u' where d: "ve_draw env 32 u = (b, u')" by force
    have k: "good u'" "stored u' = stored v" using draw_keeps [OF _ d] keeps by auto
    have w: "b = Some c \<Longrightarrow> length c = 32" for c using draw_width [of 32 u c u'] d by simp
    show ?thesis
      using s ReadLegacy l Inr h keeps v(2) d k w
      by (cases b) (auto simp: consistent_def phase_ok_def draw_bytes_def split: sum.splits option.splits)
  qed
next
  case (Migrate k)
  obtain r u where r: "kst_create_index_key st name (record_first (x_hex_encode x k)) v = (r, u)" by force
  obtain h where h: "legacy name = Some h" "decode_key_hex x h = Ok k" using v(3) Migrate by (auto simp: phase_ok_def)
  have u: "good u \<and> consistent x legacy (stored u) \<and> stored v \<subseteq>\<^sub>m stored u"
    by (rule create_step [OF v(1,2) r hex decode_key_hex_width [OF h(2)]]) (use h in simp)
  have "\<exists>rec. stored u name = Some rec" if "r = Ok b" for b
    using create_done [OF v(1)] create_conflict [OF v(1)] r that by (cases b) auto
  then have "\<exists>rec. stored u name = Some rec \<and> current_key x rec = Ok k" if "r = Ok b" for b
    using u h that by (auto simp: consistent_def)
  then show ?thesis using s Migrate r u by (auto simp: phase_ok_def split: sum.splits)
next
  case (Mint k)
  obtain r u where r: "kst_create_index_key st name (record_first (x_hex_encode x k)) v = (r, u)" by force
  have l: "legacy name = None" "length k = 32" using v(3) Mint by (auto simp: phase_ok_def)
  have u: "good u \<and> consistent x legacy (stored u) \<and> stored v \<subseteq>\<^sub>m stored u"
    by (rule create_step [OF v(1,2) r hex l(2)]) (use l in simp)
  have "stored u name = Some (record_first (x_hex_encode x k))" if "r = Ok True"
    using create_done [OF v(1)] r that by auto
  then show ?thesis
    using s Mint r u current_key_first [OF hex l(2)] by (auto simp: phase_ok_def split: sum.splits bool.splits)
next
  case Reread
  obtain r u where r: "kst_read_index_key st name v = (r, u)" by force
  note keeps = read_keeps [OF v(1) r]
  show ?thesis
    using s Reread r keeps v(2) read_stored [OF v(1), of name _ u]
    by (auto simp del: outcome_simps intro!: phase_ok_outcome split: sum.splits option.splits)
qed (use assms in auto)

lemma resolving_ok:
  assumes "resolving x env st nm v\<^sub>0 v ph" and "hex_encode_ok x" "hex_decode_ok x" and "good v\<^sub>0" "consistent x legacy (stored v\<^sub>0)"
  shows "good v \<and> consistent x legacy (stored v) \<and> stored v\<^sub>0 \<subseteq>\<^sub>m stored v \<and> (\<forall>i. phase_ok x legacy (stored v) (nm i) (ph i))"
  using assms
proof (induction rule: resolving.induct)
  case start
  then show ?case by (simp add: phase_ok_def)
next
  case (advance v ph i p v')
  then have ih: "good v" "consistent x legacy (stored v)" "stored v\<^sub>0 \<subseteq>\<^sub>m stored v" "\<And>i. phase_ok x legacy (stored v) (nm i) (ph i)" by auto
  note s = index_step_ok [OF advance.prems(1,2) ih(1,2) ih(4) advance.hyps(2)]
  then show ?case using ih(3,4) phase_ok_grows map_le_trans by auto
next
  case (again v ph i e)
  then show ?case by (auto simp: phase_ok_def)
qed

end


section \<open>The contract of a key source\<close>

text \<open>A deployment whose deterministic keys all exist already, or whose token may not create any.\<close>

locale provisioned_store = key_store_laws +
  fixes x :: externs and ikey :: "rstr \<rightharpoonup> key"
  assumes create_refused: "good v \<Longrightarrow> stored v name = None \<Longrightarrow> kst_create_index_key st name rec v = (q, v') \<Longrightarrow> stored v' name = None"
    and ikey_stored: "good v \<Longrightarrow> stored v name = Some rec \<Longrightarrow> current_key x rec = Ok k \<Longrightarrow> ikey name = Some k"
    and ikey_legacy: "legacy name = Some h \<Longrightarrow> decode_key_hex x h = Ok k \<Longrightarrow> ikey name = Some k"
begin

lemma step_ikey:
  assumes v: "good v" and p: "case p of Migrate k \<Rightarrow> ikey name = Some k | Resolved k \<Rightarrow> ikey name = Some k | _ \<Rightarrow> True"
    and s: "index_step x env st name p v = (p', v')"
  shows "good v' \<and> (case p' of Migrate k \<Rightarrow> ikey name = Some k | Resolved k \<Rightarrow> ikey name = Some k | _ \<Rightarrow> True)"
proof (cases p)
  case ReadRecord
  obtain r u where r: "kst_read_index_key st name v = (r, u)" by force
  have "r = Ok (Some rec) \<Longrightarrow> current_key x rec = Ok k \<Longrightarrow> ikey name = Some k" for rec k
    using read_stored [OF v] r ikey_stored [OF v] by auto
  then show ?thesis
    using s ReadRecord r read_keeps [OF v r]
    by (auto simp: outcome_def map_err_eq_Ok split: sum.splits option.splits)
next
  case ReadLegacy
  obtain l u where l: "kst_read_legacy st v = (l, u)" by force
  note keeps = legacy_keeps [OF v l]
  have h: "(case m of None \<Rightarrow> None | Some m \<Rightarrow> m name) = legacy name" if "l = Ok m" for m
    using legacy_read [OF v, of m u] l that by (auto split: option.splits)
  obtain b u' where d: "ve_draw env 32 u = (b, u')" by force
  have "good u'" using draw_keeps [OF _ d] keeps by auto
  then show ?thesis
    using s ReadLegacy l h keeps d ikey_legacy
    by (cases b) (auto simp: draw_bytes_def split: sum.splits option.splits)
next
  case (Migrate k)
  then show ?thesis using s p create_grows [OF v] by (auto split: prod.splits sum.splits)
next
  case (Mint k)
  obtain r u where r: "kst_create_index_key st name (record_first (x_hex_encode x k)) v = (r, u)" by force
  have "r \<noteq> Ok True"
    using create_done [OF v, of name "record_first (x_hex_encode x k)" u] create_refused [OF v _ r] r by auto
  then show ?thesis using s Mint r create_grows [OF v r] by (auto split: sum.splits bool.splits)
next
  case Reread
  obtain r u where r: "kst_read_index_key st name v = (r, u)" by force
  have "r = Ok (Some rec) \<Longrightarrow> current_key x rec = Ok k \<Longrightarrow> ikey name = Some k" for rec k
    using read_stored [OF v] r ikey_stored [OF v] by auto
  then show ?thesis
    using s Reread r read_keeps [OF v r]
    by (auto simp: outcome_def map_err_eq_Ok split: sum.splits option.splits)
qed (use assms in auto)

lemma run_ikey:
  assumes "good v" and "case p of Migrate k \<Rightarrow> ikey name = Some k | Resolved k \<Rightarrow> ikey name = Some k | _ \<Rightarrow> True"
    and "index_run x env st name n (p, v) = (p', v')"
  shows "good v' \<and> (case p' of Migrate k \<Rightarrow> ikey name = Some k | Resolved k \<Rightarrow> ikey name = Some k | _ \<Rightarrow> True)"
  using assms
proof (induction n arbitrary: p v)
  case (Suc n)
  obtain q u where q: "index_step x env st name p v = (q, u)" by force
  note step = step_ikey [OF Suc.prems(1,2) q]
  show ?case by (rule Suc.IH [of u q]) (use step Suc.prems(3) q in auto)
qed simp

lemma resolve_ikey:
  assumes "good v" and "resolve_index_key x env st name v = (r, v')"
  shows "good v' \<and> (\<forall>k. r = Ok k \<longrightarrow> ikey name = Some k)"
  using run_ikey [OF assms(1) _ resolve_runs [OF assms(2)]] by auto

end

text \<open>The caches hold what the server holds.\<close>

definition source_ok :: "('v \<Rightarrow> bool) \<Rightarrow> (key_id \<rightharpoonup> key) \<Rightarrow> (rstr \<rightharpoonup> key) \<Rightarrow> 'v vault_source \<Rightarrow> bool" where
  "source_ok good dek ikey s \<longleftrightarrow> good (vs_server s) \<and> length (fst (vs_active s)) = 16 \<and> dek (fst (vs_active s)) = Some (snd (vs_active s))
     \<and> vs_deks s \<subseteq>\<^sub>m dek \<and> vs_index_keys s \<subseteq>\<^sub>m ikey"

lemma map_le_SomeD: "m \<subseteq>\<^sub>m m' \<Longrightarrow> m k = Some d \<Longrightarrow> m' k = Some d"
  by (metis domI map_le_def)

lemma map_le_update: "m \<subseteq>\<^sub>m m' \<Longrightarrow> m' k = Some d \<Longrightarrow> m(k \<mapsto> d) \<subseteq>\<^sub>m m'"
  by (simp add: map_le_def)

lemma block_on_cases:
  assumes "block_on env timeout what fut s = (r, s')"
  obtains (skipped) e where "r = Err e" "s' = s"
    | (ran) q v where "fut (vs_server s) = (q, v)" "s' = s\<lparr>vs_server := v\<rparr>" "\<And>a. r = Ok a \<longleftrightarrow> q = Ok a"
proof (cases "ve_multi_thread env")
  case True
  obtain q v where q: "fut (vs_server s) = (q, v)" by force
  show thesis by (rule ran [OF q]) (use assms True q in \<open>auto simp: block_on_def\<close>)
next
  case False
  then show thesis using assms skipped by (auto simp: block_on_def)
qed

lemma remember_missing_simps [simp]:
  "vs_server (remember_missing env i s) = vs_server s" "vs_active (remember_missing env i s) = vs_active s"
  "vs_deks (remember_missing env i s) = vs_deks s" "vs_index_keys (remember_missing env i s) = vs_index_keys s"
  by (simp_all add: remember_missing_def Let_def)

context key_store_laws
begin

lemma vks_key_ok:
  assumes ok: "source_ok good dek ikey s" and k: "vks_key x env timeout st i s = (r, s')"
  shows "source_ok good dek ikey s' \<and> (\<forall>d. r = Ok d \<longrightarrow> dek i = Some d)"
proof (cases "vs_deks s i")
  case (Some d)
  then show ?thesis using assms by (auto simp: vks_key_def source_ok_def dest: map_le_SomeD)
next
  case None
  show ?thesis
  proof (cases "recently_missing env i s")
    case True
    then show ?thesis using assms None by (auto simp: vks_key_def)
  next
    case False
    obtain q u where q: "block_on env timeout (bs ''fetching DEK'') (kst_fetch_dek st i) s = (q, u)" by force
    have u: "source_ok good dek ikey u \<and> (\<forall>d. q = Ok (Some d) \<longrightarrow> dek i = Some d)"
      using q
    proof (cases rule: block_on_cases)
      case (ran f v)
      then show ?thesis using ok fetch_keeps [of "vs_server s" i f v] fetch_dek [of "vs_server s" i _ v] by (auto simp: source_ok_def)
    qed (use ok in simp)
    then show ?thesis
      using k None False q by (auto simp: vks_key_def comp_bind_def source_ok_def split: sum.splits option.splits intro: map_le_update)
  qed
qed

end

sublocale provisioned_store \<subseteq> vks: key_source_laws "vault_key_source x env timeout st" "source_ok good dek ikey" dek ikey for timeout
proof
  fix k :: "'a vault_source" and i d k' nm ra rk rk'
  let ?ks = "vault_key_source x env timeout st"
  assume ok: "source_ok good dek ikey k"
  have ixkey: "source_ok good dek ikey k' \<and> (\<forall>d. rk = Ok d \<longrightarrow> ikey nm = Some d)"
    if "vks_index_key x env timeout st nm k = (rk, k')" for nm rk k'
  proof (cases "vs_index_keys k nm")
    case None
    obtain q u where q: "block_on env timeout (bs ''resolving index key'') (resolve_index_key x env st nm) k = (q, u)" by force
    have u: "source_ok good dek ikey u \<and> (\<forall>d. q = Ok d \<longrightarrow> ikey nm = Some d)"
      using q
    proof (cases rule: block_on_cases)
      case (ran f v)
      then show ?thesis using ok resolve_ikey [of "vs_server k" nm f v] by (auto simp: source_ok_def)
    qed (use ok in simp)
    then show ?thesis
      using that None q by (auto simp: vks_index_key_def comp_bind_def source_ok_def split: sum.splits intro: map_le_update)
  qed (use that ok in \<open>auto simp: vks_index_key_def source_ok_def dest: map_le_SomeD\<close>)
  show "ks_active_key ?ks k = (Ok (i, d), k') \<Longrightarrow> dek i = Some d" "ks_active_key ?ks k = (Ok (i, d), k') \<Longrightarrow> length i = 16"
    "ks_active_key ?ks k = (ra, k') \<Longrightarrow> source_ok good dek ikey k'"
    using ok by (auto simp: vault_key_source_def vks_active_key_def source_ok_def)
  show "ks_key ?ks i k = (Ok d, k') \<Longrightarrow> dek i = Some d" "ks_key ?ks i k = (rk', k') \<Longrightarrow> source_ok good dek ikey k'"
    using vks_key_ok [OF ok, of x timeout i] by (auto simp: vault_key_source_def)
  show "ks_index_key ?ks nm k = (Ok d, k') \<Longrightarrow> ikey nm = Some d" "ks_index_key ?ks nm k = (rk', k') \<Longrightarrow> source_ok good dek ikey k'"
    using ixkey [of nm _ k'] by (auto simp: vault_key_source_def)
qed


section \<open>A data key outlives its process\<close>

lemma startup_call_Ok [simp]: "startup_call doing call v = (Ok a, v') \<longleftrightarrow> call v = (Ok a, v')"
  by (auto simp: startup_call_def split: prod.splits)

lemma draw_Ok [simp]:
  "(case ve_draw env n v of (b, v') \<Rightarrow> (ok_or b e, v')) = (Ok c, u) \<longleftrightarrow> ve_draw env n v = (Some c, u)"
  by (auto simp: ok_or_eq_Ok split: prod.splits)

text \<open>
  What \<open>connect\<close> relies on: Transit unwraps what it wrapped, and a stored secret is what later reads
  of it return.
\<close>

locale transit_laws =
  fixes cl :: "'v vault_client"
    and secret :: "'v \<Rightarrow> rstr \<Rightarrow> rstr \<rightharpoonup> rstr"
    and unwrap :: "rstr \<rightharpoonup> rstr"
  assumes set_secret: "vl_set_wrapped cl mount path w v = (Ok (), v') \<Longrightarrow> secret v' mount path = Some w"
    and read_secret: "vl_read_wrapped cl mount path v = (Ok w, v') \<Longrightarrow> secret v mount path = Some w"
    and read_absent: "vl_read_wrapped cl mount path v = (Err (ClientErr e), v') \<Longrightarrow> is_not_found e \<Longrightarrow> secret v mount path = None"
    and decrypt_unwraps: "vl_decrypt cl tm tk w v = (Ok p, v') \<Longrightarrow> unwrap w = Some p"
    and data_key_wraps: "vl_data_key cl tm tk v = (Ok (Some p, w), v') \<Longrightarrow> unwrap w = Some p"
begin

lemma fetch_stored:
  assumes "secret v (vc_mount c) (dek_path x c i) = Some w" and "unwrap w = Some p" and "decode_key_b64 unb p = Ok k"
    and f: "store_fetch_dek x unb c cl i v = (Ok r, v')"
  shows "r = Some k"
proof -
  let ?read = "vl_read_wrapped cl (vc_mount c) (dek_path x c i)"
  from f obtain a u where a: "answered (bs ''reading wrapped DEK '' @ x_hex_encode x i) absent Some ?read v = (Ok a, u)"
    and rest: "(case a of None \<Rightarrow> comp_ret None | Some w \<Rightarrow>
           comp_bind (answered (bs ''transit unwrap of DEK '' @ x_hex_encode x i) (\<lambda>_. None) id
               (vl_decrypt cl (vc_transit_mount c) (vc_transit_key c) w)) (\<lambda>plaintext.
             comp_of (map_err Failed (map_ok Some (decode_key_b64 unb plaintext))))) u = (Ok r, v')"
    unfolding store_fetch_dek_def comp_bind_eq_Ok by (elim exE conjE)
  have aw: "a = Some w"
  proof (cases "?read v")
    case (Pair q u')
    then show ?thesis
      using a assms(1) read_secret [of "vc_mount c" "dek_path x c i" v _ u'] read_absent [of "vc_mount c" "dek_path x c i" v _ u']
      by (auto simp: answered_def absent_def split: sum.splits client_failure.splits if_splits option.splits)
  qed
  have dec: "r = Some k" if "vl_decrypt cl (vc_transit_mount c) (vc_transit_key c) w u = (q, u')"
    "comp_bind (answered (bs ''transit unwrap of DEK '' @ x_hex_encode x i) (\<lambda>_. None) id
               (vl_decrypt cl (vc_transit_mount c) (vc_transit_key c) w)) (\<lambda>plaintext.
             comp_of (map_err Failed (map_ok Some (decode_key_b64 unb plaintext)))) u = (Ok r, v')" for q u'
    using that decrypt_unwraps [of "vc_transit_mount c" "vc_transit_key c" w u _ u'] assms(2,3)
    by (auto simp: comp_bind_eq_Ok answered_def res_simps split: sum.splits client_failure.splits)
  show ?thesis using rest aw dec by (cases "vl_decrypt cl (vc_transit_mount c) (vc_transit_key c) w u") auto
qed

lemma connect_fetch:
  assumes "connect x unb url env client_new skip su v = (Ok (cl, i, k), v')"
    and "secret u (vc_mount (su_config su)) (dek_path x (su_config su) i) = secret v' (vc_mount (su_config su)) (dek_path x (su_config su) i)"
    and "store_fetch_dek x unb (su_config su) cl i u = (Ok r, u')"
  shows "r = Some k"
proof -
  let ?c = "su_config su"
  from assms(1) obtain w p v1 v2 v3 where
    dk: "vl_data_key cl (vc_transit_mount ?c) (vc_transit_key ?c) v1 = (Ok (Some p, w), v2)" and k: "decode_key_b64 unb p = Ok k"
    and st: "vl_set_wrapped cl (vc_mount ?c) (dek_path x ?c i) w v3 = (Ok (), v')"
    unfolding connect_def Let_def comp_bind_eq_Ok by (auto simp: comp_bind_eq_Ok ok_or_eq_Ok split: prod.splits)
  show ?thesis
    by (rule fetch_stored [OF _ data_key_wraps [OF dk] k assms(3)]) (use set_secret [OF st] assms(2) in simp)
qed

end


section \<open>A KV server in maps\<close>

record kv_server =
  kv_records :: "rstr \<times> rstr \<rightharpoonup> index_key_record"
  kv_shared :: "rstr \<times> rstr \<rightharpoonup> legacy_index_keys"
  kv_wrapped :: "rstr \<times> rstr \<rightharpoonup> rstr"
  kv_writable :: bool
  kv_clock :: nat
  kv_draws :: nat

definition kv_lookup :: "'a option \<Rightarrow> client_failure + 'a" where
  "kv_lookup s = ok_or s (ClientErr (APIError 404 []))"

definition kv_denied :: client_failure where
  "kv_denied = ClientErr (APIError 403 [bs ''permission denied''])"

definition kv_wrap :: "rstr \<Rightarrow> rstr" where
  "kv_wrap p = bs ''vault:v1:'' @ p"

definition kv_unwrap :: "rstr \<rightharpoonup> rstr" where
  "kv_unwrap w = strip_prefix (bs ''vault:v1:'') w"

definition kv_client :: "kv_server vault_client" where
  "kv_client =
     \<lparr>vl_read_record = (\<lambda>m p v. (kv_lookup (kv_records v (m, p)), v)),
      vl_create_record = (\<lambda>m p r v.
        if \<not> kv_writable v then (Err kv_denied, v)
        else if kv_records v (m, p) \<noteq> None
        then (Err (ClientErr (APIError 400 [bs ''check-and-set parameter did not match the current version''])), v)
        else (Ok (), v\<lparr>kv_records := (kv_records v)((m, p) \<mapsto> r)\<rparr>)),
      vl_read_legacy = (\<lambda>m p v. (kv_lookup (kv_shared v (m, p)), v)),
      vl_read_wrapped = (\<lambda>m p v. (kv_lookup (kv_wrapped v (m, p)), v)),
      vl_set_wrapped = (\<lambda>m p w v. if kv_writable v then (Ok (), v\<lparr>kv_wrapped := (kv_wrapped v)((m, p) \<mapsto> w)\<rparr>) else (Err kv_denied, v)),
      vl_decrypt = (\<lambda>m key w v. (ok_or (kv_unwrap w) (ClientErr (APIError 400 [])), v)),
      vl_data_key = (\<lambda>m key v. (Ok (Some (replicate 32 (of_nat (kv_draws v))), kv_wrap (replicate 32 (of_nat (kv_draws v)))),
        v\<lparr>kv_draws := kv_draws v + 1\<rparr>)),
      vl_lookup_self = (\<lambda>v. (Ok (3600, True), v)),
      vl_renew_self = (\<lambda>v. (Ok (3600, True), v))\<rparr>"

definition kv_env :: "kv_server vault_env" where
  "kv_env = \<lparr>ve_clock = kv_clock, ve_draw = (\<lambda>n v. (Some (replicate n (of_nat (kv_draws v))), v\<lparr>kv_draws := kv_draws v + 1\<rparr>)),
     ve_multi_thread = True\<rparr>"

definition kv_stored :: "vault_config \<Rightarrow> kv_server \<Rightarrow> rstr \<rightharpoonup> index_key_record" where
  "kv_stored c v name = (case index_key_path c name of Ok p \<Rightarrow> kv_records v (vc_mount c, p) | Err _ \<Rightarrow> None)"

definition kv_legacy :: "vault_config \<Rightarrow> (rstr \<times> rstr \<rightharpoonup> legacy_index_keys) \<Rightarrow> rstr \<rightharpoonup> rstr" where
  "kv_legacy c S = (case S (vc_mount c, legacy_index_keys_path c) of None \<Rightarrow> Map.empty | Some m \<Rightarrow> m)"

definition kv_dek :: "externs \<Rightarrow> (rstr \<Rightarrow> bytes option) \<Rightarrow> vault_config \<Rightarrow> (rstr \<times> rstr \<rightharpoonup> rstr) \<Rightarrow> key_id \<rightharpoonup> key" where
  "kv_dek x unb c Wr i =
     (case Wr (vc_mount c, dek_path x c i) of
        None \<Rightarrow> None
      | Some w \<Rightarrow> (case kv_unwrap w of
          None \<Rightarrow> None
        | Some p \<Rightarrow> (case decode_key_b64 unb p of Ok d \<Rightarrow> Some d | Err _ \<Rightarrow> None)))"

lemma kv_conflict [simp]:
  "is_cas_conflict (APIError 400 [bs ''check-and-set parameter did not match the current version''])"
  "\<not> is_cas_conflict (APIError 403 es)"
  by code_simp (simp add: is_cas_conflict_def)

lemma kv_lookup_eq [simp]:
  "kv_lookup s = Ok a \<longleftrightarrow> s = Some a" "kv_lookup s = Err e \<longleftrightarrow> s = None \<and> e = ClientErr (APIError 404 [])"
  by (cases s; auto simp: kv_lookup_def)+

lemma index_key_path_inject: "index_key_path c n = Ok p \<Longrightarrow> index_key_path c n' = Ok p \<Longrightarrow> n = n'"
  by (auto simp: index_key_path_def split: if_splits)

lemma kv_answered_lookup:
  assumes "answered doing absent Some (\<lambda>v. (kv_lookup (f v), v)) v = (r, v')"
  shows "v' = v \<and> r = Ok (f v)"
  using assms by (cases "f v") (auto simp: answered_def absent_def is_not_found_def kv_lookup_def)

lemma kv_read:
  assumes "store_read_index_key c kv_client name v = (r, v')"
  shows "v' = v \<and> (\<forall>a. r = Ok a \<longrightarrow> a = kv_stored c v name)"
proof (cases "index_key_path c name")
  case (Inr p)
  then show ?thesis
    using kv_answered_lookup [of "bs ''reading index key '' @ name" "\<lambda>v. kv_records v (vc_mount c, p)" v r v'] assms
    by (auto simp: store_read_index_key_def kv_client_def kv_stored_def comp_bind_def)
qed (use assms in \<open>auto simp: store_read_index_key_def comp_bind_def\<close>)

lemma kv_create:
  assumes "store_create_index_key c kv_client name rec v = (r, v')"
  shows "kv_shared v' = kv_shared v \<and> kv_wrapped v' = kv_wrapped v \<and> kv_writable v' = kv_writable v
    \<and> (r = Ok True \<longrightarrow> kv_writable v \<and> kv_stored c v name = None \<and> kv_stored c v' = (kv_stored c v)(name \<mapsto> rec))
    \<and> (r = Ok False \<longrightarrow> kv_stored c v name \<noteq> None) \<and> (r \<noteq> Ok True \<longrightarrow> v' = v)"
proof (cases "index_key_path c name")
  case (Inl e)
  then have "store_create_index_key c kv_client name rec v = (Err (Failed e), v)"
    by (simp add: store_create_index_key_def comp_bind_def)
  then have "r = Err (Failed e)" "v' = v" using assms by simp_all
  then show ?thesis by simp
next
  case (Inr p)
  let ?v = "v\<lparr>kv_records := (kv_records v)((vc_mount c, p) \<mapsto> rec)\<rparr>"
  let ?r = "if \<not> kv_writable v then (Err (Failed (KeyBackend (bs ''storing index key '' @ name))), v)
    else if kv_records v (vc_mount c, p) \<noteq> None then (Ok False, v) else (Ok True, ?v)"
  have run: "(r, v') = ?r"
    unfolding assms [symmetric]
    by (simp add: store_create_index_key_def comp_bind_def Inr answered_def kv_client_def kv_denied_def)
  have at: "kv_stored c v name = kv_records v (vc_mount c, p)" by (simp add: kv_stored_def Inr)
  have "kv_stored c ?v n = ((kv_stored c v)(name \<mapsto> rec)) n" for n
  proof (cases "n = name")
    case True
    then show ?thesis by (simp add: kv_stored_def Inr)
  next
    case False
    then have "index_key_path c n \<noteq> Ok p" using index_key_path_inject [OF _ Inr] by blast
    then show ?thesis using False by (auto simp: kv_stored_def split: sum.splits)
  qed
  then have upd: "kv_stored c ?v = (kv_stored c v)(name \<mapsto> rec)" by (rule ext)
  consider "\<not> kv_writable v" | "kv_writable v" "kv_records v (vc_mount c, p) \<noteq> None" | "kv_writable v" "kv_records v (vc_mount c, p) = None"
    by blast
  then show ?thesis
  proof cases
    case 3
    then have "r = Ok True" "v' = ?v" using run by simp_all
    then show ?thesis using 3 at upd by simp
  qed (use run at in simp_all)
qed

lemma kv_read_legacy:
  assumes "store_read_legacy c kv_client v = (r, v')"
  shows "v' = v \<and> (\<forall>m. r = Ok m \<longrightarrow> (case m of None \<Rightarrow> Map.empty | Some m \<Rightarrow> m) = kv_legacy c (kv_shared v))"
  using kv_answered_lookup [of "bs ''reading '' @ legacy_index_keys_path c" "\<lambda>v. kv_shared v (vc_mount c, legacy_index_keys_path c)" v r v'] assms
  by (auto simp: store_read_legacy_def kv_client_def kv_legacy_def)

lemma kv_fetch:
  assumes "store_fetch_dek x unb c kv_client i v = (r, v')"
  shows "v' = v \<and> (\<forall>d. r = Ok (Some d) \<longrightarrow> kv_dek x unb c (kv_wrapped v) i = Some d)"
proof -
  let ?w = "kv_wrapped v (vc_mount c, dek_path x c i)"
  have "answered (bs ''reading wrapped DEK '' @ x_hex_encode x i) absent Some (vl_read_wrapped kv_client (vc_mount c) (dek_path x c i)) v
      = (Ok ?w, v)"
    by (cases ?w) (auto simp: kv_client_def answered_def absent_def is_not_found_def kv_lookup_def)
  note read = this
  show ?thesis
  proof (cases ?w)
    case None
    then show ?thesis using assms read by (auto simp: store_fetch_dek_def comp_bind_def)
  next
    case (Some w)
    have dec: "answered (bs ''transit unwrap of DEK '' @ x_hex_encode x i) (\<lambda>_. None) id
        (vl_decrypt kv_client (vc_transit_mount c) (vc_transit_key c) w) v =
        (ok_or (kv_unwrap w) (Failed (KeyBackend (bs ''transit unwrap of DEK '' @ x_hex_encode x i))), v)"
      by (cases "kv_unwrap w") (simp_all add: kv_client_def answered_def)
    show ?thesis
      using assms read Some dec
      by (cases "kv_unwrap w"; cases "decode_key_b64 unb (the (kv_unwrap w))")
        (auto simp: store_fetch_dek_def comp_bind_def kv_dek_def)
  qed
qed

lemma vault_store_simps [simp]:
  "kst_read_index_key (vault_store x unb c cl) = store_read_index_key c cl"
  "kst_create_index_key (vault_store x unb c cl) = store_create_index_key c cl"
  "kst_read_legacy (vault_store x unb c cl) = store_read_legacy c cl"
  "kst_fetch_dek (vault_store x unb c cl) = store_fetch_dek x unb c cl"
  by (simp_all add: vault_store_def)

lemma kv_draw: "ve_draw kv_env n v = (b, v') \<Longrightarrow> v' = v\<lparr>kv_draws := kv_draws v + 1\<rparr> \<and> (\<forall>c. b = Some c \<longrightarrow> length c = n)"
  by (auto simp: kv_env_def)

lemma kv_stored_draws [simp]: "kv_stored c (v\<lparr>kv_draws := n\<rparr>) = kv_stored c v"
  by (auto simp: kv_stored_def fun_eq_iff split: sum.splits)

interpretation kv: key_store_laws "vault_store x unb c kv_client" kv_env "\<lambda>v. kv_shared v = S \<and> kv_wrapped v = Wr"
    "kv_stored c" "kv_legacy c S" "kv_dek x unb c Wr" for x unb c S Wr
proof (unfold_locales, unfold vault_store_simps, goal_cases)
  case (1 v name r v')
  then show ?case using kv_read [OF 1(2)] by simp
next
  case (2 v name r' v')
  then show ?case using kv_read [OF 2(2)] by simp
next
  case (3 v name rec v')
  then show ?case using kv_create [OF 3(2)] by simp
next
  case (4 v name rec v')
  then show ?case using kv_create [OF 4(2)] by simp
next
  case (5 v name rec e v')
  then show ?case using kv_create [OF 5(2)] by simp
next
  case (6 v l v')
  then show ?case using kv_read_legacy [OF 6(2)] by simp
next
  case (7 v m v')
  then show ?case using kv_read_legacy [OF 7(2)] by (simp add: kv_legacy_def)
next
  case (8 v i f v')
  then show ?case using kv_fetch [OF 8(2)] by simp
next
  case (9 v i d v')
  then show ?case using kv_fetch [OF 9(2)] by simp
next
  case (10 v n b v')
  then show ?case using kv_draw [OF 10(2)] by simp
next
  case (11 n v b v')
  then show ?case using kv_draw [OF 11] by simp
qed

definition kv_ikey :: "externs \<Rightarrow> vault_config \<Rightarrow> (rstr \<times> rstr \<rightharpoonup> index_key_record) \<Rightarrow> rstr \<rightharpoonup> key" where
  "kv_ikey x c Rs name =
     (case index_key_path c name of
        Ok p \<Rightarrow> (case Rs (vc_mount c, p) of Some r \<Rightarrow> (case current_key x r of Ok k \<Rightarrow> Some k | Err _ \<Rightarrow> None) | None \<Rightarrow> None)
      | Err _ \<Rightarrow> None)"

lemma kv_ikey_stored:
  "kv_records v = Rs \<Longrightarrow> kv_stored c v name = Some rec \<Longrightarrow> current_key x rec = Ok k \<Longrightarrow> kv_ikey x c Rs name = Some k"
  by (auto simp: kv_stored_def kv_ikey_def split: sum.splits)

interpretation kv_ro: provisioned_store "vault_store x unb c kv_client" kv_env
    "\<lambda>v. kv_shared v = Map.empty \<and> kv_wrapped v = Wr \<and> kv_records v = Rs \<and> \<not> kv_writable v"
    "kv_stored c" "Map.empty" "kv_dek x unb c Wr" x "kv_ikey x c Rs" for x unb c Wr Rs
proof (unfold_locales, unfold vault_store_simps, goal_cases)
  case (1 v name r v')
  then show ?case using kv_read [OF 1(2)] by simp
next
  case (2 v name r' v')
  then show ?case using kv_read [OF 2(2)] by simp
next
  case (3 v name rec v')
  then show ?case using kv_create [OF 3(2)] by simp
next
  case (4 v name rec v')
  then show ?case using kv_create [OF 4(2)] by simp
next
  case (5 v name rec e v')
  then show ?case using kv_create [OF 5(2)] by simp
next
  case (6 v l v')
  then show ?case using kv_read_legacy [OF 6(2)] by simp
next
  case (7 v m v')
  then show ?case using kv_read_legacy [OF 7(2)] by (simp add: kv_legacy_def)
next
  case (8 v i f v')
  then show ?case using kv_fetch [OF 8(2)] by simp
next
  case (9 v i d v')
  then show ?case using kv_fetch [OF 9(2)] by simp
next
  case (10 v n b v')
  then show ?case using kv_draw [OF 10(2)] by simp
next
  case (11 n v b v')
  then show ?case using kv_draw [OF 11] by simp
next
  case (12 v name rec q v')
  then show ?case using kv_create [OF 12(3)] by (cases "q = Ok True") simp_all
next
  case (13 v name rec k)
  then show ?case using kv_ikey_stored by blast
next
  case (14 name h k)
  then show ?case by simp
qed

interpretation kv_transit: transit_laws kv_client "\<lambda>v m p. kv_wrapped v (m, p)" kv_unwrap
  by unfold_locales
    (auto simp: kv_client_def kv_denied_def kv_wrap_def kv_unwrap_def strip_prefix_def ok_or_eq_Ok split: if_splits)


section \<open>Properties\<close>

text \<open>
  C24. Every process uses the same deterministic keys. Let any number of processes resolve index keys
  through one server, their store calls interleaved in any order, some of them failing or being cut
  off at any point and starting again. Two that resolved the same name hold the same key, it is the
  key of the record the server now has for the name, and no record that was there has been replaced.
\<close>

theorem index_keys_agree:
  assumes "key_store_laws st env good stored legacy dek" and "hex_encode_ok x" and "hex_decode_ok x"
    and "good v\<^sub>0" and "consistent x legacy (stored v\<^sub>0)" and "resolving x env st nm v\<^sub>0 v ph"
    and "ph i = Resolved k" and "ph j = Resolved k'" and "nm i = nm j"
  shows "k = k' \<and> (\<exists>r. stored v (nm i) = Some r \<and> current_key x r = Ok k) \<and> stored v\<^sub>0 \<subseteq>\<^sub>m stored v"
proof -
  have inv: "stored v\<^sub>0 \<subseteq>\<^sub>m stored v" "\<And>i. phase_ok x legacy (stored v) (nm i) (ph i)"
    using key_store_laws.resolving_ok [OF assms(1,6,2-5)] by blast+
  show ?thesis using inv(2) [of i] inv(2) [of j] inv(1) assms(7-9) by (auto simp: phase_ok_def)
qed

definition sample_vault :: vault_config where
  "sample_vault = vault_config_default\<lparr>vc_addr := bs ''https://v'', vc_token := Some [116]\<rparr>"

definition sample_kv :: kv_server where
  "sample_kv = \<lparr>kv_records = Map.empty, kv_shared = Map.empty, kv_wrapped = Map.empty, kv_writable = True, kv_clock = 0, kv_draws = 7\<rparr>"

lemma sample_index_path: "index_key_path sample_vault [97] = Ok (bs ''dbsec/index_keys/a'')"
  by code_simp

lemma kv_steps:
  fixes x unb and c :: vault_config
  defines "st \<equiv> vault_store x unb c kv_client"
  assumes p: "index_key_path c name = Ok p"
  shows "kv_records v (vc_mount c, p) = None \<Longrightarrow> index_step x kv_env st name ReadRecord v = (ReadLegacy, v)"
    and "kv_shared v (vc_mount c, legacy_index_keys_path c) = None \<Longrightarrow>
       index_step x kv_env st name ReadLegacy v = (Mint (replicate 32 (of_nat (kv_draws v))), v\<lparr>kv_draws := kv_draws v + 1\<rparr>)"
    and "kv_records v (vc_mount c, p) = None \<Longrightarrow> kv_writable v \<Longrightarrow> index_step x kv_env st name (Mint k) v
       = (Resolved k, v\<lparr>kv_records := (kv_records v)((vc_mount c, p) \<mapsto> record_first (x_hex_encode x k))\<rparr>)"
    and "kv_records v (vc_mount c, p) \<noteq> None \<Longrightarrow> kv_writable v \<Longrightarrow> index_step x kv_env st name (Mint k) v = (Reread, v)"
    and "kv_records v (vc_mount c, p) = Some r \<Longrightarrow> index_step x kv_env st name Reread v = (outcome (map_err Failed (current_key x r)), v)"
  unfolding st_def
  by (auto simp: store_read_index_key_def store_create_index_key_def store_read_legacy_def comp_bind_def p answered_def absent_def is_not_found_def
      kv_client_def kv_lookup_def draw_bytes_def kv_env_def)

lemma advance_to:
  "resolving x env st nm v\<^sub>0 v ph \<Longrightarrow> ph i = q \<Longrightarrow> index_step x env st (nm i) q v = (p, v') \<Longrightarrow> ph' = ph(i := p) \<Longrightarrow>
     resolving x env st nm v\<^sub>0 v' ph'"
  using resolving.advance [of x env st nm v\<^sub>0 v ph i p v'] by simp

lemma draws_to: "r = (p, v) \<Longrightarrow> p = p' \<Longrightarrow> v = v' \<Longrightarrow> r = (p', v')"
  by simp

theorem index_keys_agree_witness:
  "\<exists>v ph k r. resolving sample kv_env (vault_store sample Some sample_vault kv_client) (\<lambda>_. [97]) sample_kv v ph
    \<and> ph 0 = Resolved k \<and> ph 1 = Resolved k \<and> kv_stored sample_vault v [97] = Some r \<and> current_key sample r = Ok k"
proof -
  let ?st = "vault_store sample Some sample_vault kv_client"
  let ?k0 = "replicate 32 (of_nat 7) :: key" let ?k1 = "replicate 32 (of_nat 8) :: key"
  let ?rec = "record_first (x_hex_encode sample ?k0)"
  let ?at = "(vc_mount sample_vault, bs ''dbsec/index_keys/a'')"
  let ?v2 = "sample_kv\<lparr>kv_draws := 9\<rparr>" let ?v = "?v2\<lparr>kv_records := [?at \<mapsto> ?rec]\<rparr>"
  let ?run = "resolving sample kv_env ?st (\<lambda>_. [97]) sample_kv"
  note steps = kv_steps [OF sample_index_path, where x = sample and unb = Some]
  have cur: "current_key sample ?rec = Ok ?k0" by (rule current_key_first [OF sample_hex_encode_ok sample_hex_decode_ok]) simp
  have "?run sample_kv (\<lambda>_. ReadRecord)" by (rule resolving.start)
  then have "?run sample_kv ((\<lambda>_. ReadRecord)(0 := ReadLegacy))"
    by (rule advance_to [where i = 0, OF _ _ steps(1)]) (auto simp: sample_kv_def)
  then have "?run sample_kv ((\<lambda>_. ReadRecord)(0 := ReadLegacy, 1 := ReadLegacy))"
    by (rule advance_to [where i = 1, OF _ _ steps(1)]) (auto simp: sample_kv_def)
  then have "?run (sample_kv\<lparr>kv_draws := 8\<rparr>) ((\<lambda>_. ReadRecord)(0 := Mint ?k0, 1 := ReadLegacy))"
    by (rule advance_to [where i = 0, OF _ _ steps(2) [THEN draws_to]]) (auto simp: sample_kv_def)
  then have "?run ?v2 ((\<lambda>_. ReadRecord)(0 := Mint ?k0, 1 := Mint ?k1))"
    by (rule advance_to [where i = 1, OF _ _ steps(2) [THEN draws_to]]) (auto simp: sample_kv_def)
  then have "?run ?v ((\<lambda>_. ReadRecord)(0 := Resolved ?k0, 1 := Mint ?k1))"
    by (rule advance_to [where i = 0, OF _ _ steps(3) [THEN draws_to]]) (auto simp: sample_kv_def)
  then have "?run ?v ((\<lambda>_. ReadRecord)(0 := Resolved ?k0, 1 := Reread))"
    by (rule advance_to [where i = 1, OF _ _ steps(4)]) (auto simp: sample_kv_def)
  then have run: "?run ?v ((\<lambda>_. ReadRecord)(0 := Resolved ?k0, 1 := Resolved ?k0))"
    by (rule advance_to [where i = 1, OF _ _ steps(5) [of _ ?rec, THEN draws_to]]) (auto simp: sample_kv_def cur [simplified])
  have "consistent sample (kv_legacy sample_vault Map.empty) (kv_stored sample_vault sample_kv)"
    by (simp add: consistent_def kv_legacy_def)
  with index_keys_agree [OF kv.key_store_laws_axioms [where S = Map.empty and Wr = Map.empty and x = sample and unb = Some and c = sample_vault]
      sample_hex_encode_ok sample_hex_decode_ok _ _ run, of 0 ?k0 1 ?k0]
  obtain r where r: "kv_stored sample_vault ?v [97] = Some r" "current_key sample r = Ok ?k0" by (auto simp: sample_kv_def)
  show ?thesis
  proof (intro exI conjI)
    show "?run ?v ((\<lambda>_. ReadRecord)(0 := Resolved ?k0, 1 := Resolved ?k0))" by (rule run)
  qed (use r in simp_all)
qed

text \<open>
  C25. Resolving an index key ends: whatever the server answers, it is over after at most four store
  calls, in the state and with the key or the error the process has then. There is no loop that a
  server losing the creation race again and again could keep going.
\<close>

theorem resolve_ends_after_four_calls:
  "index_run x env st name 4 (ReadRecord, v) =
     (outcome (fst (resolve_index_key x env st name v)), snd (resolve_index_key x env st name v))"
  by (rule resolve_runs) simp

lemma remember_missing_length: "length (vs_missing (remember_missing env i s)) \<le> MISSING_DEK_CACHE_MAX"
proof -
  have up: "length (AList.update i n al) \<le> Suc (length al)" for n :: nat and al :: "(key_id \<times> nat) list"
    by (induction al) auto
  show ?thesis unfolding remember_missing_def Let_def using up by (fastforce simp: MISSING_DEK_CACHE_MAX_def intro: le_trans [OF up])
qed

lemma remember_missing_server [simp]: "vs_server (remember_missing env i s) = vs_server s"
  by (simp add: remember_missing_def Let_def)

text \<open>
  C26. What the process remembers about missing data-encryption keys is bounded and only ever a
  server's answer: the cache never exceeds its maximum, and a lookup changes it only when the server
  was asked and said that it holds no such key; a failure or a timeout is never remembered as absence.
\<close>

theorem missing_keys_bounded:
  assumes "length (vs_missing s) \<le> MISSING_DEK_CACHE_MAX" and "vks_key x env timeout st i s = (r, s')"
  shows "length (vs_missing s') \<le> MISSING_DEK_CACHE_MAX
    \<and> (vs_missing s' \<noteq> vs_missing s \<longrightarrow> r = Err (UnknownKey (x_hex_encode x i)) \<and> kst_fetch_dek st i (vs_server s) = (Ok None, vs_server s'))"
proof (cases "vs_deks s i \<noteq> None \<or> recently_missing env i s")
  case True
  then show ?thesis using assms by (auto simp: vks_key_def split: option.splits if_splits)
next
  case False
  with assms(2) have "comp_bind (block_on env timeout (bs ''fetching DEK'') (kst_fetch_dek st i)) (\<lambda>fetched s.
      case fetched of None \<Rightarrow> (Err (UnknownKey (x_hex_encode x i)), remember_missing env i s)
        | Some key \<Rightarrow> (Ok key, s\<lparr>vs_deks := (vs_deks s)(i \<mapsto> key)\<rparr>)) s = (r, s')" by (simp add: vks_key_def)
  then show ?thesis
  proof (cases rule: comp_bindE)
    case (ok a u)
    from ok(1) show ?thesis
    proof (cases rule: block_on_cases)
      case (ran q v)
      have q: "q = Ok a" "u = s\<lparr>vs_server := v\<rparr>" using ran(3) [of a] ran(2) by simp_all
      show ?thesis
      proof (cases a)
        case None
        with ok(2) have "r = Err (UnknownKey (x_hex_encode x i))" "s' = remember_missing env i u" by simp_all
        then show ?thesis using ran(1) q None remember_missing_length [of env i u] by simp
      next
        case (Some d)
        with ok(2) show ?thesis using q assms(1) by auto
      qed
    qed (use ok in simp)
  next
    case (err e)
    from err(1) have "vs_missing s' = vs_missing s" by (cases rule: block_on_cases) simp_all
    then show ?thesis using assms(1) by simp
  qed
qed

definition sample_source :: "kv_server vault_source" where
  "sample_source = vault_source_new sample_kv (replicate 16 1, replicate 32 2)"

theorem missing_keys_bounded_witness:
  "length (vs_missing sample_source) \<le> MISSING_DEK_CACHE_MAX
    \<and> length (vs_missing (snd (vks_key sample kv_env 5 (vault_store sample Some sample_vault kv_client) (replicate 16 3) sample_source)))
      \<le> MISSING_DEK_CACHE_MAX"
proof -
  let ?k = "vks_key sample kv_env 5 (vault_store sample Some sample_vault kv_client) (replicate 16 3) sample_source"
  have "length (vs_missing sample_source) \<le> MISSING_DEK_CACHE_MAX" by (simp add: sample_source_def vault_source_new_def)
  with missing_keys_bounded [of sample_source sample kv_env 5 _ _ "fst ?k" "snd ?k"] show ?thesis by simp
qed

text \<open>
  C27. A source only starts from a key its server can give back: when connecting succeeds, the fresh
  data-encryption key has already been stored wrapped under its key id, so as long as that secret stays,
  any process that fetches the id and gets an answer gets exactly the key this one encrypts with.
\<close>

theorem connected_key_recoverable:
  assumes "connect x unb url env client_new skip su v = (Ok (cl, i, k), v')" and "transit_laws cl secret unwrap"
    and "secret u (vc_mount (su_config su)) (dek_path x (su_config su) i) = secret v' (vc_mount (su_config su)) (dek_path x (su_config su) i)"
    and "store_fetch_dek x unb (su_config su) cl i u = (Ok r, u')"
  shows "r = Some k"
  using transit_laws.connect_fetch [OF assms(2,1,3,4)] .

theorem connected_key_recoverable_witness:
  "\<exists>cl i k v' r u'. connect sample Some Some kv_env (\<lambda>_. Some kv_client) None \<lparr>su_config = sample_vault, su_token = [116]\<rparr> sample_kv = (Ok (cl, i, k), v')
    \<and> store_fetch_dek sample Some sample_vault cl i v' = (Ok r, u') \<and> r = Some k"
proof -
  let ?su = "\<lparr>su_config = sample_vault, su_token = [116]\<rparr> :: vault_setup"
  let ?k = "replicate 32 7 :: key" let ?i = "replicate 16 8 :: key_id"
  let ?v = "sample_kv\<lparr>kv_draws := 9, kv_wrapped := [(vc_mount sample_vault, dek_path sample sample_vault ?i) \<mapsto> kv_wrap ?k]\<rparr>"
  have c: "connect sample Some Some kv_env (\<lambda>_. Some kv_client) None ?su sample_kv = (Ok (kv_client, ?i, ?k), ?v)"
    by (simp add: connect_def client_settings_of_def startup_call_def comp_bind_def kv_client_def kv_env_def sample_kv_def decode_key_b64_def)
  have f: "store_fetch_dek sample Some sample_vault kv_client ?i ?v = (Ok (Some ?k), ?v)"
    by (simp add: store_fetch_dek_def answered_def comp_bind_def kv_client_def kv_lookup_def decode_key_b64_def kv_wrap_def kv_unwrap_def strip_prefix_def)
  show ?thesis using c f connected_key_recoverable [OF c kv_transit.transit_laws_axioms refl, simplified, OF f] by fastforce
qed

text \<open>
  The caches never answer with anything but the server's keys: as long as every cached key is one
  the server unwraps for that id, a lookup returns only such keys and leaves such a cache, whether it
  hits the cache, asks the server, fails or times out.
\<close>

lemma vault_serves_stored_keys:
  assumes "key_store_laws st env good stored legacy dek" and "source_ok good dek ikey s"
    and "vks_key x env timeout st i s = (r, s')"
  shows "source_ok good dek ikey s' \<and> (\<forall>d. r = Ok d \<longrightarrow> dek i = Some d)"
  by (rule key_store_laws.vks_key_ok [OF assms])

text \<open>
  No token travels in clear and none is ambiguous: a Vault configuration resolves exactly when its
  address is an https URL, or an http one explicitly allowed, its timeout is positive, and one of the
  two token sources is set; the resolved setup keeps the configuration as it was written.
\<close>

lemma vault_setup_requires:
  assumes "vault_resolve url_scheme mode contents c = Ok su"
  shows "su_config su = c \<and> 0 < vc_timeout_secs c
    \<and> (url_scheme (vc_addr c) = Some (bs ''https'') \<or> url_scheme (vc_addr c) = Some (bs ''http'') \<and> vc_allow_insecure_addr c)
    \<and> (vc_token c = None \<longleftrightarrow> vc_token_file c \<noteq> None)"
  using assms
  by (auto simp: vault_resolve_def validate_addr_def resolve_token_def res_simps split: if_splits option.splits)

text \<open>
  The watch over the token touches nothing but the server: the caches and the active key are as they
  were, and an expiring token is reported once per interval until the shutdown.
\<close>

lemma check_token_keeps:
  "check_token st s = (c, s') \<Longrightarrow> \<exists>v. s' = s\<lparr>vs_server := v\<rparr>"
  by (auto simp: check_token_def split: prod.splits sum.splits if_splits)

lemma token_watch_keeps:
  "token_watch st evs s = (ended, cs, s') \<Longrightarrow>
     (\<exists>v. s' = s\<lparr>vs_server := v\<rparr>) \<and> (ended \<longleftrightarrow> Shutdown \<in> set evs) \<and> length cs = length (takeWhile (\<lambda>e. e \<noteq> Shutdown) evs)"
proof (induction st evs s arbitrary: ended cs s' rule: token_watch.induct)
  case (1 st s)
  then show ?case by (auto intro: exI [of _ "vs_server s"])
next
  case (2 st evs s)
  then show ?case by (auto intro: exI [of _ "vs_server s"])
next
  case (3 st f evs s)
  obtain c u where c: "check_token st (s\<lparr>vs_server := f (vs_server s)\<rparr>) = (c, u)" by force
  obtain e' cs' t where t: "token_watch st evs u = (e', cs', t)" by (cases "token_watch st evs u") auto
  obtain v where "u = s\<lparr>vs_server := v\<rparr>" using check_token_keeps [OF c] by auto
  moreover have "(\<exists>v. t = u\<lparr>vs_server := v\<rparr>)" "e' \<longleftrightarrow> Shutdown \<in> set evs"
    "length cs' = length (takeWhile (\<lambda>e. e \<noteq> Shutdown) evs)" using "3.IH" [OF c [symmetric] t] by auto
  ultimately show ?case using 3(2) c t by auto
qed

end
