(* ===== verification/Ast.thy ===== *)
theory Ast
  imports Frame
begin

text \<open>
  The syntax trees the rewriter works on, and what it reads of single expressions
  (\<open>QueryRewriter::literal_agrees_with_server\<close>, \<open>placeholder_index\<close> and \<open>unwrap_casts\<close> of
  \<open>crates/proxy/src/encrypt/mod.rs\<close>, \<open>literal_plaintext\<close> and \<open>bytea_literal\<close> of \<open>encrypt/seal.rs\<close>).

  The trees are those of the \<open>sqlparser\<close> crate as far as the code takes them apart: every variant
  and field it matches on is there under its name, and everything else of a node is one opaque value
  of type \<open>'o\<close>, which the code carries along unchanged. Expressions, relations and statements are
  types over the queries \<open>'q\<close> nested in them; \<open>query\<close> closes the recursion.
\<close>

datatype binary_operator = OpEq | OpAnd | OpOr | OtherBinary rstr

datatype unary_operator = NotOp | MinusOp | PlusOp | OtherUnary rstr

datatype (plugins only: code size) (dead 'o) sql_value =
    Number rstr bool
  | SingleQuotedString rstr
  | EscapedStringLiteral rstr
  | UnicodeStringLiteral rstr
  | NationalStringLiteral rstr
  | DollarQuotedString rstr 'o
  | Null
  | Placeholder rstr
  | OtherValue 'o

datatype (plugins only: code size) (dead 'o, 'q) expr =
    Identifier ident
  | CompoundIdentifier "ident list"
  | ValueExpr "'o sql_value"
  | Nested "('o, 'q) expr"
  | Cast "('o, 'q) expr" 'o
  | UnaryOp unary_operator "('o, 'q) expr"
  | BinaryOp "('o, 'q) expr" binary_operator "('o, 'q) expr"
  | AnyOp "('o, 'q) expr" binary_operator "('o, 'q) expr" 'o
  | AllOp "('o, 'q) expr" binary_operator "('o, 'q) expr"
  | IsDistinctFrom "('o, 'q) expr" "('o, 'q) expr"
  | IsNotDistinctFrom "('o, 'q) expr" "('o, 'q) expr"
  | IsNull "('o, 'q) expr"
  | IsNotNull "('o, 'q) expr"
  | IsTrue "('o, 'q) expr"
  | IsNotTrue "('o, 'q) expr"
  | IsFalse "('o, 'q) expr"
  | IsNotFalse "('o, 'q) expr"
  | Collate "('o, 'q) expr" 'o
  | InList "('o, 'q) expr" "('o, 'q) expr list" bool
  | InSubquery "('o, 'q) expr" 'q bool
  | Subquery 'q
  | Exists 'q bool
  | Between "('o, 'q) expr" bool "('o, 'q) expr" "('o, 'q) expr"
  | Like "('o, 'q) expr" "('o, 'q) expr" 'o
  | ILike "('o, 'q) expr" "('o, 'q) expr" 'o
  | SimilarTo "('o, 'q) expr" "('o, 'q) expr" 'o
  | Tuple "('o, 'q) expr list"
  | CaseExpr "('o, 'q) expr option" "('o, 'q) expr list" "('o, 'q) expr list" "('o, 'q) expr option"
  | Function 'o "('o, 'q) expr list option"
  | ArrayExpr "('o, 'q) expr list" 'o
  | Substring "('o, 'q) expr" "('o, 'q) expr option" "('o, 'q) expr option" bool
  | TypedString 'o
  | OtherExpr 'o

text \<open>
  The arguments of a \<open>Function\<close> are those of an argument list that are expressions, in order; a
  call whose arguments are not a list has none.
\<close>

datatype (plugins only: code size) (dead 'o) join_kind =
    Inner | LeftOuter | RightOuter | FullOuter | Semi | LeftSemi | RightSemi | Anti | LeftAnti | RightAnti | AsOf 'o

datatype (plugins only: code size) (dead 'o, 'q) join_constraint =
    On "('o, 'q) expr"
  | Using "ident list"
  | Natural
  | NoConstraint

datatype (plugins only: code size) (dead 'o, 'q) join_operator =
    Constrained "'o join_kind" "('o, 'q) join_constraint"
  | CrossJoin
  | CrossApply
  | OuterApply

datatype (plugins only: code size) (dead 'o, 'q) table_factor =
    Table object_name "ident option" 'o
  | Derived 'q "ident option" 'o
  | NestedJoin "('o, 'q) table_with_joins" 'o
  | Pivot "('o, 'q) table_factor" 'o
  | Unpivot "('o, 'q) table_factor" 'o
  | MatchRecognize "('o, 'q) table_factor" 'o
  | OtherFactor 'o
and ('o, 'q) table_with_joins = TableWithJoins (relation: "('o, 'q) table_factor") (joins: "('o, 'q) join list")
and ('o, 'q) join = Join (join_relation: "('o, 'q) table_factor") (join_operator_of: "('o, 'q) join_operator") 'o

datatype (plugins only: code size) (dead 'o, 'q) select_item =
    UnnamedExpr "('o, 'q) expr"
  | ExprWithAlias "('o, 'q) expr" ident
  | QualifiedWildcard object_name 'o
  | Wildcard 'o

datatype (plugins only: code size) (dead 'o, 'q) select =
    Select (projection: "('o, 'q) select_item list") (sel_from: "('o, 'q) table_with_joins list") (selection: "('o, 'q) expr option")
      (having: "('o, 'q) expr option") (group_by: "('o, 'q) expr list option") 'o

datatype assignment_target = ColumnName object_name | TupleTarget "object_name list"

datatype (plugins only: code size) (dead 'o, 'q) assignment = Assignment (assigned: assignment_target) (assigned_value: "('o, 'q) expr")

datatype conflict_target = ConflictColumns "ident list" | OnConstraint object_name

datatype (plugins only: code size) (dead 'o, 'q) conflict_action =
    DoNothing
  | DoUpdate "('o, 'q) assignment list" "('o, 'q) expr option"

datatype (plugins only: code size) (dead 'o, 'q) on_insert =
    OnConflict "conflict_target option" "('o, 'q) conflict_action"
  | DuplicateKeyUpdate "('o, 'q) assignment list"
  | OtherOnInsert 'o

datatype (plugins only: code size) (dead 'o, 'q) from_table =
    WithFromKeyword "('o, 'q) table_with_joins list"
  | WithoutKeyword "('o, 'q) table_with_joins list"

datatype (plugins only: code size) (dead 'o, 'q) copy_source =
    CopyTable object_name 'o
  | CopyRows 'q

datatype (plugins only: code size) (dead 'o, 'q) statement =
    Insert object_name "ident option" "ident list" "'q option" "('o, 'q) on_insert option" 'o
  | Update "('o, 'q) table_with_joins" "('o, 'q) assignment list" "('o, 'q) table_with_joins option" "('o, 'q) expr option" 'o
  | QueryStatement 'q
  | Delete "('o, 'q) from_table" "('o, 'q) table_with_joins list option" "('o, 'q) expr option" 'o
  | CopyStatement "('o, 'q) copy_source" bool 'o
  | Merge "('o, 'q) table_factor" 'o
  | Prepare "('o, 'q) statement" 'o
  | OtherStatement 'o

datatype (plugins only: code size) (dead 'o, 'q) set_expr =
    SelectExpr "('o, 'q) select"
  | QueryExpr 'q
  | SetOperation "('o, 'q) set_expr" "('o, 'q) set_expr" 'o
  | InsertExpr "('o, 'q) statement"
  | UpdateExpr "('o, 'q) statement"
  | Values "('o, 'q) expr list list" 'o
  | TableExpr "rstr option" "rstr option"

text \<open>A query: the bodies of its common table expressions, its body and its sort expressions.\<close>

datatype (plugins only: code size) (dead 'o) query =
    Query (ctes: "'o query list") (body: "('o, 'o query) set_expr") (order_by: "('o, 'o query) expr list") (query_rest: 'o)


section \<open>Values and literals\<close>

text \<open>\<open>str::parse::<usize>\<close>: an optional plus, then decimal digits, within 64 bits.\<close>

definition parse_usize :: "rstr \<Rightarrow> nat option" where
  "parse_usize s =
     (case utf8_decode s of
        None \<Rightarrow> None
      | Some cs \<Rightarrow> if cs \<noteq> [] \<and> hd cs = 45 then None else map_option nat (parse_int 0 (2 ^ 64 - 1) cs))"

definition placeholder_index :: "rstr \<Rightarrow> nat option" where
  "placeholder_index placeholder =
     (case strip_prefix (bs ''$'') placeholder of
        None \<Rightarrow> None
      | Some n \<Rightarrow>
          (case parse_usize n of
             None \<Rightarrow> None
           | Some i \<Rightarrow> if i = 0 then None else Some (i - 1)))"

fun unwrap_casts :: "('o, 'q) expr \<Rightarrow> ('o, 'q) expr" where
  "unwrap_casts (Cast e _) = unwrap_casts e"
| "unwrap_casts (Nested e) = unwrap_casts e"
| "unwrap_casts e = e"

definition literal_agrees_with_server :: "bool \<Rightarrow> ('o, 'q) expr \<Rightarrow> bool" where
  "literal_agrees_with_server escape e =
     (\<not> escape \<or>
      (case unwrap_casts e of
         ValueExpr (SingleQuotedString s) \<Rightarrow> 92 \<notin> set s
       | _ \<Rightarrow> True))"

definition bytea_literal :: "externs \<Rightarrow> bytes \<Rightarrow> ('o, 'q) expr" where
  "bytea_literal x value = ValueExpr (EscapedStringLiteral (bs [CHR 0x5C, CHR ''x''] @ x_hex_encode x value))"

fun value_plaintext :: "externs \<Rightarrow> wire_form \<Rightarrow> 'o sql_value \<Rightarrow> bytes option" where
  "value_plaintext x wire (SingleQuotedString s) = Some (text_plaintext x s wire)"
| "value_plaintext x wire (EscapedStringLiteral s) = Some (text_plaintext x s wire)"
| "value_plaintext x wire (UnicodeStringLiteral s) = Some (text_plaintext x s wire)"
| "value_plaintext x wire (NationalStringLiteral s) = Some (text_plaintext x s wire)"
| "value_plaintext x wire (DollarQuotedString s _) = Some (text_plaintext x s wire)"
| "value_plaintext x wire (Number n _) = Some n"
| "value_plaintext x wire _ = None"

definition number_of :: "('o, 'q) expr \<Rightarrow> rstr option" where
  "number_of e = (case unwrap_casts e of ValueExpr (Number n _) \<Rightarrow> Some n | _ \<Rightarrow> None)"

definition literal_plaintext :: "externs \<Rightarrow> ('o, 'q) expr \<Rightarrow> wire_form \<Rightarrow> bytes option" where
  "literal_plaintext x e wire =
     (case unwrap_casts e of
        ValueExpr v \<Rightarrow> value_plaintext x wire v
      | UnaryOp MinusOp e \<Rightarrow> map_option (\<lambda>n. bs ''-'' @ n) (number_of e)
      | UnaryOp PlusOp e \<Rightarrow> number_of e
      | _ \<Rightarrow> None)"

text \<open>The placeholder behind casts and parentheses, if the expression is one.\<close>

definition placeholder_of :: "('o, 'q) expr \<Rightarrow> rstr option" where
  "placeholder_of e = (case unwrap_casts e of ValueExpr (Placeholder p) \<Rightarrow> Some p | _ \<Rightarrow> None)"

text \<open>
  \<open>String::from_utf8_lossy\<close>: every maximal prefix of a character that is cut off becomes one
  U+FFFD.
\<close>

definition lead_accepts :: "byte \<Rightarrow> byte \<Rightarrow> bool" where
  "lead_accepts a b =
     (let a = unat a; b = unat b in
      a = 224 \<and> 160 \<le> b \<and> b \<le> 191 \<or> (225 \<le> a \<and> a \<le> 236 \<or> a = 238 \<or> a = 239) \<and> 128 \<le> b \<and> b \<le> 191
      \<or> a = 237 \<and> 128 \<le> b \<and> b \<le> 159 \<or> a = 240 \<and> 144 \<le> b \<and> b \<le> 191
      \<or> 241 \<le> a \<and> a \<le> 243 \<and> 128 \<le> b \<and> b \<le> 191 \<or> a = 244 \<and> 128 \<le> b \<and> b \<le> 143)"

definition invalid_len :: "bytes \<Rightarrow> nat" where
  "invalid_len b =
     (case b of
        a # c # r \<Rightarrow>
          if \<not> lead_accepts a c then 1
          else (case r of d # _ \<Rightarrow> if unat a \<ge> 240 \<and> cont d then 3 else 2 | [] \<Rightarrow> 2)
      | _ \<Rightarrow> 1)"

function from_utf8_lossy :: "bytes \<Rightarrow> rstr" where
  "from_utf8_lossy b =
     (if b = [] then []
      else case next_char b of
        Some (c, r) \<Rightarrow> encode_char c @ from_utf8_lossy r
      | None \<Rightarrow> [239, 191, 189] @ from_utf8_lossy (drop (invalid_len b) b))"
  by pat_completeness auto
termination
  by (relation "measure length") (auto dest: next_char_shorter simp: invalid_len_def split: list.splits)

declare from_utf8_lossy.simps [simp del]


section \<open>Sub-expressions\<close>

text \<open>\<open>Iterator::find_map\<close>.\<close>

primrec find_map :: "('a \<Rightarrow> 'b option) \<Rightarrow> 'a list \<Rightarrow> 'b option" where
  "find_map f [] = None"
| "find_map f (a # as) = (case f a of Some b \<Rightarrow> Some b | None \<Rightarrow> find_map f as)"

lemma find_map_cong [fundef_cong]: "as = cs \<Longrightarrow> (\<And>a. a \<in> set cs \<Longrightarrow> f a = g a) \<Longrightarrow> find_map f as = find_map g cs"
  by (induction cs arbitrary: as) (auto split: option.splits)

lemma find_map_None: "find_map f as = None \<longleftrightarrow> (\<forall>a \<in> set as. f a = None)"
  by (induction as) (auto split: option.splits)

lemma find_map_SomeD: "find_map f as = Some b \<Longrightarrow> \<exists>a \<in> set as. f a = Some b"
  by (induction as) (auto split: option.splits)

fun expr_operands :: "('o, 'q) expr \<Rightarrow> ('o, 'q) expr list" where
  "expr_operands (BinaryOp l _ r) = [l, r]"
| "expr_operands (AnyOp l _ r _) = [l, r]"
| "expr_operands (AllOp l _ r) = [l, r]"
| "expr_operands (IsDistinctFrom l r) = [l, r]"
| "expr_operands (IsNotDistinctFrom l r) = [l, r]"
| "expr_operands (UnaryOp _ e) = [e]"
| "expr_operands (Nested e) = [e]"
| "expr_operands (Cast e _) = [e]"
| "expr_operands (IsNull e) = [e]"
| "expr_operands (IsNotNull e) = [e]"
| "expr_operands (IsTrue e) = [e]"
| "expr_operands (IsNotTrue e) = [e]"
| "expr_operands (IsFalse e) = [e]"
| "expr_operands (IsNotFalse e) = [e]"
| "expr_operands (Collate e _) = [e]"
| "expr_operands (InList e list _) = e # list"
| "expr_operands (Between e _ low high) = [e, low, high]"
| "expr_operands (Like e p _) = [e, p]"
| "expr_operands (ILike e p _) = [e, p]"
| "expr_operands (SimilarTo e p _) = [e, p]"
| "expr_operands (Tuple items) = items"
| "expr_operands (CaseExpr operand conditions results else_result) =
     (case operand of Some e \<Rightarrow> [e] | None \<Rightarrow> []) @ (case else_result of Some e \<Rightarrow> [e] | None \<Rightarrow> []) @ conditions @ results"
| "expr_operands (Function _ args) = (case args of Some as \<Rightarrow> as | None \<Rightarrow> [])"
| "expr_operands e = []"

lemma member_size: "a \<in> set as \<Longrightarrow> size a < Suc (size_list size as)"
  by (induction as) auto

lemma expr_operands_size: "a \<in> set (expr_operands e) \<Longrightarrow> size a < size e"
  by (cases e rule: expr_operands.cases) (auto dest: member_size split: option.splits)

end
