(* ===== verification/SqlScope.thy ===== *)
theory SqlScope
  imports Ast
begin

text \<open>
  Resolving column references (\<open>crates/proxy/src/encrypt/scope.rs\<close>): the protected tables a
  predicate can see, what a possibly qualified name means among them, and the protected columns an
  expression is about. A borrowed or owned column set is the set itself.
\<close>

record scoped_table =
  sct_alias :: "rstr option"
  sct_name :: "rstr list"
  sct_columns :: columns
  sct_read_columns :: read_columns

type_synonym table_scope = "scoped_table list"

datatype column_resolution =
    One field_transform
  | SeveralColumns
  | UnknownColumn

definition table_matches :: "scoped_table \<Rightarrow> ident list \<Rightarrow> bool" where
  "table_matches t qualifiers =
     (case qualifiers of
        [] \<Rightarrow> True
      | [q] \<Rightarrow> sct_alias t = Some (normalize q) \<or> sct_name t \<noteq> [] \<and> last (sct_name t) = normalize q
      | _ \<Rightarrow>
          let want = map normalize qualifiers in
          length want \<le> length (sct_name t) \<and> drop (length (sct_name t) - length want) (sct_name t) = want)"

definition resolve :: "table_scope \<Rightarrow> ident list \<Rightarrow> column_resolution" where
  "resolve scope idents =
     (if idents = [] then UnknownColumn
      else case List.map_filter (\<lambda>t. sct_columns t (normalize (last idents))) (filter (\<lambda>t. table_matches t (butlast idents)) scope) of
        [] \<Rightarrow> UnknownColumn
      | [t] \<Rightarrow> One t
      | _ \<Rightarrow> SeveralColumns)"

definition transform_of :: "table_scope \<Rightarrow> ident list \<Rightarrow> field_transform option" where
  "transform_of scope idents = (case resolve scope idents of One t \<Rightarrow> Some t | SeveralColumns \<Rightarrow> None | UnknownColumn \<Rightarrow> None)"

definition resolves_read :: "table_scope \<Rightarrow> ident list \<Rightarrow> bool" where
  "resolves_read scope idents =
     (idents \<noteq> [] \<and> list_ex (\<lambda>t. table_matches t (butlast idents) \<and> normalize (last idents) \<in> sct_read_columns t) scope)"

definition column_idents :: "('o, 'q) expr \<Rightarrow> ident list option" where
  "column_idents e = (case e of Identifier i \<Rightarrow> Some [i] | CompoundIdentifier is \<Rightarrow> Some is | _ \<Rightarrow> None)"

definition column_name :: "('o, 'q) expr \<Rightarrow> rstr option" where
  "column_name e =
     (case e of
        Identifier i \<Rightarrow> Some (normalize i)
      | CompoundIdentifier is \<Rightarrow> if is = [] then None else Some (normalize (last is))
      | _ \<Rightarrow> None)"

definition resolve_column :: "table_scope \<Rightarrow> ('o, 'q) expr \<Rightarrow> column_resolution" where
  "resolve_column scope e =
     (case e of
        Identifier i \<Rightarrow> resolve scope [i]
      | CompoundIdentifier is \<Rightarrow> resolve scope is
      | _ \<Rightarrow> UnknownColumn)"

definition column_ref :: "table_scope \<Rightarrow> ('o, 'q) expr \<Rightarrow> field_transform option" where
  "column_ref scope e = (case resolve_column scope e of One t \<Rightarrow> Some t | SeveralColumns \<Rightarrow> None | UnknownColumn \<Rightarrow> None)"

definition read_column_ref :: "table_scope \<Rightarrow> ('o, 'q) expr \<Rightarrow> bool" where
  "read_column_ref scope e =
     (case e of
        Identifier i \<Rightarrow> resolves_read scope [i]
      | CompoundIdentifier is \<Rightarrow> resolves_read scope is
      | _ \<Rightarrow> False)"

function read_protected_reference :: "('o, 'q) expr \<Rightarrow> table_scope \<Rightarrow> rstr option" where
  "read_protected_reference e scope =
     (if read_column_ref scope e then column_name e
      else find_map (\<lambda>child. read_protected_reference child scope) (expr_operands e))"
  by pat_completeness auto
termination
  by (relation "measure (size \<circ> fst)") (auto dest: expr_operands_size)

declare read_protected_reference.simps [simp del]

definition computed_protected_column :: "('o, 'q) select_item \<Rightarrow> table_scope \<Rightarrow> (rstr \<times> ('o, 'q) expr) option" where
  "computed_protected_column item scope =
     (case (case item of UnnamedExpr e \<Rightarrow> Some e | ExprWithAlias e _ \<Rightarrow> Some e | QualifiedWildcard _ _ \<Rightarrow> None | Wildcard _ \<Rightarrow> None) of
        None \<Rightarrow> None
      | Some e \<Rightarrow>
          if read_column_ref scope e then None
          else map_option (\<lambda>column. (column, e)) (read_protected_reference e scope))"

fun predicate_operands :: "('o, 'q) expr \<Rightarrow> (('o, 'q) expr \<times> ('o, 'q) expr) option" where
  "predicate_operands (BinaryOp l _ r) = Some (l, r)"
| "predicate_operands (AnyOp l _ r _) = Some (l, r)"
| "predicate_operands (AllOp l _ r) = Some (l, r)"
| "predicate_operands (InList e _ _) = Some (e, e)"
| "predicate_operands (InSubquery e _ _) = Some (e, e)"
| "predicate_operands (Between e _ _ _) = Some (e, e)"
| "predicate_operands (Like e _ _) = Some (e, e)"
| "predicate_operands (ILike e _ _) = Some (e, e)"
| "predicate_operands (SimilarTo e _ _) = Some (e, e)"
| "predicate_operands (IsDistinctFrom e _) = Some (e, e)"
| "predicate_operands (IsNotDistinctFrom e _) = Some (e, e)"
| "predicate_operands _ = None"

fun ambiguous_column :: "('o, 'q) expr \<Rightarrow> table_scope \<Rightarrow> rstr option" where
  "ambiguous_column (Tuple items) scope = find_map (\<lambda>item. ambiguous_column item scope) items"
| "ambiguous_column operand scope =
     (case resolve_column scope operand of SeveralColumns \<Rightarrow> column_name operand | One _ \<Rightarrow> None | UnknownColumn \<Rightarrow> None)"

definition ambiguous_operand :: "('o, 'q) expr \<Rightarrow> table_scope \<Rightarrow> rstr option" where
  "ambiguous_operand e scope =
     (case predicate_operands e of None \<Rightarrow> None | Some (l, r) \<Rightarrow> find_map (\<lambda>operand. ambiguous_column operand scope) [l, r])"

fun protected_column_of :: "('o, 'q) expr \<Rightarrow> table_scope \<Rightarrow> (rstr \<times> bool) option" where
  "protected_column_of (Tuple items) scope = find_map (\<lambda>item. protected_column_of item scope) items"
| "protected_column_of operand scope =
     (case column_ref scope operand of
        None \<Rightarrow> None
      | Some t \<Rightarrow> map_option (\<lambda>name. (name, tr_supports_search t)) (column_name operand))"

definition protected_operand :: "('o, 'q) expr \<Rightarrow> table_scope \<Rightarrow> (rstr \<times> bool) option" where
  "protected_operand e scope =
     (case predicate_operands e of None \<Rightarrow> None | Some (l, r) \<Rightarrow> find_map (\<lambda>operand. protected_column_of operand scope) [l, r])"

fun expr_shape :: "('o, 'q) expr \<Rightarrow> rstr" where
  "expr_shape (Identifier _) = bs ''column reference''"
| "expr_shape (CompoundIdentifier _) = bs ''column reference''"
| "expr_shape (ValueExpr _) = bs ''literal''"
| "expr_shape (Function _ _) = bs ''function call''"
| "expr_shape (Cast _ _) = bs ''cast''"
| "expr_shape (BinaryOp _ _ _) = bs ''binary operator''"
| "expr_shape (UnaryOp _ _) = bs ''unary operator''"
| "expr_shape (CaseExpr _ _ _ _) = bs ''CASE''"
| "expr_shape (Subquery _) = bs ''subquery''"
| "expr_shape (InSubquery _ _ _) = bs ''IN subquery''"
| "expr_shape (InList _ _ _) = bs ''IN list''"
| "expr_shape (AnyOp _ _ _ _) = bs ''= ANY''"
| "expr_shape (AllOp _ _ _) = bs ''= ALL''"
| "expr_shape (Like _ _ _) = bs ''pattern match''"
| "expr_shape (ILike _ _ _) = bs ''pattern match''"
| "expr_shape (SimilarTo _ _ _) = bs ''pattern match''"
| "expr_shape (Between _ _ _ _) = bs ''BETWEEN''"
| "expr_shape (IsNull _) = bs ''IS NULL''"
| "expr_shape (IsNotNull _) = bs ''IS NULL''"
| "expr_shape (IsDistinctFrom _ _) = bs ''IS DISTINCT FROM''"
| "expr_shape (IsNotDistinctFrom _ _) = bs ''IS DISTINCT FROM''"
| "expr_shape (ArrayExpr _ _) = bs ''array''"
| "expr_shape (TypedString _) = bs ''typed literal''"
| "expr_shape (Nested _) = bs ''parenthesized expression''"
| "expr_shape _ = bs ''unsupported expression''"

text \<open>\<open>array_parameter\<close> of \<open>encrypt/array.rs\<close>.\<close>

definition array_parameter :: "('o, 'q) expr \<Rightarrow> ('o, 'q) expr \<Rightarrow> table_scope \<Rightarrow> (nat \<times> field_transform) option" where
  "array_parameter column array scope =
     (case column_ref scope column of
        None \<Rightarrow> None
      | Some t \<Rightarrow>
          if \<not> tr_supports_search t then None
          else (case placeholder_of array of
            None \<Rightarrow> None
          | Some p \<Rightarrow> map_option (\<lambda>i. (i, t)) (placeholder_index p)))"

end
