(* ===== verification/SealSql.thy ===== *)
theory SealSql
  imports Rows SqlScope
begin

text \<open>
  Sealing the values of a statement (\<open>crates/proxy/src/encrypt/seal.rs\<close>): which row a statement
  writes, how the values of an INSERT and an assignment list are walked, and the one place where a
  literal becomes a stored form. The types they share (\<open>SealedValues\<close>, \<open>AssignmentRow\<close>,
  \<open>AssignmentScope\<close>) are in \<open>encrypt/mod.rs\<close>.

  What the rewriter reads of its surroundings is the record \<open>sql_rewriter\<close>: the transforms' keys and
  primitives, the catalog, the read path's resolution if there is one, the \<open>Display\<close> of an object
  name and the Unicode lower case of a string. Parameters recorded for Bind are passed along.
  A transform names the cell of its column, so transforms are compared as the shared pointers are.
\<close>

type_synonym 'o qexpr = "('o, 'o query) expr"

record 'k sql_rewriter =
  sr_externs :: externs
  sr_keys :: "'k key_source"
  sr_catalog :: write_catalog
  sr_rows :: "resolved option"
  sr_render :: "object_name \<Rightarrow> rstr"
  sr_lower :: "rstr \<Rightarrow> rstr"

type_synonym ('k, 'a) rewriting = "('k world, rstr rejection, 'a) comp"

abbreviation sr_mode :: "'k sql_rewriter \<Rightarrow> on_unprotected" where
  "sr_mode W \<equiv> wc_on_unprotected (sr_catalog W)"

definition site :: "'k sql_rewriter \<Rightarrow> unprotected_site \<Rightarrow> ('k, unit) rewriting" where
  "site W u = comp_of (unprotected (sr_mode W) u)"

record sealed_values =
  sv_changed :: bool
  sv_columns :: "rstr set"

definition nothing_sealed :: sealed_values where
  "nothing_sealed = \<lparr>sv_changed = False, sv_columns = {}\<rparr>"

datatype assignment_row =
    KnownRow row_key_source
  | MissingRow rstr rstr rstr
  | ReassignedRow rstr rstr

record assignment_scope =
  as_row :: assignment_row
  as_columns :: columns
  as_sealed :: sealed_values

definition assignment_scope_of :: "columns \<Rightarrow> assignment_row \<Rightarrow> assignment_scope" where
  "assignment_scope_of cols r = \<lparr>as_row = r, as_columns = cols, as_sealed = nothing_sealed\<rparr>"

definition re_stores_a_sealed_value :: "assignment_scope \<Rightarrow> ('o, 'q) expr \<Rightarrow> rstr \<Rightarrow> bool" where
  "re_stores_a_sealed_value target e column =
     (case e of
        CompoundIdentifier [qualifier, referenced] \<Rightarrow>
          normalize qualifier = bs ''excluded'' \<and> normalize referenced = column \<and> column \<in> sv_columns (as_sealed target)
      | _ \<Rightarrow> False)"


section \<open>The row a statement writes\<close>

definition row_key_name :: "resolved_row_key \<Rightarrow> rstr" where
  "row_key_name spec = rk_name spec"

definition names_column :: "rstr \<Rightarrow> object_name \<Rightarrow> bool" where
  "names_column wanted name = (name \<noteq> [] \<and> normalize (last name) = wanted)"

definition assigns_column :: "('o, 'q) assignment list \<Rightarrow> rstr \<Rightarrow> bool" where
  "assigns_column assignments wanted =
     list_ex (\<lambda>a. case assigned a of
         ColumnName name \<Rightarrow> names_column wanted name
       | TupleTarget names \<Rightarrow> list_ex (names_column wanted) names) assignments"

definition names_row_key :: "('o, 'q) expr \<Rightarrow> rstr \<Rightarrow> scoped_table \<Rightarrow> bool \<Rightarrow> bool" where
  "names_row_key e wanted target joined =
     (case e of
        Identifier i \<Rightarrow> \<not> joined \<and> normalize i = wanted
      | CompoundIdentifier is \<Rightarrow> is \<noteq> [] \<and> normalize (last is) = wanted \<and> table_matches target (butlast is)
      | _ \<Rightarrow> False)"

definition row_key_source_of :: "'k sql_rewriter \<Rightarrow> ('o, 'q) expr \<Rightarrow> resolved_row_key \<Rightarrow> row_key_source option" where
  "row_key_source_of W e spec =
     (case placeholder_of e of
        Some p \<Rightarrow> map_option (\<lambda>i. Param i (rk_type_oid spec) (rk_name spec)) (placeholder_index p)
      | None \<Rightarrow>
          (case literal_plaintext (sr_externs W) (unwrap_casts e) TextForm of
             None \<Rightarrow> None
           | Some t \<Rightarrow>
               (case canonical (sr_externs W) (rk_type_oid spec) Text (Some t) of Ok key \<Rightarrow> Some (Literal key) | Err _ \<Rightarrow> None)))"

fun row_key_in_predicate :: "'k sql_rewriter \<Rightarrow> ('o, 'q) expr \<Rightarrow> resolved_row_key \<Rightarrow> scoped_table \<Rightarrow> bool \<Rightarrow> row_key_source option" where
  "row_key_in_predicate W (BinaryOp l OpAnd r) spec target joined =
     (case row_key_in_predicate W l spec target joined of
        Some source \<Rightarrow> Some source
      | None \<Rightarrow> row_key_in_predicate W r spec target joined)"
| "row_key_in_predicate W (Nested e) spec target joined = row_key_in_predicate W e spec target joined"
| "row_key_in_predicate W (BinaryOp l OpEq r) spec target joined =
     (if names_row_key l (row_key_name spec) target joined then row_key_source_of W r spec
      else if names_row_key r (row_key_name spec) target joined then row_key_source_of W l spec
      else None)"
| "row_key_in_predicate W _ spec target joined = None"

definition row_key_spec :: "'k sql_rewriter \<Rightarrow> rstr \<Rightarrow> rstr \<Rightarrow> resolved_row_key option" where
  "row_key_spec W schema table =
     (case sr_rows W of
        None \<Rightarrow> None
      | Some rs \<Rightarrow> rs_row_key_by_table rs (sr_lower W schema, sr_lower W table))"

definition qualified_name :: "rstr \<Rightarrow> rstr \<Rightarrow> rstr" where
  "qualified_name schema table = schema @ bs ''.'' @ table"

text \<open>The parts of an UPDATE that decide which row it writes: \<open>UpdateTarget\<close>.\<close>

record ('o, 'q) update_target =
  ut_table :: "('o, 'q) table_with_joins"
  ut_from :: "('o, 'q) table_with_joins option"
  ut_selection :: "('o, 'q) expr option"
  ut_assignments :: "('o, 'q) assignment list"

definition update_row :: "'k sql_rewriter \<Rightarrow> ('o, 'q) update_target \<Rightarrow> columns \<Rightarrow> assignment_row" where
  "update_row W target cols =
     (case relation (ut_table target) of
        Table name alias _ \<Rightarrow>
          (case resolved_name name of
             None \<Rightarrow> KnownRow NoRow
           | Some (schema, table_name) \<Rightarrow>
               (case row_key_spec W schema table_name of
                  None \<Rightarrow> KnownRow NoRow
                | Some spec \<Rightarrow>
                    if assigns_column (ut_assignments target) (row_key_name spec)
                    then ReassignedRow (qualified_name schema table_name) (rk_name spec)
                    else
                      let scoped = \<lparr>sct_alias = map_option normalize alias, sct_name = map normalize name, sct_columns = cols,
                             sct_read_columns = read_columns_of (sr_catalog W) name\<rparr>;
                          joined = (ut_from target \<noteq> None \<or> joins (ut_table target) \<noteq> []) in
                      (case Option.bind (ut_selection target) (\<lambda>e. row_key_in_predicate W e spec scoped joined) of
                         Some source \<Rightarrow> KnownRow source
                       | None \<Rightarrow> MissingRow (qualified_name schema table_name) (rk_name spec)
                           (bs ''UPDATE whose WHERE does not pin one row by its row key''))))
      | _ \<Rightarrow> KnownRow NoRow)"

text \<open>The first position of a name in a column list.\<close>

definition position_of :: "rstr \<Rightarrow> ident list \<Rightarrow> nat option" where
  "position_of wanted idents = find_map (\<lambda>(p, i). if normalize i = wanted then Some p else None) (enumerate 0 idents)"

definition value_at :: "'a list \<Rightarrow> nat \<Rightarrow> 'a option" where
  "value_at xs i = (if i < length xs then Some (xs ! i) else None)"

definition conflict_row :: "'k sql_rewriter \<Rightarrow> object_name \<Rightarrow> ident list \<Rightarrow> 'o query option \<Rightarrow> conflict_target option
    \<Rightarrow> ('o, 'o query) assignment list \<Rightarrow> assignment_row" where
  "conflict_row W table cols source conflict assignments =
     (case resolved_name table of
        None \<Rightarrow> KnownRow NoRow
      | Some (schema, table_name) \<Rightarrow>
          (case row_key_spec W schema table_name of
             None \<Rightarrow> KnownRow NoRow
           | Some spec \<Rightarrow>
               let wanted = row_key_name spec;
                   missing = MissingRow (qualified_name schema table_name) (rk_name spec) in
               if assigns_column assignments wanted then ReassignedRow (qualified_name schema table_name) (rk_name spec)
               else if \<not> (case conflict of Some (ConflictColumns is) \<Rightarrow> list_ex (\<lambda>i. normalize i = wanted) is | _ \<Rightarrow> False)
               then missing (bs ''conflict action whose ON CONFLICT target is not the row key'')
               else
                 (case position_of wanted cols of
                    None \<Rightarrow> missing (bs ''conflict action of an INSERT without the row key in its column list'')
                  | Some position \<Rightarrow>
                      (case source of
                         None \<Rightarrow> missing (bs ''conflict action of an INSERT with no VALUES list'')
                       | Some (Query _ (Values rows _) _ _) \<Rightarrow>
                           (case rows of
                              [vs] \<Rightarrow>
                                (case Option.bind (value_at vs position) (\<lambda>e. row_key_source_of W e spec) of
                                   Some src \<Rightarrow> KnownRow src
                                 | None \<Rightarrow> missing (bs ''conflict action whose row key is not a literal or a parameter''))
                            | _ \<Rightarrow> missing (bs ''conflict action of a multi-row INSERT''))
                       | Some _ \<Rightarrow> missing (bs ''conflict action of an INSERT ... SELECT'')))))"

definition row_of :: "'k sql_rewriter \<Rightarrow> assignment_row \<Rightarrow> ('k, row_key_source) rewriting" where
  "row_of W r =
     (case r of
        KnownRow source \<Rightarrow> comp_ret source
      | MissingRow table column shape \<Rightarrow>
          comp_bind (site W (RowKeyMissingAt table column shape)) (\<lambda>_. comp_ret NoRow)
      | ReassignedRow table column \<Rightarrow>
          comp_bind (site W (RowKeyReassigned table column)) (\<lambda>_. comp_ret NoRow))"


section \<open>Sealing\<close>

text \<open>A literal becomes the sealed literal; the row key of the statement is known or there is none.\<close>

definition sealed_literal :: "externs \<Rightarrow> field_transform \<Rightarrow> bytes \<Rightarrow> ('o, 'q) expr" where
  "sealed_literal x t sealed =
     (case tr_wire t of
        Bytea \<Rightarrow> bytea_literal x sealed
      | TextForm \<Rightarrow> ValueExpr (SingleQuotedString (from_utf8_lossy sealed)))"

definition seal_literal :: "'k sql_rewriter \<Rightarrow> ('o, 'q) expr \<Rightarrow> field_transform \<Rightarrow> rstr \<Rightarrow> row_key_source \<Rightarrow> field_transform param_transforms
    \<Rightarrow> bytes \<Rightarrow> ('k, bool \<times> ('o, 'q) expr \<times> field_transform param_transforms) rewriting" where
  "seal_literal W e t column rsrc params plaintext =
     (case rsrc of
        Param _ _ _ \<Rightarrow>
          comp_bind (site W (UnsupportedValue column (bs ''literal in a row whose key is a bound parameter'')))
            (\<lambda>_. comp_ret (False, e, params))
      | _ \<Rightarrow>
          comp_bind (fatal (tr_seal (sr_externs W) (sr_keys W) t plaintext (case rsrc of Literal key \<Rightarrow> Some key | _ \<Rightarrow> None)))
            (\<lambda>sealed. comp_ret (True, sealed_literal (sr_externs W) t sealed, params)))"

definition seal_expr :: "'k sql_rewriter \<Rightarrow> bool \<Rightarrow> ('o, 'q) expr \<Rightarrow> field_transform \<Rightarrow> rstr \<Rightarrow> row_key_source \<Rightarrow> field_transform param_transforms
    \<Rightarrow> ('k, bool \<times> ('o, 'q) expr \<times> field_transform param_transforms) rewriting" where
  "seal_expr W escape e t column rsrc params =
     (case placeholder_of e of
        Some p \<Rightarrow>
          (case placeholder_index p of
             Some index \<Rightarrow> comp_bind (comp_of (record_param params index (Seal t rsrc))) (\<lambda>params. comp_ret (False, e, params))
           | None \<Rightarrow> comp_ret (False, e, params))
      | None \<Rightarrow>
          if (case unwrap_casts e of ValueExpr Null \<Rightarrow> True | _ \<Rightarrow> False) then comp_ret (False, e, params)
          else if \<not> literal_agrees_with_server escape e
          then comp_bind (site W (AmbiguousLiteral column)) (\<lambda>_. comp_ret (False, e, params))
          else
            (case literal_plaintext (sr_externs W) e (tr_wire t) of
               None \<Rightarrow> comp_bind (site W (UnsupportedValue column (expr_shape e))) (\<lambda>_. comp_ret (False, e, params))
             | Some plaintext \<Rightarrow> seal_literal W e t column rsrc params plaintext))"


section \<open>The values of an INSERT\<close>

text \<open>The protected columns of a list, with their positions.\<close>

definition protected_idents :: "columns \<Rightarrow> ident list \<Rightarrow> (nat \<times> ident \<times> field_transform) list" where
  "protected_idents cols idents =
     List.map_filter (\<lambda>(p, i). map_option (\<lambda>t. (p, i, t)) (cols (normalize i))) (enumerate 0 idents)"

fun seal_cells :: "'k sql_rewriter \<Rightarrow> bool \<Rightarrow> (nat \<times> ident \<times> field_transform) list \<Rightarrow> row_key_source \<Rightarrow> ('o, 'q) expr list
    \<Rightarrow> field_transform param_transforms \<Rightarrow> ('k, bool \<times> ('o, 'q) expr list \<times> field_transform param_transforms) rewriting" where
  "seal_cells W escape [] rsrc vs params = comp_ret (False, vs, params)"
| "seal_cells W escape ((p, i, t) # ps) rsrc vs params =
     (if p < length vs
      then
        comp_bind (seal_expr W escape (vs ! p) t (id_value i) rsrc params) (\<lambda>(changed, e, params).
        comp_bind (seal_cells W escape ps rsrc (vs[p := e]) params) (\<lambda>(changed', vs, params).
          comp_ret (changed \<or> changed', vs, params)))
      else seal_cells W escape ps rsrc vs params)"

text \<open>The row one line of a VALUES list writes, reported at most once per statement.\<close>

definition insert_row_source :: "'k sql_rewriter \<Rightarrow> rstr \<Rightarrow> resolved_row_key option \<Rightarrow> nat option \<Rightarrow> ('o, 'q) expr list \<Rightarrow> bool
    \<Rightarrow> ('k, row_key_source \<times> bool) rewriting" where
  "insert_row_source W qualified spec key_position vs reported =
     (case (spec, key_position) of
        (Some spec, Some p) \<Rightarrow>
          (case Option.bind (value_at vs p) (\<lambda>e. row_key_source_of W e spec) of
             Some source \<Rightarrow> comp_ret (source, reported)
           | None \<Rightarrow>
               comp_bind (if reported then comp_ret ()
                 else site W (RowKeyMissingAt qualified (rk_name spec) (bs ''INSERT whose row key is not a literal or a parameter'')))
                 (\<lambda>_. comp_ret (NoRow, True)))
      | _ \<Rightarrow> comp_ret (NoRow, reported))"

fun seal_rows :: "'k sql_rewriter \<Rightarrow> bool \<Rightarrow> rstr \<Rightarrow> resolved_row_key option \<Rightarrow> nat option \<Rightarrow> (nat \<times> ident \<times> field_transform) list
    \<Rightarrow> ('o, 'q) expr list list \<Rightarrow> bool \<Rightarrow> field_transform param_transforms
    \<Rightarrow> ('k, bool \<times> ('o, 'q) expr list list \<times> field_transform param_transforms) rewriting" where
  "seal_rows W escape qualified spec key_position prot [] reported params = comp_ret (False, [], params)"
| "seal_rows W escape qualified spec key_position prot (vs # rows) reported params =
     comp_bind (insert_row_source W qualified spec key_position vs reported) (\<lambda>(rsrc, reported).
     comp_bind (seal_cells W escape prot rsrc vs params) (\<lambda>(changed, vs, params).
     comp_bind (seal_rows W escape qualified spec key_position prot rows reported params) (\<lambda>(changed', rows, params).
       comp_ret (changed \<or> changed', vs # rows, params))))"

definition rewrite_insert_values :: "'k sql_rewriter \<Rightarrow> bool \<Rightarrow> object_name \<Rightarrow> ident list \<Rightarrow> 'o query option \<Rightarrow> columns
    \<Rightarrow> field_transform param_transforms \<Rightarrow> ('k, sealed_values \<times> 'o query option \<times> field_transform param_transforms) rewriting" where
  "rewrite_insert_values W escape table idents source cols params =
     (let prot = protected_idents cols idents; nothing = (nothing_sealed, source, params) in
      if prot = [] then comp_ret nothing
      else
        (case source of
           None \<Rightarrow> comp_ret nothing
         | Some (Query cs b ord r) \<Rightarrow>
             (case b of
                Values rows o' \<Rightarrow>
                  (case resolved_name table of
                     None \<Rightarrow> comp_ret nothing
                   | Some (schema, table_name) \<Rightarrow>
                       let qualified = qualified_name schema table_name;
                           spec = row_key_spec W schema table_name;
                           key_position = Option.bind spec (\<lambda>spec. position_of (row_key_name spec) idents) in
                       comp_bind (case (spec, key_position) of
                           (Some spec, None) \<Rightarrow>
                             site W (RowKeyMissingAt qualified (rk_name spec) (bs ''INSERT without the row key in its column list''))
                         | _ \<Rightarrow> comp_ret ()) (\<lambda>_.
                       comp_bind (seal_rows W escape qualified spec key_position prot rows False params) (\<lambda>(changed, rows, params).
                         comp_ret (\<lparr>sv_changed = changed, sv_columns = (normalize \<circ> fst \<circ> snd) ` set prot\<rparr>,
                           Some (Query cs (Values rows o') ord r), params))))
              | _ \<Rightarrow> comp_bind (site W (InsertFromSelect (sr_render W table))) (\<lambda>_. comp_ret nothing))))"


section \<open>Assignments\<close>

text \<open>Every protected column of a row-wise assignment is reported.\<close>

fun site_each :: "'k sql_rewriter \<Rightarrow> (rstr \<Rightarrow> unprotected_site) \<Rightarrow> rstr list \<Rightarrow> ('k, unit) rewriting" where
  "site_each W f [] = comp_ret ()"
| "site_each W f (column # names) = comp_bind (site W (f column)) (\<lambda>_. site_each W f names)"

fun seal_elements :: "'k sql_rewriter \<Rightarrow> bool \<Rightarrow> assignment_scope \<Rightarrow> (nat \<times> ident \<times> field_transform) list \<Rightarrow> ('o, 'q) expr list
    \<Rightarrow> field_transform param_transforms \<Rightarrow> ('k, bool \<times> ('o, 'q) expr list \<times> field_transform param_transforms) rewriting" where
  "seal_elements W escape target [] es params = comp_ret (False, es, params)"
| "seal_elements W escape target ((p, i, t) # ps) es params =
     comp_bind (row_of W (as_row target)) (\<lambda>rsrc.
       if re_stores_a_sealed_value target (es ! p) (normalize i) then seal_elements W escape target ps es params
       else
         comp_bind (seal_expr W escape (es ! p) t (id_value i) rsrc params) (\<lambda>(changed, e, params).
         comp_bind (seal_elements W escape target ps (es[p := e]) params) (\<lambda>(changed', es, params).
           comp_ret (changed \<or> changed', es, params))))"

definition protected_names :: "columns \<Rightarrow> object_name list \<Rightarrow> (nat \<times> ident \<times> field_transform) list" where
  "protected_names cols names =
     List.map_filter (\<lambda>(p, name).
       if name = [] then None else map_option (\<lambda>t. (p, last name, t)) (cols (normalize (last name)))) (enumerate 0 names)"

definition seal_tuple_assignment :: "'k sql_rewriter \<Rightarrow> bool \<Rightarrow> object_name list \<Rightarrow> ('o, 'q) expr \<Rightarrow> assignment_scope
    \<Rightarrow> field_transform param_transforms \<Rightarrow> ('k, bool \<times> ('o, 'q) expr \<times> field_transform param_transforms) rewriting" where
  "seal_tuple_assignment W escape names e target params =
     (let prot = protected_names (as_columns target) names;
          names_of = map (\<lambda>(_, i, _). id_value i) prot;
          mismatch = (\<lambda>column. UnsupportedValue column (bs ''row-wise assignment whose value list does not match the column list''));
          signal = (\<lambda>f. comp_bind (site_each W f names_of) (\<lambda>_. comp_ret (False, e, params))) in
      if prot = [] then comp_ret (False, e, params)
      else
        (case e of
           Tuple es \<Rightarrow>
             if length es \<noteq> length names then signal mismatch
             else comp_bind (seal_elements W escape target prot es params) (\<lambda>(changed, es, params). comp_ret (changed, Tuple es, params))
         | Nested e' \<Rightarrow>
             if length names \<noteq> 1 then signal mismatch
             else comp_bind (seal_elements W escape target prot [e'] params) (\<lambda>(changed, es, params). comp_ret (changed, Nested (hd es), params))
         | _ \<Rightarrow> signal (\<lambda>column. UnsupportedValue column (expr_shape e))))"

definition seal_assignment :: "'k sql_rewriter \<Rightarrow> bool \<Rightarrow> assignment_scope \<Rightarrow> assignment_target \<Rightarrow> ('o, 'q) expr
    \<Rightarrow> field_transform param_transforms \<Rightarrow> ('k, bool \<times> ('o, 'q) expr \<times> field_transform param_transforms) rewriting" where
  "seal_assignment W escape target lhs e params =
     (case lhs of
        ColumnName column \<Rightarrow>
          if column = [] then comp_ret (False, e, params)
          else
            (case as_columns target (normalize (last column)) of
               None \<Rightarrow> comp_ret (False, e, params)
             | Some t \<Rightarrow>
                 comp_bind (row_of W (as_row target)) (\<lambda>rsrc.
                   if re_stores_a_sealed_value target e (normalize (last column)) then comp_ret (False, e, params)
                   else seal_expr W escape e t (id_value (last column)) rsrc params))
      | TupleTarget names \<Rightarrow> seal_tuple_assignment W escape names e target params)"

fun seal_assignments :: "'k sql_rewriter \<Rightarrow> bool \<Rightarrow> assignment_scope \<Rightarrow> ('o, 'q) assignment list
    \<Rightarrow> field_transform param_transforms \<Rightarrow> ('k, bool \<times> ('o, 'q) assignment list \<times> field_transform param_transforms) rewriting" where
  "seal_assignments W escape target [] params = comp_ret (False, [], params)"
| "seal_assignments W escape target (Assignment lhs e # as) params =
     comp_bind (seal_assignment W escape target lhs e params) (\<lambda>(changed, e, params).
     comp_bind (seal_assignments W escape target as params) (\<lambda>(changed', as, params).
       comp_ret (changed \<or> changed', Assignment lhs e # as, params)))"

end
