(* ===== verification/Predicates.thy ===== *)
theory Predicates
  imports SealSql
begin

text \<open>
  Predicates (\<open>crates/proxy/src/encrypt/predicate.rs\<close>): finding the comparisons a protected column
  takes part in, rewriting those a blind index can answer and reporting the rest. \<open>rewrite_selection\<close>
  stays within one scope and never enters a nested query; \<open>rewrite_nested_queries\<close> rewrites the nested
  queries of an expression and nothing else, with the rewrite of one query as the argument \<open>rq\<close>.
\<close>

type_synonym sql_params = "field_transform param_transforms"

type_synonym ('k, 'a) rewrite_of = "'a \<Rightarrow> sql_params \<Rightarrow> ('k, bool \<times> 'a \<times> sql_params) rewriting"

text \<open>One rewrite after another over a list, the changes collected.\<close>

fun walk :: "('k, 'a) rewrite_of \<Rightarrow> ('k, 'a list) rewrite_of" where
  "walk f [] params = comp_ret (False, [], params)"
| "walk f (a # as) params =
     comp_bind (f a params) (\<lambda>(changed, a, params).
     comp_bind (walk f as params) (\<lambda>(changed', as, params).
       comp_ret (changed \<or> changed', a # as, params)))"

definition walk_opt :: "('k, 'a) rewrite_of \<Rightarrow> ('k, 'a option) rewrite_of" where
  "walk_opt f a params =
     (case a of
        None \<Rightarrow> comp_ret (False, None, params)
      | Some a \<Rightarrow> comp_bind (f a params) (\<lambda>(changed, a, params). comp_ret (changed, Some a, params)))"

lemma walk_cong [fundef_cong]:
  "as = cs \<Longrightarrow> params = params' \<Longrightarrow> (\<And>a. a \<in> set cs \<Longrightarrow> f a = g a) \<Longrightarrow> walk f as params = walk g cs params'"
proof (induction cs arbitrary: as params params')
  case Nil
  then show ?case by simp
next
  case (Cons c cs)
  then have ih: "walk f cs p = walk g cs p" for p by simp
  show ?case using Cons.prems by (simp add: ih)
qed

lemma walk_opt_cong [fundef_cong]:
  "a = c \<Longrightarrow> params = params' \<Longrightarrow> (\<And>b. c = Some b \<Longrightarrow> f b = g b) \<Longrightarrow> walk_opt f a params = walk_opt g c params'"
  by (cases c) (simp_all add: walk_opt_def)


section \<open>Nested queries\<close>

text \<open>The query an expression holds itself, and the expressions below it.\<close>

definition own_query :: "('o, 'q) expr \<Rightarrow> 'q option" where
  "own_query e = (case e of Subquery q \<Rightarrow> Some q | Exists q _ \<Rightarrow> Some q | InSubquery _ q _ \<Rightarrow> Some q | _ \<Rightarrow> None)"

definition with_query :: "('o, 'q) expr \<Rightarrow> 'q \<Rightarrow> ('o, 'q) expr" where
  "with_query e q =
     (case e of Subquery _ \<Rightarrow> Subquery q | Exists _ n \<Rightarrow> Exists q n | InSubquery e _ n \<Rightarrow> InSubquery e q n | _ \<Rightarrow> e)"

definition walk_children :: "('o, 'q) expr \<Rightarrow> ('o, 'q) expr list" where
  "walk_children e = (case e of InSubquery operand _ _ \<Rightarrow> [operand] | _ \<Rightarrow> expr_operands e)"

fun with_children :: "('o, 'q) expr \<Rightarrow> ('o, 'q) expr list \<Rightarrow> ('o, 'q) expr" where
  "with_children (InSubquery _ q n) es = InSubquery (es ! 0) q n"
| "with_children (BinaryOp _ op _) es = BinaryOp (es ! 0) op (es ! 1)"
| "with_children (AnyOp _ op _ r) es = AnyOp (es ! 0) op (es ! 1) r"
| "with_children (AllOp _ op _) es = AllOp (es ! 0) op (es ! 1)"
| "with_children (IsDistinctFrom _ _) es = IsDistinctFrom (es ! 0) (es ! 1)"
| "with_children (IsNotDistinctFrom _ _) es = IsNotDistinctFrom (es ! 0) (es ! 1)"
| "with_children (UnaryOp op _) es = UnaryOp op (es ! 0)"
| "with_children (Nested _) es = Nested (es ! 0)"
| "with_children (Cast _ r) es = Cast (es ! 0) r"
| "with_children (IsNull _) es = IsNull (es ! 0)"
| "with_children (IsNotNull _) es = IsNotNull (es ! 0)"
| "with_children (IsTrue _) es = IsTrue (es ! 0)"
| "with_children (IsNotTrue _) es = IsNotTrue (es ! 0)"
| "with_children (IsFalse _) es = IsFalse (es ! 0)"
| "with_children (IsNotFalse _) es = IsNotFalse (es ! 0)"
| "with_children (Collate _ r) es = Collate (es ! 0) r"
| "with_children (InList _ _ n) es = InList (es ! 0) (tl es) n"
| "with_children (Between _ n _ _) es = Between (es ! 0) n (es ! 1) (es ! 2)"
| "with_children (Like _ _ r) es = Like (es ! 0) (es ! 1) r"
| "with_children (ILike _ _ r) es = ILike (es ! 0) (es ! 1) r"
| "with_children (SimilarTo _ _ r) es = SimilarTo (es ! 0) (es ! 1) r"
| "with_children (Tuple _) es = Tuple es"
| "with_children (CaseExpr operand conditions results else_result) es =
     (let n = (if operand = None then 0 else 1); m = (if else_result = None then n else n + 1) in
      CaseExpr (if operand = None then None else Some (es ! 0))
        (take (length conditions) (drop m es)) (drop (length conditions) (drop m es))
        (if else_result = None then None else Some (es ! n)))"
| "with_children (Function r args) es = Function r (if args = None then None else Some es)"
| "with_children e es = e"

lemma walk_children_size: "a \<in> set (walk_children e) \<Longrightarrow> size a < size e"
  by (cases e) (auto simp: walk_children_def dest: member_size split: option.splits)

function rewrite_nested_queries :: "('k, 'q) rewrite_of \<Rightarrow> ('k, ('o, 'q) expr) rewrite_of" where
  "rewrite_nested_queries rq e params =
     comp_bind (case own_query e of
         None \<Rightarrow> comp_ret (False, e, params)
       | Some q \<Rightarrow> comp_bind (rq q params) (\<lambda>(changed, q, params). comp_ret (changed, with_query e q, params))) (\<lambda>(changed, e', params).
     comp_bind (walk (rewrite_nested_queries rq) (walk_children e) params) (\<lambda>(changed', es, params).
       comp_ret (changed \<or> changed', with_children e' es, params)))"
  by pat_completeness auto
termination
  by (relation "measure (\<lambda>(_, e, _). size e)") (auto dest: walk_children_size)

declare rewrite_nested_queries.simps [simp del]


section \<open>Comparisons\<close>

definition index_prefix :: "('o, 'q) expr \<Rightarrow> ('o, 'q) expr" where
  "index_prefix column =
     Substring column (Some (ValueExpr (Number (bs ''1'') False)))
       (Some (ValueExpr (Number (dec_of (int BLIND_INDEX_LEN)) False))) False"

definition index_value :: "'k sql_rewriter \<Rightarrow> ('o, 'q) expr \<Rightarrow> field_transform \<Rightarrow> sql_params
    \<Rightarrow> ('k, ('o, 'q) expr \<times> sql_params) rewriting" where
  "index_value W e t params =
     (case placeholder_of e of
        Some p \<Rightarrow>
          (case placeholder_index p of
             None \<Rightarrow> comp_of (Err (Fatal (Wire Malformed)))
           | Some index \<Rightarrow> comp_bind (comp_of (record_param params index (SearchIndex t))) (\<lambda>params. comp_ret (e, params)))
      | None \<Rightarrow>
          (case literal_plaintext (sr_externs W) e (tr_wire t) of
             None \<Rightarrow> comp_of (Err (Fatal (Wire Malformed)))
           | Some plaintext \<Rightarrow>
               comp_bind (fatal (tr_search_index (sr_externs W) (sr_keys W) t plaintext)) (\<lambda>token.
                 case token of
                   None \<Rightarrow> comp_of (Err (Fatal (Wire Malformed)))
                 | Some token \<Rightarrow> comp_ret (bytea_literal (sr_externs W) token, params))))"

definition indexable :: "externs \<Rightarrow> field_transform \<Rightarrow> ('o, 'q) expr \<Rightarrow> bool" where
  "indexable x t e =
     (case placeholder_of e of
        Some p \<Rightarrow> placeholder_index p \<noteq> None
      | None \<Rightarrow> literal_plaintext x (unwrap_casts e) (tr_wire t) \<noteq> None)"

definition name_or_empty :: "('o, 'q) expr \<Rightarrow> rstr" where
  "name_or_empty e = (case column_name e of Some n \<Rightarrow> n | None \<Rightarrow> [])"

definition unsupported_predicate :: "'k sql_rewriter \<Rightarrow> ('o, 'q) expr \<Rightarrow> table_scope \<Rightarrow> ('k, unit) rewriting" where
  "unsupported_predicate W e scope =
     (case ambiguous_operand e scope of
        Some column \<Rightarrow> site W (AmbiguousColumn column (expr_shape e))
      | None \<Rightarrow>
          (case protected_operand e scope of
             None \<Rightarrow> comp_ret ()
           | Some (column, searchable) \<Rightarrow>
               site W (if searchable then Predicate column (expr_shape e) else UnindexedPredicate column (expr_shape e))))"

definition rewrite_equality :: "'k sql_rewriter \<Rightarrow> bool \<Rightarrow> ('o, 'q) expr \<Rightarrow> ('o, 'q) expr \<Rightarrow> field_transform \<Rightarrow> sql_params
    \<Rightarrow> ('k, bool \<times> ('o, 'q) expr \<times> ('o, 'q) expr \<times> sql_params) rewriting" where
  "rewrite_equality W escape column e t params =
     (let unchanged = (\<lambda>_. comp_ret (False, column, e, params)) in
      if \<not> tr_supports_search t then
        comp_bind (site W (UnindexedPredicate (name_or_empty column) (expr_shape e))) unchanged
      else if \<not> literal_agrees_with_server escape e then
        comp_bind (site W (AmbiguousLiteral (name_or_empty column))) unchanged
      else if \<not> indexable (sr_externs W) t e then
        comp_bind (site W (Predicate (name_or_empty column) (expr_shape e))) unchanged
      else
        comp_bind (index_value W e t params) (\<lambda>(e, params). comp_ret (True, index_prefix column, e, params)))"

definition index_values :: "'k sql_rewriter \<Rightarrow> field_transform \<Rightarrow> ('k, ('o, 'q) expr list) rewrite_of" where
  "index_values W t = walk (\<lambda>e params. comp_bind (index_value W e t params) (\<lambda>(e, params). comp_ret (True, e, params)))"

definition rewrite_in_list :: "'k sql_rewriter \<Rightarrow> bool \<Rightarrow> ('o, 'q) expr \<Rightarrow> ('o, 'q) expr list \<Rightarrow> table_scope \<Rightarrow> sql_params
    \<Rightarrow> ('k, bool \<times> ('o, 'q) expr \<times> ('o, 'q) expr list \<times> sql_params) rewriting" where
  "rewrite_in_list W escape column es scope params =
     (let unchanged = (\<lambda>_. comp_ret (False, column, es, params)) in
      case column_ref scope column of
        None \<Rightarrow>
          (case ambiguous_column column scope of
             Some name \<Rightarrow> comp_bind (site W (AmbiguousColumn name (bs ''IN list''))) unchanged
           | None \<Rightarrow>
               (case protected_column_of column scope of
                  Some (name, searchable) \<Rightarrow>
                    comp_bind (site W (if searchable then Predicate name (bs ''row-wise IN list'')
                      else UnindexedPredicate name (bs ''row-wise IN list''))) unchanged
                | None \<Rightarrow> unchanged ()))
      | Some t \<Rightarrow>
          if \<not> tr_supports_search t then
            comp_bind (site W (UnindexedPredicate (name_or_empty column) (bs ''IN list''))) unchanged
          else if \<not> list_all (literal_agrees_with_server escape) es then
            comp_bind (site W (AmbiguousLiteral (name_or_empty column))) unchanged
          else if es = [] \<or> \<not> list_all (indexable (sr_externs W) t) es then
            comp_bind (site W (Predicate (name_or_empty column) (bs ''IN list''))) unchanged
          else
            comp_bind (index_values W t es params) (\<lambda>(_, es, params). comp_ret (True, index_prefix column, es, params)))"

definition rewrite_any :: "'k sql_rewriter \<Rightarrow> bool \<Rightarrow> ('o, 'q) expr \<Rightarrow> ('o, 'q) expr \<Rightarrow> 'o \<Rightarrow> table_scope \<Rightarrow> sql_params
    \<Rightarrow> ('k, bool \<times> ('o, 'q) expr \<times> sql_params) rewriting" where
  "rewrite_any W escape l r o' scope params =
     (case r of
        ArrayExpr es a \<Rightarrow>
          comp_bind (rewrite_in_list W escape l es scope params) (\<lambda>(changed, l, es, params).
            comp_ret (changed, AnyOp l OpEq (ArrayExpr es a) o', params))
      | _ \<Rightarrow>
          (case array_parameter l r scope of
             Some (index, t) \<Rightarrow>
               comp_bind (comp_of (record_param params index (SearchIndexArray t (name_or_empty l)))) (\<lambda>params.
                 comp_ret (True, AnyOp (index_prefix l) OpEq r o', params))
           | None \<Rightarrow> comp_bind (unsupported_predicate W (AnyOp l OpEq r o') scope) (\<lambda>_. comp_ret (False, AnyOp l OpEq r o', params))))"

fun rewrite_selection :: "'k sql_rewriter \<Rightarrow> bool \<Rightarrow> table_scope \<Rightarrow> ('k, ('o, 'q) expr) rewrite_of" where
  "rewrite_selection W escape scope (BinaryOp l OpEq r) params =
     (case column_ref scope l of
        Some t \<Rightarrow>
          comp_bind (rewrite_equality W escape l r t params) (\<lambda>(changed, l, r, params). comp_ret (changed, BinaryOp l OpEq r, params))
      | None \<Rightarrow>
          (case column_ref scope r of
             Some t \<Rightarrow>
               comp_bind (rewrite_equality W escape r l t params) (\<lambda>(changed, r, l, params). comp_ret (changed, BinaryOp l OpEq r, params))
           | None \<Rightarrow> comp_bind (unsupported_predicate W (BinaryOp l OpEq r) scope) (\<lambda>_. comp_ret (False, BinaryOp l OpEq r, params))))"
| "rewrite_selection W escape scope (BinaryOp l OpAnd r) params =
     comp_bind (rewrite_selection W escape scope l params) (\<lambda>(changed, l, params).
     comp_bind (rewrite_selection W escape scope r params) (\<lambda>(changed', r, params).
       comp_ret (changed \<or> changed', BinaryOp l OpAnd r, params)))"
| "rewrite_selection W escape scope (BinaryOp l OpOr r) params =
     comp_bind (rewrite_selection W escape scope l params) (\<lambda>(changed, l, params).
     comp_bind (rewrite_selection W escape scope r params) (\<lambda>(changed', r, params).
       comp_ret (changed \<or> changed', BinaryOp l OpOr r, params)))"
| "rewrite_selection W escape scope (Nested e) params =
     comp_bind (rewrite_selection W escape scope e params) (\<lambda>(changed, e, params). comp_ret (changed, Nested e, params))"
| "rewrite_selection W escape scope (UnaryOp NotOp e) params =
     comp_bind (rewrite_selection W escape scope e params) (\<lambda>(changed, e, params). comp_ret (changed, UnaryOp NotOp e, params))"
| "rewrite_selection W escape scope (InList column es negated) params =
     comp_bind (rewrite_in_list W escape column es scope params) (\<lambda>(changed, column, es, params).
       comp_ret (changed, InList column es negated, params))"
| "rewrite_selection W escape scope (AnyOp l OpEq r o') params = rewrite_any W escape l r o' scope params"
| "rewrite_selection W escape scope e params =
     comp_bind (unsupported_predicate W e scope) (\<lambda>_. comp_ret (False, e, params))"

definition rewrite_predicate :: "'k sql_rewriter \<Rightarrow> ('k, 'q) rewrite_of \<Rightarrow> bool \<Rightarrow> table_scope \<Rightarrow> ('k, ('o, 'q) expr) rewrite_of" where
  "rewrite_predicate W rq escape scope e params =
     comp_bind (rewrite_selection W escape scope e params) (\<lambda>(changed, e, params).
     comp_bind (rewrite_nested_queries rq e params) (\<lambda>(changed', e, params).
       comp_ret (changed \<or> changed', e, params)))"

end
