(* ===== verification/Queries.thy ===== *)
theory Queries
  imports Predicates
begin

text \<open>
  Queries (\<open>crates/proxy/src/encrypt/query.rs\<close>): which protected columns the relations of a FROM
  clause bring into scope, the derived tables and join conditions that are rewritten, and the
  protected tables a \<open>COPY (query) TO\<close> reads. A recursion over nested queries is an argument of the
  functions that work on one level, and closed by a recursive function on queries.
\<close>

section \<open>Scopes\<close>

definition scoped_lookup :: "'k sql_rewriter \<Rightarrow> sql_session \<Rightarrow> object_name \<Rightarrow> ('k, (columns \<times> read_columns) option) rewriting" where
  "scoped_lookup W q name =
     (if search_path_trusted q \<or> length name > 1 then comp_ret (scoped (sr_catalog W) name)
      else comp_bind (if may_protect_reads (sr_catalog W) name then site W (SearchPath (sr_render W name)) else comp_ret ())
             (\<lambda>_. comp_ret None))"

type_synonym ('k, 'q) derived = "'q \<Rightarrow> ident option \<Rightarrow> ('k, scoped_table option) rewriting"

fun scope_factor :: "'k sql_rewriter \<Rightarrow> sql_session \<Rightarrow> ('k, 'q) derived \<Rightarrow> ('o, 'q) table_factor \<Rightarrow> ('k, table_scope) rewriting"
  and scope_of :: "'k sql_rewriter \<Rightarrow> sql_session \<Rightarrow> ('k, 'q) derived \<Rightarrow> ('o, 'q) table_with_joins \<Rightarrow> ('k, table_scope) rewriting"
  and scope_joins :: "'k sql_rewriter \<Rightarrow> sql_session \<Rightarrow> ('k, 'q) derived \<Rightarrow> ('o, 'q) join list \<Rightarrow> ('k, table_scope) rewriting" where
  "scope_factor W q derived (Table name alias _) =
     comp_bind (scoped_lookup W q name) (\<lambda>found.
       comp_ret (case found of
         None \<Rightarrow> []
       | Some (cols, reads) \<Rightarrow>
           [\<lparr>sct_alias = map_option normalize alias, sct_name = map normalize name, sct_columns = cols, sct_read_columns = reads\<rparr>]))"
| "scope_factor W q derived (NestedJoin inner _) = scope_of W q derived inner"
| "scope_factor W q derived (Derived subquery alias _) =
     comp_bind (derived subquery alias) (\<lambda>t. comp_ret (case t of Some t \<Rightarrow> [t] | None \<Rightarrow> []))"
| "scope_factor W q derived (Pivot _ _) = comp_ret []"
| "scope_factor W q derived (Unpivot _ _) = comp_ret []"
| "scope_factor W q derived (MatchRecognize _ _) = comp_ret []"
| "scope_factor W q derived (OtherFactor _) = comp_ret []"
| "scope_of W q derived (TableWithJoins factor js) =
     comp_bind (scope_factor W q derived factor) (\<lambda>ts. comp_bind (scope_joins W q derived js) (\<lambda>us. comp_ret (ts @ us)))"
| "scope_joins W q derived [] = comp_ret []"
| "scope_joins W q derived (Join factor _ _ # js) =
     comp_bind (scope_factor W q derived factor) (\<lambda>ts. comp_bind (scope_joins W q derived js) (\<lambda>us. comp_ret (ts @ us)))"

fun scope_tables :: "'k sql_rewriter \<Rightarrow> sql_session \<Rightarrow> ('k, 'q) derived \<Rightarrow> ('o, 'q) table_with_joins list \<Rightarrow> ('k, table_scope) rewriting" where
  "scope_tables W q derived [] = comp_ret []"
| "scope_tables W q derived (t # ts) =
     comp_bind (scope_of W q derived t) (\<lambda>us. comp_bind (scope_tables W q derived ts) (\<lambda>vs. comp_ret (us @ vs)))"

lemma scope_of_cong_all:
  fixes f :: "('o, 'q) table_factor" and t :: "('o, 'q) table_with_joins" and js :: "('o, 'q) join list"
  shows
  "(\<And>sub al. sub \<in> set_table_factor f \<Longrightarrow> derived sub al = derived' sub al) \<Longrightarrow> scope_factor W q derived f = scope_factor W q derived' f"
  "(\<And>sub al. sub \<in> set_table_with_joins t \<Longrightarrow> derived sub al = derived' sub al) \<Longrightarrow> scope_of W q derived t = scope_of W q derived' t"
  "(\<And>sub al j. j \<in> set js \<Longrightarrow> sub \<in> set_join j \<Longrightarrow> derived sub al = derived' sub al) \<Longrightarrow> scope_joins W q derived js = scope_joins W q derived' js"
  by (induction W q derived f and W q derived t and W q derived js rule: scope_factor_scope_of_scope_joins.induct)
    (fastforce simp: comp_bind_def)+

lemma scope_tables_cong [fundef_cong]:
  assumes "ts = us" and "\<And>t sub al. t \<in> set us \<Longrightarrow> sub \<in> set_table_with_joins t \<Longrightarrow> derived sub al = derived' sub al"
  shows "scope_tables W q derived ts = scope_tables W q derived' us"
  unfolding assms(1) using assms(2)
proof (induction us)
  case Nil
  then show ?case by simp
next
  case (Cons t us)
  have "scope_of W q derived t = scope_of W q derived' t" by (rule scope_of_cong_all(2)) (rule Cons.prems [of t], simp_all)
  moreover have "scope_tables W q derived us = scope_tables W q derived' us" by (rule Cons.IH) (rule Cons.prems, simp_all)
  ultimately show ?case by simp
qed

text \<open>The columns a derived table exposes under the names its projection gives them.\<close>

definition carry :: "table_scope \<Rightarrow> rstr \<Rightarrow> ident list \<Rightarrow> columns \<times> read_columns \<Rightarrow> columns \<times> read_columns" where
  "carry inner name idents acc =
     (case acc of (cols, reads) \<Rightarrow>
        (case transform_of inner idents of Some t \<Rightarrow> cols(name \<mapsto> t) | None \<Rightarrow> cols,
         if resolves_read inner idents then insert name reads else reads))"

definition carry_table :: "scoped_table \<Rightarrow> columns \<times> read_columns \<Rightarrow> columns \<times> read_columns" where
  "carry_table t acc = (fst acc ++ sct_columns t, snd acc \<union> sct_read_columns t)"

fun carry_item :: "table_scope \<Rightarrow> ('o, 'q) select_item \<Rightarrow> columns \<times> read_columns \<Rightarrow> columns \<times> read_columns" where
  "carry_item inner (UnnamedExpr e) acc =
     (case column_idents e of
        Some idents \<Rightarrow> if idents = [] then acc else carry inner (normalize (last idents)) idents acc
      | None \<Rightarrow> acc)"
| "carry_item inner (ExprWithAlias e alias) acc =
     (case column_idents e of Some idents \<Rightarrow> carry inner (normalize alias) idents acc | None \<Rightarrow> acc)"
| "carry_item inner (Wildcard _) acc = fold carry_table inner acc"
| "carry_item inner (QualifiedWildcard name _) acc = fold carry_table (filter (\<lambda>t. table_matches t name) inner) acc"

definition exposed_table :: "table_scope \<Rightarrow> ('o, 'q) select_item list \<Rightarrow> ident option \<Rightarrow> scoped_table option" where
  "exposed_table inner items alias =
     (case fold (carry_item inner) items (Map.empty, {}) of
        (cols, reads) \<Rightarrow>
          if cols = Map.empty \<and> reads = {} then None
          else Some \<lparr>sct_alias = map_option normalize alias, sct_name = (case alias of Some a \<Rightarrow> [normalize a] | None \<Rightarrow> []),
                 sct_columns = cols, sct_read_columns = reads\<rparr>)"


section \<open>Queries within a query\<close>

definition nested_in :: "'o query \<Rightarrow> 'o query set" where
  "nested_in query = set (ctes query) \<union> set_set_expr (body query) \<union> (\<Union>e \<in> set (order_by query). set_expr e)"

lemma nested_in_simps [simp]:
  "nested_in (Query cs b ord r) = set cs \<union> set_set_expr b \<union> (\<Union>e \<in> set ord. set_expr e)"
  by (simp add: nested_in_def)

definition nesting :: "('o query \<times> 'o query) set" where
  "nesting = {(inner, outer). inner \<in> nested_in outer}"

lemma wf_nesting: "wf nesting"
proof (rule wfUNIVI)
  fix P :: "'o query \<Rightarrow> bool" and x
  assume step: "\<forall>x. (\<forall>y. (y, x) \<in> nesting \<longrightarrow> P y) \<longrightarrow> P x"
  show "P x"
  proof (induction x rule: query.induct)
    case (Query cs b ord r)
    then have "P y" if "(y, query.Query cs b ord r) \<in> nesting" for y using that by (auto simp: nesting_def)
    then show ?case using step by blast
  qed
qed

function derived_scope :: "'k sql_rewriter \<Rightarrow> sql_session \<Rightarrow> ('k, 'o query) derived" where
  "derived_scope W q subquery alias =
     (case body subquery of
        SelectExpr select \<Rightarrow>
          comp_bind (scope_tables W q (derived_scope W q) (sel_from select)) (\<lambda>inner. comp_ret (exposed_table inner (projection select) alias))
      | _ \<Rightarrow> comp_ret None)"
  by pat_completeness auto
termination
proof (relation "inv_image nesting (\<lambda>(_, _, subquery, _). subquery)")
  show "wf (inv_image nesting (\<lambda>(_ :: 'k sql_rewriter, _ :: sql_session, subquery, _ :: ident option). subquery))"
    by (rule wf_inv_image [OF wf_nesting])
next
  fix W :: "'k sql_rewriter" and q :: sql_session and subquery :: "'o query" and outer_name sel t sub al
  assume "body subquery = SelectExpr sel" "t \<in> set (sel_from sel)" "sub \<in> set_table_with_joins t"
  then show "((W, q, sub, al), (W, q, subquery, outer_name)) \<in> inv_image nesting (\<lambda>(_, _, subquery, _). subquery)"
    by (cases sel) (auto simp: nesting_def nested_in_def)
qed

declare derived_scope.simps [simp del]

definition query_scope :: "'k sql_rewriter \<Rightarrow> sql_session \<Rightarrow> ('o, 'o query) table_with_joins list \<Rightarrow> ('k, table_scope) rewriting" where
  "query_scope W q ts = scope_tables W q (derived_scope W q) ts"


section \<open>Relations\<close>

fun join_condition :: "('o, 'q) join_operator \<Rightarrow> ('o, 'q) expr option" where
  "join_condition (Constrained _ (On e)) = Some e"
| "join_condition (Constrained _ (Using _)) = None"
| "join_condition (Constrained _ Natural) = None"
| "join_condition (Constrained _ NoConstraint) = None"
| "join_condition CrossJoin = None"
| "join_condition CrossApply = None"
| "join_condition OuterApply = None"

fun with_condition :: "('o, 'q) join_operator \<Rightarrow> ('o, 'q) expr option \<Rightarrow> ('o, 'q) join_operator" where
  "with_condition (Constrained k (On _)) (Some e) = Constrained k (On e)"
| "with_condition op _ = op"

fun derived_in_factor :: "('k, 'q) rewrite_of \<Rightarrow> ('k, ('o, 'q) table_factor) rewrite_of"
  and derived_in :: "('k, 'q) rewrite_of \<Rightarrow> ('k, ('o, 'q) table_with_joins) rewrite_of"
  and derived_in_joins :: "('k, 'q) rewrite_of \<Rightarrow> ('k, ('o, 'q) join list) rewrite_of" where
  "derived_in_factor rq (Derived subquery alias o') params =
     comp_bind (rq subquery params) (\<lambda>(changed, subquery, params). comp_ret (changed, Derived subquery alias o', params))"
| "derived_in_factor rq (NestedJoin inner o') params =
     comp_bind (derived_in rq inner params) (\<lambda>(changed, inner, params). comp_ret (changed, NestedJoin inner o', params))"
| "derived_in_factor rq factor params = comp_ret (False, factor, params)"
| "derived_in rq (TableWithJoins factor js) params =
     comp_bind (derived_in_factor rq factor params) (\<lambda>(changed, factor, params).
     comp_bind (derived_in_joins rq js params) (\<lambda>(changed', js, params).
       comp_ret (changed \<or> changed', TableWithJoins factor js, params)))"
| "derived_in_joins rq [] params = comp_ret (False, [], params)"
| "derived_in_joins rq (Join factor op o' # js) params =
     comp_bind (derived_in_factor rq factor params) (\<lambda>(changed, factor, params).
     comp_bind (derived_in_joins rq js params) (\<lambda>(changed', js, params).
       comp_ret (changed \<or> changed', Join factor op o' # js, params)))"

definition rewrite_derived_tables :: "('k, 'q) rewrite_of \<Rightarrow> ('k, ('o, 'q) table_with_joins list) rewrite_of" where
  "rewrite_derived_tables rq = walk (derived_in rq)"

fun rewrite_nested_join :: "'k sql_rewriter \<Rightarrow> bool \<Rightarrow> table_scope \<Rightarrow> ('k, ('o, 'q) table_factor) rewrite_of"
  and conditions_in :: "'k sql_rewriter \<Rightarrow> bool \<Rightarrow> table_scope \<Rightarrow> ('k, ('o, 'q) table_with_joins) rewrite_of"
  and conditions_in_joins :: "'k sql_rewriter \<Rightarrow> bool \<Rightarrow> table_scope \<Rightarrow> ('k, ('o, 'q) join list) rewrite_of" where
  "rewrite_nested_join W escape scope (NestedJoin inner o') params =
     comp_bind (conditions_in W escape scope inner params) (\<lambda>(changed, inner, params). comp_ret (changed, NestedJoin inner o', params))"
| "rewrite_nested_join W escape scope factor params = comp_ret (False, factor, params)"
| "conditions_in W escape scope (TableWithJoins factor js) params =
     comp_bind (rewrite_nested_join W escape scope factor params) (\<lambda>(changed, factor, params).
     comp_bind (conditions_in_joins W escape scope js params) (\<lambda>(changed', js, params).
       comp_ret (changed \<or> changed', TableWithJoins factor js, params)))"
| "conditions_in_joins W escape scope [] params = comp_ret (False, [], params)"
| "conditions_in_joins W escape scope (Join factor op o' # js) params =
     comp_bind (rewrite_nested_join W escape scope factor params) (\<lambda>(c, factor, params).
     comp_bind (walk_opt (rewrite_selection W escape scope) (join_condition op) params) (\<lambda>(c', e, params).
     comp_bind (conditions_in_joins W escape scope js params) (\<lambda>(c'', js, params).
       comp_ret (c \<or> c' \<or> c'', Join factor (with_condition op e) o' # js, params))))"

definition rewrite_join_conditions :: "'k sql_rewriter \<Rightarrow> bool \<Rightarrow> table_scope \<Rightarrow> ('k, ('o, 'q) table_with_joins list) rewrite_of" where
  "rewrite_join_conditions W escape scope = walk (conditions_in W escape scope)"


section \<open>Tables a copied query reads\<close>

definition record_copied_table :: "'k sql_rewriter \<Rightarrow> sql_session \<Rightarrow> object_name \<Rightarrow> rstr list \<Rightarrow> ('k, rstr list) rewriting" where
  "record_copied_table W q name found =
     comp_bind (comp_of (rewriter_reads_protected (sr_catalog W) (sr_render W) (search_path_trusted q) name)) (\<lambda>reads.
       comp_ret (if reads \<and> sr_render W name \<notin> set found then found @ [sr_render W name] else found))"

type_synonym ('k, 'q) collect = "'q \<Rightarrow> rstr list \<Rightarrow> ('k, rstr list) rewriting"

fun collect_copied_tables_from :: "'k sql_rewriter \<Rightarrow> sql_session \<Rightarrow> ('k, 'q) collect \<Rightarrow> ('o, 'q) table_factor \<Rightarrow> rstr list \<Rightarrow> ('k, rstr list) rewriting"
  and collect_tables :: "'k sql_rewriter \<Rightarrow> sql_session \<Rightarrow> ('k, 'q) collect \<Rightarrow> ('o, 'q) table_with_joins \<Rightarrow> rstr list \<Rightarrow> ('k, rstr list) rewriting"
  and collect_joins :: "'k sql_rewriter \<Rightarrow> sql_session \<Rightarrow> ('k, 'q) collect \<Rightarrow> ('o, 'q) join list \<Rightarrow> rstr list \<Rightarrow> ('k, rstr list) rewriting" where
  "collect_copied_tables_from W q cq (Table name _ _) found = record_copied_table W q name found"
| "collect_copied_tables_from W q cq (Derived subquery _ _) found = cq subquery found"
| "collect_copied_tables_from W q cq (NestedJoin inner _) found = collect_tables W q cq inner found"
| "collect_copied_tables_from W q cq (Pivot factor _) found = collect_copied_tables_from W q cq factor found"
| "collect_copied_tables_from W q cq (Unpivot factor _) found = collect_copied_tables_from W q cq factor found"
| "collect_copied_tables_from W q cq (MatchRecognize factor _) found = collect_copied_tables_from W q cq factor found"
| "collect_copied_tables_from W q cq (OtherFactor _) found = comp_ret found"
| "collect_tables W q cq (TableWithJoins factor js) found =
     comp_bind (collect_copied_tables_from W q cq factor found) (collect_joins W q cq js)"
| "collect_joins W q cq [] found = comp_ret found"
| "collect_joins W q cq (Join factor _ _ # js) found =
     comp_bind (collect_copied_tables_from W q cq factor found) (collect_joins W q cq js)"

fun collect_all :: "('k, 'a) collect \<Rightarrow> ('k, 'a list) collect" where
  "collect_all f [] found = comp_ret found"
| "collect_all f (a # as) found = comp_bind (f a found) (collect_all f as)"

fun collect_copied_tables_in :: "'k sql_rewriter \<Rightarrow> sql_session \<Rightarrow> ('k, 'q) collect \<Rightarrow> ('o, 'q) set_expr \<Rightarrow> rstr list \<Rightarrow> ('k, rstr list) rewriting" where
  "collect_copied_tables_in W q cq (SelectExpr sel) found = collect_all (collect_tables W q cq) (sel_from sel) found"
| "collect_copied_tables_in W q cq (QueryExpr query) found = cq query found"
| "collect_copied_tables_in W q cq (SetOperation l r _) found =
     comp_bind (collect_copied_tables_in W q cq l found) (collect_copied_tables_in W q cq r)"
| "collect_copied_tables_in W q cq (TableExpr table_name schema_name) found =
     (case table_name of
        None \<Rightarrow> comp_ret found
      | Some name \<Rightarrow>
          record_copied_table W q (map (\<lambda>part. \<lparr>id_value = part, id_quoted = False\<rparr>)
            ((case schema_name of Some s \<Rightarrow> [s] | None \<Rightarrow> []) @ [name])) found)"
| "collect_copied_tables_in W q cq (InsertExpr _) found = comp_ret found"
| "collect_copied_tables_in W q cq (UpdateExpr _) found = comp_ret found"
| "collect_copied_tables_in W q cq (Values _ _) found = comp_ret found"

lemma collect_all_cong [fundef_cong]:
  assumes "as = cs" "found = found'" and "\<And>a found. a \<in> set cs \<Longrightarrow> f a found = g a found"
  shows "collect_all f as found = collect_all g cs found'"
  unfolding assms(1,2) using assms(3)
proof (induction cs arbitrary: found')
  case Nil
  then show ?case by simp
next
  case (Cons c cs)
  then have "f c = g c" "collect_all f cs = collect_all g cs" by auto
  then show ?case by simp
qed

lemma collect_from_cong:
  fixes f :: "('o, 'q) table_factor" and t :: "('o, 'q) table_with_joins" and js :: "('o, 'q) join list"
  shows "(\<And>sub found. sub \<in> set_table_factor f \<Longrightarrow> cq sub found = cq' sub found) \<Longrightarrow> collect_copied_tables_from W q cq f found = collect_copied_tables_from W q cq' f found"
    and "(\<And>sub found. sub \<in> set_table_with_joins t \<Longrightarrow> cq sub found = cq' sub found) \<Longrightarrow> collect_tables W q cq t found = collect_tables W q cq' t found"
    and "(\<And>sub found j. j \<in> set js \<Longrightarrow> sub \<in> set_join j \<Longrightarrow> cq sub found = cq' sub found) \<Longrightarrow> collect_joins W q cq js found = collect_joins W q cq' js found"
  by (induction W q cq f found and W q cq t found and W q cq js found rule: collect_copied_tables_from_collect_tables_collect_joins.induct)
    (fastforce simp: comp_bind_def fun_eq_iff split: prod.splits sum.splits)+

lemma collect_in_cong [fundef_cong]:
  assumes "b = b'" and "\<And>sub found. sub \<in> set_set_expr b' \<Longrightarrow> cq sub found = cq' sub found"
  shows "collect_copied_tables_in W q cq b = collect_copied_tables_in W q cq' b'"
proof -
  have "collect_copied_tables_in W q cq b' found = collect_copied_tables_in W q cq' b' found" for found
    using assms(2)
  proof (induction W q cq b' found rule: collect_copied_tables_in.induct)
    case (1 W q cq sel found)
    have "collect_tables W q cq t f = collect_tables W q cq' t f" if "t \<in> set (sel_from sel)" for t f
      by (rule collect_from_cong(2)) (rule 1, use that in \<open>cases sel, auto\<close>)
    then show ?case by (simp cong: collect_all_cong)
  next
    case (3 W q cq l r o' found)
    have "collect_copied_tables_in W q cq r = collect_copied_tables_in W q cq' r" by (rule ext) (rule 3, rule 3, simp)
    moreover have "collect_copied_tables_in W q cq l found = collect_copied_tables_in W q cq' l found" by (rule 3) (rule 3, simp)
    ultimately show ?case by simp
  qed auto
  then show ?thesis using assms(1) by auto
qed

function collect_copied_tables :: "'k sql_rewriter \<Rightarrow> sql_session \<Rightarrow> ('k, 'o query) collect" where
  "collect_copied_tables W q query found =
     comp_bind (collect_all (collect_copied_tables W q) (ctes query) found) (\<lambda>found.
       collect_copied_tables_in W q (collect_copied_tables W q) (body query) found)"
  by pat_completeness auto
termination
proof (relation "inv_image nesting (\<lambda>(_, _, query, _). query)")
  show "wf (inv_image nesting (\<lambda>(_ :: 'k sql_rewriter, _ :: sql_session, query, _ :: rstr list). query))"
    by (rule wf_inv_image [OF wf_nesting])
qed (auto simp: nesting_def nested_in_def)

declare collect_copied_tables.simps [simp del]

definition copied_protected_tables :: "'k sql_rewriter \<Rightarrow> sql_session \<Rightarrow> 'o query \<Rightarrow> ('k, rstr list) rewriting" where
  "copied_protected_tables W q query = collect_copied_tables W q query []"

end
