(* ===== verification/Rewriting.thy ===== *)
theory Rewriting
  imports Queries
begin

text \<open>
  The rewrite of one statement (\<open>QueryRewriter::rewrite_statement\<close> and the functions it dispatches to
  in \<open>crates/proxy/src/encrypt/statement.rs\<close>, \<open>rewrite_query\<close> and \<open>rewrite_select\<close> in
  \<open>encrypt/query.rs\<close>). Every function returns whether it changed its tree, the tree, and the parameters
  recorded for Bind.
\<close>

section \<open>Select\<close>

fun item_nested :: "('k, 'q) rewrite_of \<Rightarrow> ('k, ('o, 'q) select_item) rewrite_of" where
  "item_nested rq (UnnamedExpr e) params =
     comp_bind (rewrite_nested_queries rq e params) (\<lambda>(changed, e, params). comp_ret (changed, UnnamedExpr e, params))"
| "item_nested rq (ExprWithAlias e a) params =
     comp_bind (rewrite_nested_queries rq e params) (\<lambda>(changed, e, params). comp_ret (changed, ExprWithAlias e a, params))"
| "item_nested rq item params = comp_ret (False, item, params)"

fun join_nested :: "('k, 'q) rewrite_of \<Rightarrow> ('k, ('o, 'q) join) rewrite_of" where
  "join_nested rq (Join factor op o') params =
     comp_bind (walk_opt (rewrite_nested_queries rq) (join_condition op) params) (\<lambda>(changed, e, params).
       comp_ret (changed, Join factor (with_condition op e) o', params))"

fun table_nested :: "('k, 'q) rewrite_of \<Rightarrow> ('k, ('o, 'q) table_with_joins) rewrite_of" where
  "table_nested rq (TableWithJoins factor js) params =
     comp_bind (walk (join_nested rq) js params) (\<lambda>(changed, js, params). comp_ret (changed, TableWithJoins factor js, params))"

text \<open>The walk over \<open>select_expressions\<close>: projection, grouping, join conditions.\<close>

definition rewrite_select_expressions :: "('k, 'q) rewrite_of \<Rightarrow> ('k, ('o, 'q) select) rewrite_of" where
  "rewrite_select_expressions rq sel params =
     (case sel of Select items ts sl hv grp o' \<Rightarrow>
        comp_bind (walk (item_nested rq) items params) (\<lambda>(c, items, params).
        comp_bind (walk_opt (walk (rewrite_nested_queries rq)) grp params) (\<lambda>(c', grp, params).
        comp_bind (walk (table_nested rq) ts params) (\<lambda>(c'', ts, params).
          comp_ret (c \<or> c' \<or> c'', Select items ts sl hv grp o', params)))))"

fun computed_sites :: "'k sql_rewriter \<Rightarrow> table_scope \<Rightarrow> ('o, 'q) select_item list \<Rightarrow> ('k, unit) rewriting" where
  "computed_sites W scope [] = comp_ret ()"
| "computed_sites W scope (item # items) =
     comp_bind (case computed_protected_column item scope of
         Some (column, e) \<Rightarrow> site W (ComputedColumn column (expr_shape e))
       | None \<Rightarrow> comp_ret ()) (\<lambda>_. computed_sites W scope items)"

definition rewrite_select :: "'k sql_rewriter \<Rightarrow> sql_session \<Rightarrow> ('k, 'o query) rewrite_of \<Rightarrow> ('k, ('o, 'o query) select) rewrite_of" where
  "rewrite_select W q rq sel params =
     (case sel of Select items ts sl hv grp o' \<Rightarrow>
        comp_bind (query_scope W q ts) (\<lambda>scope.
        comp_bind (rewrite_join_conditions W (escape_strings q) scope ts params) (\<lambda>(c1, ts, params).
        comp_bind (rewrite_derived_tables rq ts params) (\<lambda>(c2, ts, params).
        comp_bind (walk_opt (rewrite_predicate W rq (escape_strings q) scope) sl params) (\<lambda>(c3, sl, params).
        comp_bind (walk_opt (rewrite_predicate W rq (escape_strings q) scope) hv params) (\<lambda>(c4, hv, params).
        comp_bind (computed_sites W scope items) (\<lambda>_.
        comp_bind (rewrite_select_expressions rq (Select items ts sl hv grp o') params) (\<lambda>(c5, sel, params).
          comp_ret (c1 \<or> c2 \<or> c3 \<or> c4 \<or> c5, sel, params)))))))))"


section \<open>Statements\<close>

definition table_columns :: "'k sql_rewriter \<Rightarrow> sql_session \<Rightarrow> object_name \<Rightarrow> ('k, columns option) rewriting" where
  "table_columns W q name = comp_of (rewriter_table (sr_catalog W) (sr_render W) (search_path_trusted q) name)"

definition update_columns :: "'k sql_rewriter \<Rightarrow> sql_session \<Rightarrow> ('o, 'q) table_with_joins \<Rightarrow> ('k, columns option) rewriting" where
  "update_columns W q t = (case relation t of Table name _ _ \<Rightarrow> table_columns W q name | _ \<Rightarrow> comp_ret None)"

definition assignment_nested :: "('k, 'q) rewrite_of \<Rightarrow> ('k, ('o, 'q) assignment) rewrite_of" where
  "assignment_nested rq a params =
     comp_bind (rewrite_nested_queries rq (assigned_value a) params) (\<lambda>(changed, e, params).
       comp_ret (changed, Assignment (assigned a) e, params))"

definition option_list :: "'a option \<Rightarrow> 'a list" where
  "option_list a = (case a of None \<Rightarrow> [] | Some a \<Rightarrow> [a])"

definition rewrite_update :: "'k sql_rewriter \<Rightarrow> sql_session \<Rightarrow> ('k, 'o query) rewrite_of \<Rightarrow> ('o, 'o query) table_with_joins
    \<Rightarrow> ('o, 'o query) assignment list \<Rightarrow> ('o, 'o query) table_with_joins option \<Rightarrow> 'o qexpr option \<Rightarrow> 'o \<Rightarrow> sql_params
    \<Rightarrow> ('k, bool \<times> ('o, 'o query) statement \<times> sql_params) rewriting" where
  "rewrite_update W q rq t as fr sl o' params =
     comp_bind (update_columns W q t) (\<lambda>cols.
     comp_bind (case cols of
         None \<Rightarrow> comp_ret (False, as, params)
       | Some cols \<Rightarrow>
           seal_assignments W (escape_strings q)
             (assignment_scope_of cols (update_row W \<lparr>ut_table = t, ut_from = fr, ut_selection = sl, ut_assignments = as\<rparr> cols)) as params)
       (\<lambda>(c1, as, params).
     comp_bind (query_scope W q (t # option_list fr)) (\<lambda>scope.
     comp_bind (conditions_in W (escape_strings q) scope t params) (\<lambda>(c2, t, params).
     comp_bind (walk_opt (conditions_in W (escape_strings q) scope) fr params) (\<lambda>(c3, fr, params).
     comp_bind (walk_opt (rewrite_predicate W rq (escape_strings q) scope) sl params) (\<lambda>(c4, sl, params).
     comp_bind (walk (assignment_nested rq) as params) (\<lambda>(c5, as, params).
     comp_bind (derived_in rq t params) (\<lambda>(c6, t, params).
     comp_bind (walk_opt (derived_in rq) fr params) (\<lambda>(c7, fr, params).
       comp_ret (c1 \<or> c2 \<or> c3 \<or> c4 \<or> c5 \<or> c6 \<or> c7, Update t as fr sl o', params))))))))))"

fun delete_tables :: "('o, 'q) from_table \<Rightarrow> ('o, 'q) table_with_joins list" where
  "delete_tables (WithFromKeyword ts) = ts"
| "delete_tables (WithoutKeyword ts) = ts"

fun delete_tables_mut :: "('o, 'q) from_table \<Rightarrow> ('o, 'q) table_with_joins list \<Rightarrow> ('o, 'q) from_table" where
  "delete_tables_mut (WithFromKeyword _) ts = WithFromKeyword ts"
| "delete_tables_mut (WithoutKeyword _) ts = WithoutKeyword ts"

definition rewrite_delete :: "'k sql_rewriter \<Rightarrow> sql_session \<Rightarrow> ('k, 'o query) rewrite_of \<Rightarrow> ('o, 'o query) from_table
    \<Rightarrow> ('o, 'o query) table_with_joins list option \<Rightarrow> 'o qexpr option \<Rightarrow> 'o \<Rightarrow> sql_params
    \<Rightarrow> ('k, bool \<times> ('o, 'o query) statement \<times> sql_params) rewriting" where
  "rewrite_delete W q rq fr us sl o' params =
     comp_bind (query_scope W q (delete_tables fr @ concat (option_list us))) (\<lambda>scope.
     comp_bind (walk_opt (rewrite_predicate W rq (escape_strings q) scope) sl params) (\<lambda>(c1, sl, params).
     comp_bind (rewrite_join_conditions W (escape_strings q) scope (delete_tables fr) params) (\<lambda>(c2, ts, params).
     comp_bind (walk_opt (rewrite_join_conditions W (escape_strings q) scope) us params) (\<lambda>(c3, us, params).
     comp_bind (rewrite_derived_tables rq ts params) (\<lambda>(c4, ts, params).
     comp_bind (walk_opt (rewrite_derived_tables rq) us params) (\<lambda>(c5, us, params).
       comp_ret (c1 \<or> c2 \<or> c3 \<or> c4 \<or> c5, Delete (delete_tables_mut fr ts) us sl o', params)))))))"

definition refuse_copy_table :: "'k sql_rewriter \<Rightarrow> sql_session \<Rightarrow> object_name \<Rightarrow> bool \<Rightarrow> ('k, unit) rewriting" where
  "refuse_copy_table W q name to =
     comp_bind (if to then comp_of (rewriter_reads_protected (sr_catalog W) (sr_render W) (search_path_trusted q) name)
       else comp_bind (table_columns W q name) (\<lambda>cols. comp_ret (cols \<noteq> None))) (\<lambda>reached.
     if reached then site W (Copy (sr_render W name) to) else comp_ret ())"

definition rewrite_copy_query :: "'k sql_rewriter \<Rightarrow> sql_session \<Rightarrow> ('k, 'o query) rewrite_of \<Rightarrow> bool \<Rightarrow> ('k, 'o query) rewrite_of" where
  "rewrite_copy_query W q rq to query params =
     comp_bind (copied_protected_tables W q query) (\<lambda>found.
     comp_bind (site_each W CopyQuery found) (\<lambda>_.
       if to then rq query params else comp_ret (False, query, params)))"

definition rewrite_copy :: "'k sql_rewriter \<Rightarrow> sql_session \<Rightarrow> ('k, 'o query) rewrite_of \<Rightarrow> bool \<Rightarrow> ('k, ('o, 'o query) copy_source) rewrite_of" where
  "rewrite_copy W q rq to source params =
     (case source of
        CopyTable name o' \<Rightarrow> comp_bind (refuse_copy_table W q name to) (\<lambda>_. comp_ret (False, source, params))
      | CopyRows query \<Rightarrow>
          comp_bind (rewrite_copy_query W q rq to query params) (\<lambda>(changed, query, params). comp_ret (changed, CopyRows query, params)))"

definition refuse_merge :: "'k sql_rewriter \<Rightarrow> sql_session \<Rightarrow> ('o, 'q) table_factor \<Rightarrow> ('k, unit) rewriting" where
  "refuse_merge W q factor =
     (case factor of
        Table name _ _ \<Rightarrow>
          comp_bind (table_columns W q name) (\<lambda>cols.
            if cols \<noteq> None then site W (Unsupported (sr_render W name) (bs ''MERGE'')) else comp_ret ())
      | _ \<Rightarrow> comp_ret ())"

definition write_target :: "('o, 'q) statement \<Rightarrow> object_name option" where
  "write_target st =
     (case st of
        Insert name _ _ _ _ _ \<Rightarrow> Some name
      | Update t _ _ _ _ \<Rightarrow> (case relation t of Table name _ _ \<Rightarrow> Some name | _ \<Rightarrow> None)
      | Merge factor _ \<Rightarrow> (case factor of Table name _ _ \<Rightarrow> Some name | _ \<Rightarrow> None)
      | _ \<Rightarrow> None)"

definition refuse_prepare :: "'k sql_rewriter \<Rightarrow> sql_session \<Rightarrow> ('o, 'q) statement \<Rightarrow> ('k, unit) rewriting" where
  "refuse_prepare W q st =
     (case write_target st of
        None \<Rightarrow> comp_ret ()
      | Some name \<Rightarrow>
          comp_bind (table_columns W q name) (\<lambda>cols.
            if cols \<noteq> None then site W (Unsupported (sr_render W name) (bs ''PREPARE'')) else comp_ret ()))"

definition insert_conflict_row :: "'k sql_rewriter \<Rightarrow> object_name \<Rightarrow> ident list \<Rightarrow> 'o query option \<Rightarrow> ('o, 'o query) on_insert option \<Rightarrow> assignment_row" where
  "insert_conflict_row W name idents source on_ins =
     (case on_ins of
        Some (OnConflict target (DoUpdate as _)) \<Rightarrow> conflict_row W name idents source target as
      | Some (DuplicateKeyUpdate as) \<Rightarrow> conflict_row W name idents source None as
      | _ \<Rightarrow> KnownRow NoRow)"

definition rewrite_on_insert :: "'k sql_rewriter \<Rightarrow> ('k, 'q) rewrite_of \<Rightarrow> bool \<Rightarrow> assignment_scope \<Rightarrow> table_scope \<Rightarrow> ('k, ('o, 'q) on_insert) rewrite_of" where
  "rewrite_on_insert W rq escape target scope on_ins params =
     (case on_ins of
        OnConflict ct (DoUpdate as sl) \<Rightarrow>
          comp_bind (seal_assignments W escape target as params) (\<lambda>(c1, as, params).
          comp_bind (walk_opt (rewrite_predicate W rq escape scope) sl params) (\<lambda>(c2, sl, params).
            comp_ret (c1 \<or> c2, OnConflict ct (DoUpdate as sl), params)))
      | DuplicateKeyUpdate as \<Rightarrow>
          comp_bind (seal_assignments W escape target as params) (\<lambda>(c1, as, params).
            comp_ret (c1, DuplicateKeyUpdate as, params))
      | _ \<Rightarrow> comp_ret (False, on_ins, params))"

definition rewrite_insert :: "'k sql_rewriter \<Rightarrow> sql_session \<Rightarrow> ('k, 'o query) rewrite_of \<Rightarrow> object_name \<Rightarrow> ident option \<Rightarrow> ident list
    \<Rightarrow> 'o query option \<Rightarrow> ('o, 'o query) on_insert option \<Rightarrow> 'o \<Rightarrow> sql_params \<Rightarrow> ('k, bool \<times> ('o, 'o query) statement \<times> sql_params) rewriting" where
  "rewrite_insert W q rq name alias idents source on_ins o' params =
     comp_bind (table_columns W q name) (\<lambda>found.
       case found of
         None \<Rightarrow> comp_ret (False, Insert name alias idents source on_ins o', params)
       | Some cols \<Rightarrow>
           comp_bind (if idents = []
             then comp_bind (site W (NoColumnList (sr_render W name))) (\<lambda>_. comp_ret (nothing_sealed, source, params))
             else rewrite_insert_values W (escape_strings q) name idents source cols params) (\<lambda>(sealed, source, params).
           comp_bind (walk_opt (rewrite_on_insert W rq (escape_strings q)
               \<lparr>as_row = insert_conflict_row W name idents source on_ins, as_columns = cols, as_sealed = sealed\<rparr>
               [\<lparr>sct_alias = map_option normalize alias, sct_name = map normalize name, sct_columns = cols,
                 sct_read_columns = read_columns_of (sr_catalog W) name\<rparr>]) on_ins params) (\<lambda>(changed, on_ins, params).
             comp_ret (sv_changed sealed \<or> changed, Insert name alias idents source on_ins o', params))))"

definition rewrite_statement :: "'k sql_rewriter \<Rightarrow> sql_session \<Rightarrow> ('k, 'o query) rewrite_of \<Rightarrow> ('k, ('o, 'o query) statement) rewrite_of" where
  "rewrite_statement W q rq st params =
     (case st of
        Insert name alias idents source on_ins o' \<Rightarrow> rewrite_insert W q rq name alias idents source on_ins o' params
      | Update t as fr sl o' \<Rightarrow> rewrite_update W q rq t as fr sl o' params
      | QueryStatement query \<Rightarrow> comp_bind (rq query params) (\<lambda>(changed, query, params). comp_ret (changed, QueryStatement query, params))
      | Delete fr us sl o' \<Rightarrow> rewrite_delete W q rq fr us sl o' params
      | CopyStatement source to o' \<Rightarrow>
          comp_bind (rewrite_copy W q rq to source params) (\<lambda>(changed, source, params). comp_ret (changed, CopyStatement source to o', params))
      | Merge factor o' \<Rightarrow> comp_bind (refuse_merge W q factor) (\<lambda>_. comp_ret (False, st, params))
      | Prepare inner o' \<Rightarrow> comp_bind (refuse_prepare W q inner) (\<lambda>_. comp_ret (False, st, params))
      | OtherStatement o' \<Rightarrow> comp_ret (False, st, params))"

fun rewrite_set_expr :: "'k sql_rewriter \<Rightarrow> sql_session \<Rightarrow> ('k, 'o query) rewrite_of \<Rightarrow> ('k, ('o, 'o query) set_expr) rewrite_of" where
  "rewrite_set_expr W q rq (SelectExpr sel) params =
     comp_bind (rewrite_select W q rq sel params) (\<lambda>(changed, sel, params). comp_ret (changed, SelectExpr sel, params))"
| "rewrite_set_expr W q rq (QueryExpr query) params =
     comp_bind (rq query params) (\<lambda>(changed, query, params). comp_ret (changed, QueryExpr query, params))"
| "rewrite_set_expr W q rq (SetOperation l r o') params =
     comp_bind (rewrite_set_expr W q rq l params) (\<lambda>(c, l, params).
     comp_bind (rewrite_set_expr W q rq r params) (\<lambda>(c', r, params).
       comp_ret (c \<or> c', SetOperation l r o', params)))"
| "rewrite_set_expr W q rq (InsertExpr st) params =
     comp_bind (rewrite_statement W q rq st params) (\<lambda>(changed, st, params). comp_ret (changed, InsertExpr st, params))"
| "rewrite_set_expr W q rq (UpdateExpr st) params =
     comp_bind (rewrite_statement W q rq st params) (\<lambda>(changed, st, params). comp_ret (changed, UpdateExpr st, params))"
| "rewrite_set_expr W q rq (Values rows o') params = comp_ret (False, Values rows o', params)"
| "rewrite_set_expr W q rq (TableExpr name schema) params = comp_ret (False, TableExpr name schema, params)"

end
