(* ===== verification/RewriteQuery.thy ===== *)
theory RewriteQuery
  imports Rewriting
begin

text \<open>
  The recursion over nested queries (\<open>QueryRewriter::rewrite_query\<close>). Rewriting a predicate or an
  assignment replaces columns and values only, so the queries found in the result are queries of the
  original; this is why the recursion ends, and what the termination proof of \<open>rewrite_query\<close> rests on.
\<close>

section \<open>What rewriting leaves of the nested queries\<close>

definition keeps_queries :: "('a \<Rightarrow> 'q set) \<Rightarrow> ('k, 'a) rewrite_of \<Rightarrow> bool" where
  "keeps_queries S f \<longleftrightarrow> (\<forall>a params w c a' params' w'. f a params w = (Ok (c, a', params'), w') \<longrightarrow> S a' \<subseteq> S a)"

lemma keeps_queriesD: "keeps_queries S f \<Longrightarrow> f a params w = (Ok (c, a', params'), w') \<Longrightarrow> S a' \<subseteq> S a"
  unfolding keeps_queries_def by blast

lemma bind3E:
  assumes "comp_bind m (\<lambda>(x, y, z). f x y z) s = (Ok b, t)"
  obtains x y z s' where "m s = (Ok (x, y, z), s')" and "f x y z s' = (Ok b, t)"
  using assms by (auto simp: comp_bind_eq_Ok)

lemma walk_keeps:
  assumes "keeps_queries S f" and "walk f as params w = (Ok (c, as', params'), w')"
  shows "(\<Union>a \<in> set as'. S a) \<subseteq> (\<Union>a \<in> set as. S a)"
  using assms(2)
proof (induction as arbitrary: params w c as' params' w')
  case Nil
  then show ?case by simp
next
  case (Cons a as)
  then show ?case
    by (fastforce simp: comp_bind_eq_Ok split: prod.splits dest: keeps_queriesD [OF assms(1)])
qed

lemma walk_opt_keeps:
  assumes "keeps_queries S f" and "walk_opt f a params w = (Ok (c, a', params'), w')"
  shows "(\<Union>a \<in> set_option a'. S a) \<subseteq> (\<Union>a \<in> set_option a. S a)"
  using assms(2) by (auto simp: walk_opt_def comp_bind_eq_Ok split: option.splits prod.splits dest!: keeps_queriesD [OF assms(1)])

lemma bytea_literal_queries [simp]: "set_expr (bytea_literal x v) = {}"
  by (simp add: bytea_literal_def)

lemma index_prefix_queries [simp]: "set_expr (index_prefix e) = set_expr e"
  by (simp add: index_prefix_def)

lemma index_value_keeps: "index_value W e t params w = (Ok (e', params'), w') \<Longrightarrow> set_expr e' \<subseteq> set_expr e"
  by (auto simp: index_value_def comp_bind_eq_Ok comp_of_def split: option.splits)

lemma rewrite_equality_keeps:
  "rewrite_equality W escape l r t params w = (Ok (c, l', r', params'), w') \<Longrightarrow> set_expr l' \<subseteq> set_expr l \<and> set_expr r' \<subseteq> set_expr r"
  by (auto simp: rewrite_equality_def Let_def comp_bind_eq_Ok split: if_splits dest!: index_value_keeps)

lemma index_values_keeps:
  assumes "index_values W t es params w = (Ok (c, es', params'), w')"
  shows "(\<Union>e \<in> set es'. set_expr e) \<subseteq> (\<Union>e \<in> set es. set_expr e)"
proof (rule walk_keeps [OF _ assms [unfolded index_values_def]])
  show "keeps_queries set_expr (\<lambda>e params. comp_bind (index_value W e t params) (\<lambda>(e, params). comp_ret (True, e, params)))"
    by (auto simp: keeps_queries_def comp_bind_eq_Ok dest!: index_value_keeps)
qed

lemma rewrite_in_list_keeps:
  "rewrite_in_list W escape l es scope params w = (Ok (c, l', es', params'), w') \<Longrightarrow>
     set_expr l' \<subseteq> set_expr l \<and> (\<Union>e \<in> set es'. set_expr e) \<subseteq> (\<Union>e \<in> set es. set_expr e)"
  by (auto simp: rewrite_in_list_def Let_def comp_bind_eq_Ok split: if_splits option.splits prod.splits dest!: index_values_keeps)

lemma rewrite_any_keeps:
  "rewrite_any W escape l r o' scope params w = (Ok (c, e', params'), w') \<Longrightarrow> set_expr e' \<subseteq> set_expr l \<union> set_expr r"
  by (cases r) (auto simp: rewrite_any_def comp_bind_eq_Ok split: option.splits prod.splits dest!: rewrite_in_list_keeps, blast+)

lemma rewrite_selection_keeps: "keeps_queries set_expr (rewrite_selection W escape scope)"
proof -
  have "rewrite_selection W escape scope e params w = (Ok (c, e', params'), w') \<Longrightarrow> set_expr e' \<subseteq> set_expr e" for e params w c e' params' w'
  proof (induction W escape scope e params arbitrary: w c e' params' w' rule: rewrite_selection.induct)
    case (1 W escape scope l r params)
    then show ?case
      by (auto simp: comp_bind_eq_Ok split: option.splits dest!: rewrite_equality_keeps)
  next
    case (7 W escape scope l r o' params)
    then show ?case by (auto dest!: rewrite_any_keeps)
  qed (fastforce simp: comp_bind_eq_Ok dest!: rewrite_in_list_keeps)+
  then show ?thesis unfolding keeps_queries_def by blast
qed

lemma with_condition_queries:
  "(\<Union>a \<in> set_option e. set_expr a) \<subseteq> (\<Union>a \<in> set_option (join_condition op). set_expr a) \<Longrightarrow>
     set_join_operator (with_condition op e) \<subseteq> set_join_operator op"
  by (cases op rule: join_condition.cases; cases e) auto

lemma conditions_keep:
  fixes f :: "('o, 'q) table_factor" and t :: "('o, 'q) table_with_joins" and js :: "('o, 'q) join list"
  shows "rewrite_nested_join W escape scope f params w = (Ok (c, f', params'), w') \<Longrightarrow> set_table_factor f' \<subseteq> set_table_factor f"
    and "conditions_in W escape scope t params w = (Ok (c, t', params'), w') \<Longrightarrow> set_table_with_joins t' \<subseteq> set_table_with_joins t"
    and "conditions_in_joins W escape scope js params w = (Ok (c, js', params'), w') \<Longrightarrow> (\<Union>j \<in> set js'. set_join j) \<subseteq> (\<Union>j \<in> set js. set_join j)"
proof (induction W escape scope f params and W escape scope t params and W escape scope js params
    arbitrary: w c f' params' w' and w c t' params' w' and w c js' params' w' rule: rewrite_nested_join_conditions_in_conditions_in_joins.induct)
  case (1 W escape scope inner o' params)
  from "1.prems" show ?case
    unfolding rewrite_nested_join.simps by (elim bind3E) (drule "1.IH", auto)
next
  case (3 W escape scope factor js params)
  from "3.prems" [unfolded conditions_in.simps] show ?case
  proof (elim bind3E)
    fix c1 f1 p1 w1 c2 js1 p2 w2
    assume f: "rewrite_nested_join W escape scope factor params w = (Ok (c1, f1, p1), w1)"
      and j: "conditions_in_joins W escape scope js p1 w1 = (Ok (c2, js1, p2), w2)"
      and "comp_ret (c1 \<or> c2, TableWithJoins f1 js1, p2) w2 = (Ok (c, t', params'), w')"
    then have "t' = TableWithJoins f1 js1" by simp
    then show ?thesis using "3.IH"(1) [OF f] "3.IH"(2) [OF j] by (simp add: Un_mono le_supI1 le_supI2)
  qed
next
  case (5 W escape scope factor op o' js params)
  from "5.prems" [unfolded conditions_in_joins.simps] show ?case
  proof (elim bind3E)
    fix c1 f1 p1 w1 c2 e1 p2 w2 c3 js1 p3 w3
    assume f: "rewrite_nested_join W escape scope factor params w = (Ok (c1, f1, p1), w1)"
      and e: "walk_opt (rewrite_selection W escape scope) (join_condition op) p1 w1 = (Ok (c2, e1, p2), w2)"
      and j: "conditions_in_joins W escape scope js p2 w2 = (Ok (c3, js1, p3), w3)"
      and "comp_ret (c1 \<or> c2 \<or> c3, Join f1 (with_condition op e1) o' # js1, p3) w3 = (Ok (c, js', params'), w')"
    then have "js' = Join f1 (with_condition op e1) o' # js1" by simp
    then show ?thesis
      using "5.IH"(1) [OF f] "5.IH"(2) [OF j] with_condition_queries [OF walk_opt_keeps [OF rewrite_selection_keeps e]]
      by (simp add: Un_mono le_supI1 le_supI2)
  qed
qed simp_all

lemma conditions_in_keeps: "keeps_queries set_table_with_joins (conditions_in W escape scope)"
  unfolding keeps_queries_def using conditions_keep(2) by blast

text \<open>A sealed value is a literal.\<close>

lemma sealed_literal_queries [simp]: "set_expr (sealed_literal x t v) = {}"
  by (simp add: sealed_literal_def split: wire_form.splits)

lemma seal_expr_keeps: "seal_expr W escape e t column rsrc params w = (Ok (c, e', params'), w') \<Longrightarrow> set_expr e' \<subseteq> set_expr e"
  by (auto simp: seal_expr_def seal_literal_def comp_bind_eq_Ok split: option.splits if_splits row_key_source.splits)

lemma element_queries: "(\<Union>a \<in> set (es[p := e]). set_expr a) \<subseteq> (\<Union>a \<in> set es. set_expr a)"
  if "set_expr e \<subseteq> set_expr (es ! p)" for es :: "('o, 'q) expr list"
proof (cases "p < length es")
  case True
  then have "set_expr (es ! p) \<subseteq> (\<Union>a \<in> set es. set_expr a)" by (auto intro: nth_mem)
  then show ?thesis using that set_update_subset_insert [of es p e] by blast
qed (simp add: list_update_beyond)

lemma seal_elements_keeps:
  "seal_elements W escape target ps es params w = (Ok (c, es', params'), w') \<Longrightarrow>
     length es' = length es \<and> (\<Union>e \<in> set es'. set_expr e) \<subseteq> (\<Union>e \<in> set es. set_expr e)"
proof (induction W escape target ps es params arbitrary: w c es' params' w' rule: seal_elements.induct)
  case (1 W escape target es params)
  then show ?case by simp
next
  case (2 W escape target p i t ps es params)
  from "2.prems" obtain rsrc w1 where r: "row_of W (as_row target) w = (Ok rsrc, w1)" by (auto simp: comp_bind_eq_Ok)
  show ?case
  proof (cases "re_stores_a_sealed_value target (es ! p) (normalize i)")
    case True
    with "2.prems" r show ?thesis using "2.IH"(1) by simp
  next
    case False
    with "2.prems" r have "comp_bind (seal_expr W escape (es ! p) t (id_value i) rsrc params) (\<lambda>(changed, e, params).
         comp_bind (seal_elements W escape target ps (es[p := e]) params) (\<lambda>(changed', es, params). comp_ret (changed \<or> changed', es, params))) w1
       = (Ok (c, es', params'), w')" by simp
    then show ?thesis
    proof (elim bind3E)
      fix c1 e p1 w2 c2 es2 p2 w3
      assume e: "seal_expr W escape (es ! p) t (id_value i) rsrc params w1 = (Ok (c1, e, p1), w2)"
        and es2: "seal_elements W escape target ps (es[p := e]) p1 w2 = (Ok (c2, es2, p2), w3)"
        and "comp_ret (c1 \<or> c2, es2, p2) w3 = (Ok (c, es', params'), w')"
      then have "es' = es2" by simp
      then show ?thesis using "2.IH"(2) [OF False es2] subset_trans [OF _ element_queries [OF seal_expr_keeps [OF e]]] by simp
    qed
  qed
qed

lemma single_queries: "\<Union> (set_expr ` set es) \<subseteq> A \<Longrightarrow> length es = Suc 0 \<Longrightarrow> set_expr (hd es) \<subseteq> A"
  by (cases es) auto

lemma seal_tuple_keeps:
  assumes "seal_tuple_assignment W escape names e target params w = (Ok (c, e', params'), w')"
  shows "set_expr e' \<subseteq> set_expr e"
proof (cases "protected_names (as_columns target) names = []")
  case False
  from False assms show ?thesis
    by (cases e) (auto simp: seal_tuple_assignment_def Let_def comp_bind_eq_Ok split: if_splits dest!: seal_elements_keeps dest: single_queries [THEN subsetD])
qed (use assms in \<open>simp add: seal_tuple_assignment_def\<close>)

lemma seal_assignment_keeps:
  "seal_assignment W escape target lhs e params w = (Ok (c, e', params'), w') \<Longrightarrow> set_expr e' \<subseteq> set_expr e"
  by (auto simp: seal_assignment_def comp_bind_eq_Ok split: assignment_target.splits if_splits option.splits
      dest!: seal_tuple_keeps seal_expr_keeps)

lemma seal_assignments_keeps:
  "seal_assignments W escape target as params w = (Ok (c, as', params'), w') \<Longrightarrow> (\<Union>a \<in> set as'. set_assignment a) \<subseteq> (\<Union>a \<in> set as. set_assignment a)"
proof (induction W escape target as params arbitrary: w c as' params' w' rule: seal_assignments.induct)
  case (2 W escape target lhs e as params)
  from "2.prems" [unfolded seal_assignments.simps] show ?case
  proof (elim bind3E)
    fix c1 e1 p1 w1 c2 as1 p2 w2
    assume e: "seal_assignment W escape target lhs e params w = (Ok (c1, e1, p1), w1)"
      and r: "seal_assignments W escape target as p1 w1 = (Ok (c2, as1, p2), w2)"
      and "comp_ret (c1 \<or> c2, Assignment lhs e1 # as1, p2) w2 = (Ok (c, as', params'), w')"
    then have "as' = Assignment lhs e1 # as1" by simp
    then show ?thesis using "2.IH" [OF r] seal_assignment_keeps [OF e] by (simp add: Un_mono le_supI1 le_supI2)
  qed
qed simp


section \<open>A rewrite depends on the nested queries only\<close>

abbreviation agree :: "'q set \<Rightarrow> ('k, 'q) rewrite_of \<Rightarrow> ('k, 'q) rewrite_of \<Rightarrow> bool" where
  "agree S rq rq' \<equiv> \<forall>q \<in> S. rq q = rq' q"

lemma bind_cong:
  "m s = m' s \<Longrightarrow> (\<And>a t. m' s = (Ok a, t) \<Longrightarrow> f a t = f' a t) \<Longrightarrow> comp_bind m f s = comp_bind m' f' s"
  by (auto simp: comp_bind_def split: prod.splits sum.splits)

lemma bind3_cong:
  "m s = m' s \<Longrightarrow> (\<And>x y z t. m' s = (Ok (x, y, z), t) \<Longrightarrow> f x y z t = f' x y z t) \<Longrightarrow>
     comp_bind m (\<lambda>(x, y, z). f x y z) s = comp_bind m' (\<lambda>(x, y, z). f' x y z) s"
  by (auto intro!: bind_cong)

lemma walk_at: "(\<And>a params w. a \<in> set as \<Longrightarrow> f a params w = g a params w) \<Longrightarrow> walk f as params = walk g as params"
  by (intro walk_cong refl ext) blast

lemma walk_opt_at: "(\<And>a params w. a \<in> set_option o' \<Longrightarrow> f a params w = g a params w) \<Longrightarrow> walk_opt f o' params = walk_opt g o' params"
  by (intro walk_opt_cong refl ext) auto

lemma own_query_in: "own_query e = Some q \<Longrightarrow> q \<in> set_expr e"
  by (cases e) (auto simp: own_query_def)

lemma children_queries: "a \<in> set (walk_children e) \<Longrightarrow> set_expr a \<subseteq> set_expr e"
  by (cases e) (auto simp: walk_children_def split: option.splits)

lemma nested_agree:
  "agree (set_expr e) rq rq' \<Longrightarrow> rewrite_nested_queries rq e params w = rewrite_nested_queries rq' e params w"
proof (induction e arbitrary: params w rule: measure_induct_rule [where f = size])
  case (less e)
  have below: "agree (set_expr a) rq rq'" if "a \<in> set (walk_children e)" for a
    using less.prems children_queries [OF that] by blast
  have walks: "walk (rewrite_nested_queries rq) (walk_children e) params = walk (rewrite_nested_queries rq') (walk_children e) params" for params
    by (rule walk_at) (rule less.IH, erule walk_children_size, erule below)
  show ?case
  proof (cases "own_query e")
    case None
    then show ?thesis by (simp add: rewrite_nested_queries.simps [of rq e] rewrite_nested_queries.simps [of rq' e] walks)
  next
    case (Some q)
    then have "rq q = rq' q" using less.prems own_query_in [OF Some] by simp
    then show ?thesis using Some by (simp add: rewrite_nested_queries.simps [of rq e] rewrite_nested_queries.simps [of rq' e] walks)
  qed
qed

lemma predicate_agree:
  assumes "agree (set_expr e) rq rq'"
  shows "rewrite_predicate W rq escape scope e params w = rewrite_predicate W rq' escape scope e params w"
  unfolding rewrite_predicate_def
proof (rule bind3_cong [OF refl])
  fix c e' params' w'
  assume "rewrite_selection W escape scope e params w = (Ok (c, e', params'), w')"
  then have "agree (set_expr e') rq rq'" using assms keeps_queriesD [OF rewrite_selection_keeps] by blast
  then show "comp_bind (rewrite_nested_queries rq e' params') (\<lambda>(changed', e, params). comp_ret (c \<or> changed', e, params)) w'
    = comp_bind (rewrite_nested_queries rq' e' params') (\<lambda>(changed', e, params). comp_ret (c \<or> changed', e, params)) w'"
    by (intro bind3_cong nested_agree) simp_all
qed

lemma derived_agree:
  fixes f :: "('o, 'q) table_factor" and t :: "('o, 'q) table_with_joins" and js :: "('o, 'q) join list"
  shows "agree (set_table_factor f) rq rq' \<Longrightarrow> derived_in_factor rq f params w = derived_in_factor rq' f params w"
    and "agree (set_table_with_joins t) rq rq' \<Longrightarrow> derived_in rq t params w = derived_in rq' t params w"
    and "agree (\<Union>j \<in> set js. set_join j) rq rq' \<Longrightarrow> derived_in_joins rq js params w = derived_in_joins rq' js params w"
proof (induction rq f params and rq t params and rq js params arbitrary: w and w and w rule: derived_in_factor_derived_in_derived_in_joins.induct)
qed (auto intro!: bind3_cong)

lemma derived_keeps_operators:
  fixes f :: "('o, 'q) table_factor" and t :: "('o, 'q) table_with_joins" and js :: "('o, 'q) join list"
  shows "True" and "derived_in rq t params w = (Ok (c, t', params'), w') \<Longrightarrow> map join_operator_of (joins t') = map join_operator_of (joins t)"
    and "derived_in_joins rq js params w = (Ok (c, js', params'), w') \<Longrightarrow> map join_operator_of js' = map join_operator_of js"
proof (induction rq f params and rq t params and rq js params arbitrary: w and w c t' params' w' and w c js' params' w' rule: derived_in_factor_derived_in_derived_in_joins.induct)
qed (auto simp: comp_bind_eq_Ok)

lemma derived_tables_keep_operators:
  assumes "rewrite_derived_tables rq ts params w = (Ok (c, ts', params'), w')"
  shows "map (\<lambda>t. map join_operator_of (joins t)) ts' = map (\<lambda>t. map join_operator_of (joins t)) ts"
  using assms unfolding rewrite_derived_tables_def
proof (induction ts arbitrary: params w c ts' params' w')
  case (Cons t ts)
  from Cons.prems [unfolded walk.simps] show ?case
  proof (elim bind3E)
    fix c1 t1 p1 w1 c2 ts1 p2 w2
    assume t: "derived_in rq t params w = (Ok (c1, t1, p1), w1)" and r: "walk (derived_in rq) ts p1 w1 = (Ok (c2, ts1, p2), w2)"
      and "comp_ret (c1 \<or> c2, t1 # ts1, p2) w2 = (Ok (c, ts', params'), w')"
    then have "ts' = t1 # ts1" by simp
    then show ?thesis using Cons.IH [OF r] derived_keeps_operators(2) [OF t] by simp
  qed
qed simp

text \<open>The queries in the join conditions a select's own relations carry.\<close>

definition condition_queries :: "('o, 'q) table_with_joins list \<Rightarrow> 'q set" where
  "condition_queries ts = (\<Union>ops \<in> set (map (\<lambda>t. map join_operator_of (joins t)) ts). \<Union>op \<in> set ops. set_join_operator op)"

lemma condition_queries_sub: "condition_queries ts \<subseteq> (\<Union>t \<in> set ts. set_table_with_joins t)"
proof -
  have "set_join_operator (join_operator_of j) \<subseteq> set_table_with_joins t" if "j \<in> set (joins t)" for j t
    using that by (cases t rule: table_with_joins.exhaust, cases j rule: join.exhaust) force
  then show ?thesis by (fastforce simp: condition_queries_def)
qed

lemma condition_in: "join_condition op = Some e \<Longrightarrow> set_expr e \<subseteq> set_join_operator op"
  by (cases op rule: join_condition.cases) auto

lemma table_nested_agree:
  assumes "agree (condition_queries ts) rq rq'"
  shows "walk (table_nested rq) ts params = walk (table_nested rq') ts params"
proof (rule walk_at)
  fix t params w
  assume t: "t \<in> set ts"
  obtain factor js where tj: "t = TableWithJoins factor js" by (cases t)
  have "join_nested rq j params w = join_nested rq' j params w" if "j \<in> set js" for j params w
  proof -
    obtain f op r where j: "j = Join f op r" by (cases j)
    have "set_join_operator op \<subseteq> condition_queries ts" using t that tj j by (force simp: condition_queries_def)
    then have "agree (set_expr e) rq rq'" if "join_condition op = Some e" for e using that condition_in assms by blast
    then have "walk_opt (rewrite_nested_queries rq) (join_condition op) params = walk_opt (rewrite_nested_queries rq') (join_condition op) params"
      by (intro walk_opt_at nested_agree) auto
    then show ?thesis by (simp add: j)
  qed
  then have "walk (join_nested rq) js params = walk (join_nested rq') js params" for params by (rule walk_at)
  then show "table_nested rq t params w = table_nested rq' t params w" by (simp add: tj)
qed

lemma item_agree: "agree (set_select_item i) rq rq' \<Longrightarrow> item_nested rq i params w = item_nested rq' i params w"
  by (cases i) (auto intro!: bind3_cong nested_agree)

lemma select_agree:
  assumes "agree (set_select sel) rq rq'"
  shows "rewrite_select W q rq sel params w = rewrite_select W q rq' sel params w"
proof -
  obtain items ts sl hv grp o' where sel: "sel = Select items ts sl hv grp o'" by (cases sel)
  have items: "walk (item_nested rq) items params = walk (item_nested rq') items params" for params
    by (rule walk_at, rule item_agree) (use assms in \<open>auto simp: sel\<close>)
  have grp: "walk_opt (walk (rewrite_nested_queries rq)) grp params = walk_opt (walk (rewrite_nested_queries rq')) grp params" for params
    by (rule walk_opt_at, rule fun_cong [where x = w for w], rule walk_at, rule nested_agree) (use assms in \<open>auto simp: sel\<close>)
  have preds: "walk_opt (rewrite_predicate W rq escape scope) sl params = walk_opt (rewrite_predicate W rq' escape scope) sl params"
    "walk_opt (rewrite_predicate W rq escape scope) hv params = walk_opt (rewrite_predicate W rq' escape scope) hv params" for escape scope params
    by (rule walk_opt_at, rule predicate_agree, use assms in \<open>auto simp: sel\<close>)+
  have "agree (\<Union>t \<in> set ts. set_table_with_joins t) rq rq'" using assms by (auto simp: sel)
  note ts = this
  have derived: "rewrite_derived_tables rq ts' params = rewrite_derived_tables rq' ts' params"
    and conditions: "agree (condition_queries ts') rq rq'"
    if "rewrite_join_conditions W escape scope ts p w = (Ok (c, ts', p'), w')" for escape scope p w c ts' p' w' params
  proof -
    have ts': "agree (\<Union>t \<in> set ts'. set_table_with_joins t) rq rq'"
      using ts walk_keeps [OF conditions_in_keeps that [unfolded rewrite_join_conditions_def]] by blast
    show "rewrite_derived_tables rq ts' params = rewrite_derived_tables rq' ts' params"
      unfolding rewrite_derived_tables_def by (rule walk_at, rule derived_agree) (use ts' in blast)
    show "agree (condition_queries ts') rq rq'" using ts' condition_queries_sub [of ts'] by blast
  qed
  have same: "condition_queries ts' = condition_queries ts" if "rewrite_derived_tables rq' ts p w = (Ok (c, ts', p'), w')" for ts p w c ts' p' w'
    using derived_tables_keep_operators [OF that] by (simp only: condition_queries_def)
  show ?thesis
    unfolding sel rewrite_select_def select.case
  proof (intro bind3_cong bind_cong refl, goal_cases)
    case (1 scope w1 c1 ts1 p1 w2)
    then show ?case by (simp add: derived)
  next
    case (4 scope w1 c1 ts1 p1 w2 c2 ts2 p2 w3 c3 sl3 p3 w4 c4 hv4 p4 w5 u w6)
    have "agree (condition_queries ts2) rq rq'" using conditions [OF 4(2)] same [OF 4(3)] by simp
    then show ?case using table_nested_agree [of ts2 rq rq'] by (simp add: rewrite_select_expressions_def items grp)
  qed (simp_all add: preds)
qed

lemma predicate_opt_agree:
  "agree (\<Union>e \<in> set_option sl. set_expr e) rq rq' \<Longrightarrow>
     walk_opt (rewrite_predicate W rq escape scope) sl params = walk_opt (rewrite_predicate W rq' escape scope) sl params"
  by (rule walk_opt_at, rule predicate_agree) auto

lemma on_insert_agree:
  "agree (set_on_insert i) rq rq' \<Longrightarrow> rewrite_on_insert W rq escape target scope i params w = rewrite_on_insert W rq' escape target scope i params w"
  by (cases i) (auto simp: rewrite_on_insert_def split: conflict_action.splits intro!: bind3_cong fun_cong [OF predicate_opt_agree])

lemma insert_agree:
  assumes "agree (\<Union>i \<in> set_option on_ins. set_on_insert i) rq rq'"
  shows "rewrite_insert W q rq name alias idents source on_ins o' params w = rewrite_insert W q rq' name alias idents source on_ins o' params w"
proof -
  have eq: "walk_opt (rewrite_on_insert W rq escape target scope) on_ins params = walk_opt (rewrite_on_insert W rq' escape target scope) on_ins params"
    for escape target scope params
    by (rule walk_opt_at, rule on_insert_agree) (use assms in auto)
  show ?thesis unfolding rewrite_insert_def eq ..
qed

lemma update_agree:
  assumes "agree (set_statement (Update t as fr sl o')) rq rq'"
  shows "rewrite_update W q rq t as fr sl o' params w = rewrite_update W q rq' t as fr sl o' params w"
proof -
  have sl: "walk_opt (rewrite_predicate W rq escape scope) sl params = walk_opt (rewrite_predicate W rq' escape scope) sl params"
    for escape scope params
    by (rule predicate_opt_agree) (use assms in auto)
  have vals: "walk (assignment_nested rq) as' params = walk (assignment_nested rq') as' params"
    if "(\<Union>a \<in> set as'. set_assignment a) \<subseteq> (\<Union>a \<in> set as. set_assignment a)" for as' params
  proof (rule walk_at)
    fix a params w
    assume "a \<in> set as'"
    then have "set_assignment a \<subseteq> (\<Union>a \<in> set as. set_assignment a)" using that by blast
    then have "agree (set_expr (assigned_value a)) rq rq'" using assms by (cases a) auto
    then show "assignment_nested rq a params w = assignment_nested rq' a params w"
      unfolding assignment_nested_def by (intro bind3_cong nested_agree) simp_all
  qed
  have tab: "derived_in rq t' params w = derived_in rq' t' params w"
    if "conditions_in W escape scope t p v = (Ok (c, t', p'), v')" for escape scope p v c t' p' v' params w
    by (rule derived_agree) (use assms conditions_keep(2) [OF that] in auto)
  have frm: "walk_opt (derived_in rq) fr' params = walk_opt (derived_in rq') fr' params"
    if "walk_opt (conditions_in W escape scope) fr p v = (Ok (c, fr', p'), v')" for escape scope p v c fr' p' v' params
  proof (rule walk_opt_at, rule derived_agree)
    fix t'
    assume "t' \<in> set_option fr'"
    then show "agree (set_table_with_joins t') rq rq'" using assms walk_opt_keeps [OF conditions_in_keeps that] by force
  qed
  show ?thesis
    unfolding rewrite_update_def
  proof (intro bind3_cong bind_cong refl, goal_cases)
    case (2 cols w1 c1 as1 p1 w2 scope w3 c2 t2 p2 w4 c3 fr3 p3 w5 c4 sl4 p4 w6)
    have "(\<Union>a \<in> set as1. set_assignment a) \<subseteq> (\<Union>a \<in> set as. set_assignment a)"
      using 2(2) by (auto split: option.splits dest!: seal_assignments_keeps)
    then show ?case by (simp add: vals)
  qed (simp_all add: sl tab frm)
qed

lemma delete_agree:
  assumes "agree (set_statement (Delete fr us sl o')) rq rq'"
  shows "rewrite_delete W q rq fr us sl o' params w = rewrite_delete W q rq' fr us sl o' params w"
proof -
  have sl: "walk_opt (rewrite_predicate W rq escape scope) sl params = walk_opt (rewrite_predicate W rq' escape scope) sl params"
    for escape scope params
    by (rule predicate_opt_agree) (use assms in auto)
  have derived: "rewrite_derived_tables rq ts' params w = rewrite_derived_tables rq' ts' params w"
    if "rewrite_join_conditions W escape scope ts p v = (Ok (c, ts', p'), v')" "agree (\<Union>t \<in> set ts. set_table_with_joins t) rq rq'"
    for escape scope ts p v c ts' p' v' params w
  proof -
    have "agree (\<Union>t \<in> set ts'. set_table_with_joins t) rq rq'"
      using that(2) walk_keeps [OF conditions_in_keeps that(1) [unfolded rewrite_join_conditions_def]] by blast
    then have "walk (derived_in rq) ts' params = walk (derived_in rq') ts' params" by (intro walk_at derived_agree) blast
    then show ?thesis by (simp add: rewrite_derived_tables_def)
  qed
  have fr: "agree (\<Union>t \<in> set (delete_tables fr). set_table_with_joins t) rq rq'" using assms by (cases fr) auto
  have us: "walk_opt (rewrite_derived_tables rq) us' params = walk_opt (rewrite_derived_tables rq') us' params"
    if "walk_opt (rewrite_join_conditions W escape scope) us p v = (Ok (c, us', p'), v')" for escape scope p v c us' p' v' params
  proof (cases us)
    case (Some ts)
    with that obtain ts' v1 p1 c1 where "us' = Some ts'" "rewrite_join_conditions W escape scope ts p v = (Ok (c1, ts', p1), v1)"
      by (auto simp: walk_opt_def comp_bind_eq_Ok)
    then show ?thesis using derived [of escape scope ts p v c1 ts' p1 v1] assms Some by (intro walk_opt_at) auto
  qed (use that in \<open>simp add: walk_opt_def\<close>)
  show ?thesis
    unfolding rewrite_delete_def by (intro bind3_cong bind_cong refl) (simp_all add: sl derived fr us)
qed

lemma copy_agree:
  "agree (set_copy_source src) rq rq' \<Longrightarrow> rewrite_copy W q rq to src params w = rewrite_copy W q rq' to src params w"
  by (cases src) (auto simp: rewrite_copy_def rewrite_copy_query_def intro!: bind3_cong bind_cong)

lemma statement_agree:
  "agree (set_statement st) rq rq' \<Longrightarrow> rewrite_statement W q rq st params w = rewrite_statement W q rq' st params w"
  by (cases st) (auto simp: rewrite_statement_def intro!: insert_agree update_agree delete_agree copy_agree bind3_cong)

lemma set_expr_agree:
  "agree (set_set_expr b) rq rq' \<Longrightarrow> rewrite_set_expr W q rq b params w = rewrite_set_expr W q rq' b params w"
proof (induction W q rq b params arbitrary: w rule: rewrite_set_expr.induct)
qed (auto intro!: bind3_cong select_agree statement_agree)

lemma rewrite_set_expr_cong [fundef_cong]:
  assumes "b = b'" "params = params'" "\<And>sub. sub \<in> set_set_expr b' \<Longrightarrow> rq sub = rq' sub"
  shows "rewrite_set_expr W q rq b params = rewrite_set_expr W q rq' b' params'"
  unfolding assms(1,2) by (rule ext, rule set_expr_agree) (use assms(3) in blast)

lemma rewrite_nested_queries_cong [fundef_cong]:
  assumes "e = e'" "\<And>sub. sub \<in> set_expr e' \<Longrightarrow> rq sub = rq' sub"
  shows "rewrite_nested_queries rq e = rewrite_nested_queries rq' e'"
  unfolding assms(1) by (intro ext nested_agree) (use assms(2) in blast)


section \<open>Queries\<close>

function rewrite_query :: "'k sql_rewriter \<Rightarrow> sql_session \<Rightarrow> ('k, 'o query) rewrite_of" where
  "rewrite_query W q query params =
     comp_bind (walk (rewrite_query W q) (ctes query) params) (\<lambda>(c, cs, params).
     comp_bind (rewrite_set_expr W q (rewrite_query W q) (body query) params) (\<lambda>(c', b, params).
     comp_bind (walk (\<lambda>e. rewrite_nested_queries (rewrite_query W q) e) (order_by query) params) (\<lambda>(c'', ord, params).
       comp_ret (c \<or> c' \<or> c'', Query cs b ord (query_rest query), params))))"
  by pat_completeness auto
termination
proof (relation "inv_image nesting (\<lambda>(_, _, query, _). query)")
  show "wf (inv_image nesting (\<lambda>(_ :: 'k sql_rewriter, _ :: sql_session, query, _ :: sql_params). query))"
    by (rule wf_inv_image [OF wf_nesting])
qed (auto simp: nesting_def nested_in_def)

declare rewrite_query.simps [simp del]

text \<open>The rewrite of one parsed statement, as the statement layer calls it.\<close>

definition statement_rewriter :: "'k sql_rewriter \<Rightarrow> (('o, 'o query) statement, field_transform, 'k world) statement_rewrite" where
  "statement_rewriter W q st params = rewrite_statement W q (rewrite_query W q) st params"

end
