(* ===== verification/Spec2Isabelle.thy ===== *)
theory Spec2Isabelle
  imports Budget RowKeyProps Protect Pgwire PortalSystem RowsProps ArrayCodec FrameSystem VaultProps RewriteQuery
begin

text \<open>
  Verification of dbsec: field-level encryption for PostgreSQL as a library
  (\<open>crates/core\<close>) and as a wire-protocol proxy (\<open>crates/proxy\<close>, \<open>crates/pgwire\<close>).
\<close>

end
